(* ===== verification/Prelude.thy ===== *)
theory Prelude
  imports Main "HOL-Library.Word" "HOL-Library.Char_ord" "HOL-Library.List_Lexorder"
    "HOL-Library.Sublist"
begin

text \<open>
  Shared material of the development: the result type of the library (\<open>std::expected<T, int>\<close>
  with a POSIX errno as error), byte and integer types, and the generic facts on lists, strings
  and sums that the component theories use.
\<close>

section \<open>Results and machine types\<close>

text \<open>
  The errors are the errno names the sources return and those that the host reports in a
  \<open>std::error_code\<close> whose value the code hands on.
\<close>

datatype errno =
    ENOENT | EACCES | EISDIR | ENOTDIR | ENOTEMPTY | EEXIST | EXDEV | EINVAL | EIO
  | ELOOP | EBUSY | ENOTSUP

type_synonym 'a expected = "errno + 'a"

type_synonym u8 = "8 word"
type_synonym u32 = "32 word"
type_synonym u64 = "64 word"
type_synonym i64 = "64 word"   \<comment> \<open>read with \<open>sint\<close>\<close>
type_synonym bytes = "u8 list"

text \<open>The C++ code reinterprets the bytes of a file as the characters of a \<open>std::string\<close>.\<close>

definition string_of_bytes :: "bytes \<Rightarrow> string" where
  "string_of_bytes bs = map (\<lambda>b. char_of (unat b)) bs"

definition bytes_of_string :: "string \<Rightarrow> bytes" where
  "bytes_of_string s = map (\<lambda>c. of_nat (of_char c)) s"

text \<open>A string read through a \<open>const char *\<close> ends at the first NUL.\<close>

definition c_str :: "string \<Rightarrow> string" where
  "c_str s = takeWhile (\<lambda>c. c \<noteq> CHR 0x00) s"

abbreviation slash :: char where "slash \<equiv> CHR ''/''"
abbreviation backslash :: char where "backslash \<equiv> CHR 0x5C"

section \<open>Automation collections\<close>

named_theorems path_simps \<open>evaluation of path and component functions\<close>
named_theorems effect_simps \<open>what an operation leaves of the state\<close>

section \<open>Generic lemmas\<close>

lemma count_somes: "count_list (List.map_filter (\<lambda>x. x) xs) v = count_list xs (Some v)"
  by (induction xs) (auto simp: List.map_filter_simps split: option.split)

lemma takeWhile_not_in [simp]: "x \<notin> set (takeWhile (\<lambda>c. c \<noteq> x) xs)"
  by (auto dest: set_takeWhileD)

lemma takeWhile_not_mem: "x \<notin> set xs \<Longrightarrow> takeWhile (\<lambda>c. c \<noteq> x) xs = xs"
  by (induction xs) auto

lemma takeWhile_not_mem_append:
  "x \<notin> set xs \<Longrightarrow> takeWhile (\<lambda>c. c \<noteq> x) (xs @ x # ys) = xs"
  by (induction xs) auto

lemma dropWhile_not_mem: "x \<notin> set xs \<Longrightarrow> dropWhile (\<lambda>c. c \<noteq> x) xs = []"
  by (induction xs) auto

lemma dropWhile_not_mem_append:
  "x \<notin> set xs \<Longrightarrow> dropWhile (\<lambda>c. c \<noteq> x) (xs @ x # ys) = x # ys"
  by (induction xs) auto

lemma foldl_invariant:
  assumes "I a" and "\<And>a x. I a \<Longrightarrow> x \<in> set xs \<Longrightarrow> I (f a x)"
  shows "I (foldl f a xs)"
  using assms by (induction xs arbitrary: a) auto

lemma sum_case_Inl_iff:
  "(case x of Inl e \<Rightarrow> Inl e | Inr y \<Rightarrow> Inr (f y)) = Inl e' \<longleftrightarrow> x = Inl e'"
  by (auto split: sum.splits)

lemma string_of_bytes_of_string [simp]: "string_of_bytes (bytes_of_string s) = s"
proof -
  have "char_of (unat (of_nat (of_char c) :: u8)) = c" for c :: char
  proof -
    have "of_char c < (256 :: nat)" by (rule nat_of_char_less_256)
    then have "unat (of_nat (of_char c) :: u8) = of_char c"
      by (simp add: unat_of_nat)
    then show ?thesis by simp
  qed
  then show ?thesis
    by (simp add: string_of_bytes_def bytes_of_string_def comp_def)
qed

end
