(* ===== verification/VfsTypes.thy ===== *)
theory VfsTypes
  imports Prelude
begin

text \<open>
  The types of \<^verbatim>\<open>sandboxed-fs/include/sandboxed-fs/vfs_types.hpp\<close>: the permission mask of a
  mount, the platform-neutral \<open>Stat\<close> with its file-type tests, the flags of \<open>access\<close>.
\<close>

unbundle bit_operations_syntax

section \<open>Perm\<close>

type_synonym perm = u8

definition perm_None :: perm where "perm_None = 0"
definition perm_Read :: perm where "perm_Read = 1"
definition perm_Write :: perm where "perm_Write = 2"

definition perm_or :: "perm \<Rightarrow> perm \<Rightarrow> perm" where "perm_or a b = a OR b"
definition perm_and :: "perm \<Rightarrow> perm \<Rightarrow> perm" where "perm_and a b = a AND b"
definition perm_not :: "perm \<Rightarrow> perm" where "perm_not a = NOT a"

definition hasRead :: "perm \<Rightarrow> bool" where "hasRead p \<longleftrightarrow> perm_and p perm_Read \<noteq> 0"
definition hasWrite :: "perm \<Rightarrow> bool" where "hasWrite p \<longleftrightarrow> perm_and p perm_Write \<noteq> 0"

definition ReadWrite :: perm where "ReadWrite = perm_or perm_Read perm_Write"

lemmas perm_defs = perm_None_def perm_Read_def perm_Write_def perm_or_def perm_and_def
  perm_not_def hasRead_def hasWrite_def ReadWrite_def

section \<open>Stat\<close>

record stat =
  st_dev :: u64
  st_ino :: u64
  st_mode :: u32
  st_nlink :: u64
  st_uid :: u32
  st_gid :: u32
  st_rdev :: u64
  st_size :: i64
  st_blksize :: i64
  st_blocks :: i64
  st_atimeMs :: i64
  st_mtimeMs :: i64
  st_ctimeMs :: i64

text \<open>The default member initialisers: a value-initialised \<open>Stat\<close>.\<close>

definition stat_init :: stat where
  "stat_init = \<lparr>st_dev = 0, st_ino = 0, st_mode = 0, st_nlink = 0, st_uid = 0, st_gid = 0,
     st_rdev = 0, st_size = 0, st_blksize = 0, st_blocks = 0, st_atimeMs = 0, st_mtimeMs = 0,
     st_ctimeMs = 0\<rparr>"

definition isDir :: "stat \<Rightarrow> bool" where "isDir s \<longleftrightarrow> st_mode s AND 0xF000 = 0x4000"
definition isFile :: "stat \<Rightarrow> bool" where "isFile s \<longleftrightarrow> st_mode s AND 0xF000 = 0x8000"
definition isSymlink :: "stat \<Rightarrow> bool" where "isSymlink s \<longleftrightarrow> st_mode s AND 0xF000 = 0xA000"
definition isFifo :: "stat \<Rightarrow> bool" where "isFifo s \<longleftrightarrow> st_mode s AND 0xF000 = 0x1000"
definition isChr :: "stat \<Rightarrow> bool" where "isChr s \<longleftrightarrow> st_mode s AND 0xF000 = 0x2000"
definition isBlk :: "stat \<Rightarrow> bool" where "isBlk s \<longleftrightarrow> st_mode s AND 0xF000 = 0x6000"
definition isSock :: "stat \<Rightarrow> bool" where "isSock s \<longleftrightarrow> st_mode s AND 0xF000 = 0xC000"

lemmas stat_kind_defs = isDir_def isFile_def isSymlink_def isFifo_def isChr_def isBlk_def isSock_def

text \<open>At most one of the seven file-type tests holds of a \<open>Stat\<close>.\<close>

lemma isDir_not_isFile: "isDir s \<Longrightarrow> \<not> isFile s"
  by (simp add: stat_kind_defs)

section \<open>access_mode\<close>

definition kExist :: u32 where "kExist = 0"
definition kRead :: u32 where "kRead = 4"
definition kWrite :: u32 where "kWrite = 2"
definition kExec :: u32 where "kExec = 1"

lemmas access_mode_defs = kExist_def kRead_def kWrite_def kExec_def

section \<open>Facts on permission masks\<close>

text \<open>\<open>(mount.perm & needed) != needed\<close> is the test of the router: subset of bits.\<close>

definition perm_covers :: "perm \<Rightarrow> perm \<Rightarrow> bool" where
  "perm_covers have need \<longleftrightarrow> perm_and have need = need"

lemma and_2_cases: "p AND 2 = 0 \<or> p AND 2 = (2 :: u8)"
  by (cases "bit p 1")
    (auto intro!: bit_word_eqI simp: bit_and_iff bit_2_iff)

lemma and_1_cases: "p AND 1 = 0 \<or> p AND 1 = (1 :: u8)"
  by (cases "bit p 0")
    (auto intro!: bit_word_eqI simp: bit_and_iff bit_1_iff)

lemma perm_covers_Write: "perm_covers p perm_Write \<longleftrightarrow> hasWrite p"
  using and_2_cases [of p] by (auto simp: perm_covers_def perm_defs)

lemma perm_covers_Read: "perm_covers p perm_Read \<longleftrightarrow> hasRead p"
  using and_1_cases [of p] by (auto simp: perm_covers_def perm_defs)

lemma perm_covers_None [simp]: "perm_covers p perm_None"
  by (simp add: perm_covers_def perm_defs)

end
