(* ===== verification/VfsPath.thy ===== *)
theory VfsPath
  imports Prelude
begin

text \<open>
  Path normalisation of the mount router (\<open>VirtualFS::normalize\<close> in
  \<^verbatim>\<open>sandboxed-fs/src/vfs.cpp\<close>) and the algebra of canonical paths: the strings
  \<open>"/"\<close> and \<open>"/s1/.../sn"\<close> whose segments are real names.
\<close>

section \<open>normalize\<close>

text \<open>\<open>std::getline(ss, part, '/')\<close> until the stream is empty.\<close>

function getlines :: "string \<Rightarrow> string list" where
  "getlines s =
     (if s = [] then []
      else takeWhile (\<lambda>c. c \<noteq> slash) s # getlines (drop 1 (dropWhile (\<lambda>c. c \<noteq> slash) s)))"
  by pat_completeness auto
termination
proof (relation "measure length")
  fix s :: string
  assume "s \<noteq> []"
  have "length (drop 1 (dropWhile (\<lambda>c. c \<noteq> slash) s)) \<le> length s - 1"
    using length_dropWhile_le [of "\<lambda>c. c \<noteq> slash" s] by simp
  also have "\<dots> < length s" using \<open>s \<noteq> []\<close> by simp
  finally show "(drop 1 (dropWhile (\<lambda>c. c \<noteq> slash) s), s) \<in> measure length" by simp
qed simp

declare getlines.simps [simp del]

text \<open>The body of the loop over the parts.\<close>

definition push_part :: "string list \<Rightarrow> string \<Rightarrow> string list" where
  "push_part parts part =
     (if part = [] \<or> part = ''.'' then parts
      else if part = ''..'' then (if parts \<noteq> [] then butlast parts else parts)
      else parts @ [part])"

definition normalize :: "string \<Rightarrow> string" where
  "normalize path =
     (if path = [] then ''/''
      else
        let p = (if hd path \<noteq> slash \<and> hd path \<noteq> backslash then slash # path else path);
            p = map (\<lambda>c. if c = backslash then slash else c) p;
            parts = foldl push_part [] (getlines p)
        in if parts = [] then ''/''
           else foldl (\<lambda>result seg. (result @ ''/'') @ seg) [] parts)"

section \<open>Canonical paths\<close>

text \<open>\<open>flat [a, b] = "/a/b"\<close>; \<open>render\<close> writes the empty list as the root.\<close>

definition flat :: "string list \<Rightarrow> string" where
  "flat segs = concat (map (\<lambda>s. slash # s) segs)"

definition render :: "string list \<Rightarrow> string" where
  "render segs = (if segs = [] then ''/'' else flat segs)"

definition seg_ok :: "string \<Rightarrow> bool" where
  "seg_ok s \<longleftrightarrow> s \<noteq> [] \<and> s \<noteq> ''.'' \<and> s \<noteq> ''..'' \<and> slash \<notin> set s \<and> backslash \<notin> set s"

definition canonical_path :: "string \<Rightarrow> bool" where
  "canonical_path p \<longleftrightarrow> (\<exists>segs. list_all seg_ok segs \<and> p = render segs)"

text \<open>The components of a path: what its loop collects.\<close>

definition unify :: "string \<Rightarrow> string" where
  "unify p = map (\<lambda>c. if c = backslash then slash else c) p"

definition comps :: "string \<Rightarrow> string list" where
  "comps p = foldl push_part [] (getlines (unify p))"

lemma flat_simps [simp]: "flat [] = []" "flat (s # ss) = slash # s @ flat ss"
  by (simp_all add: flat_def)

lemma flat_append [simp]: "flat (xs @ ys) = flat xs @ flat ys"
  by (simp add: flat_def)

lemma render_loop:
  "foldl (\<lambda>result seg. (result @ ''/'') @ seg) acc parts = acc @ flat parts"
  by (induction parts arbitrary: acc) auto

lemma getlines_Nil [simp]: "getlines [] = []"
  by (simp add: getlines.simps)

lemma getlines_slash [simp]: "getlines (slash # s) = [] # getlines s"
  by (simp add: getlines.simps [of "slash # s"])

lemma getlines_single: "slash \<notin> set s \<Longrightarrow> s \<noteq> [] \<Longrightarrow> getlines s = [s]"
  by (simp add: getlines.simps [of s] takeWhile_not_mem dropWhile_not_mem)

lemma getlines_split:
  "slash \<notin> set s \<Longrightarrow> getlines (s @ slash # t) = s # getlines t"
  by (simp add: getlines.simps [of "s @ slash # t"] takeWhile_not_mem_append
      dropWhile_not_mem_append)

lemma getlines_token: "t \<in> set (getlines s) \<Longrightarrow> slash \<notin> set t \<and> set t \<subseteq> set s"
proof (induction s rule: getlines.induct)
  case (1 s)
  show ?case
  proof (cases "s = []")
    case True
    with "1.prems" show ?thesis by simp
  next
    case False
    let ?rest = "drop 1 (dropWhile (\<lambda>c. c \<noteq> slash) s)"
    from False "1.prems" consider "t = takeWhile (\<lambda>c. c \<noteq> slash) s" | "t \<in> set (getlines ?rest)"
      by (auto simp: getlines.simps [of s])
    then show ?thesis
    proof cases
      case 1
      then show ?thesis by (auto dest: set_takeWhileD)
    next
      case 2
      moreover have "set ?rest \<subseteq> set s"
        by (meson set_drop_subset set_dropWhileD subset_code(1))
      ultimately show ?thesis using "1.IH" [OF False] by blast
    qed
  qed
qed

text \<open>Going through the parts of \<open>s/t\<close> is going through \<open>s\<close>, then through \<open>t\<close>.\<close>

lemma push_join:
  "foldl push_part acc (getlines (s @ slash # t)) =
     foldl push_part (foldl push_part acc (getlines s)) (getlines t)"
proof (induction s arbitrary: acc rule: getlines.induct)
  case (1 s)
  show ?case
  proof (cases "slash \<in> set s")
    case False
    then show ?thesis
      by (cases "s = []") (simp_all add: push_part_def getlines_split getlines_single)
  next
    case True
    then obtain a b where s: "s = a @ slash # b" and a: "slash \<notin> set a"
      by (meson split_list_first)
    then have ne: "s \<noteq> []" and rest: "drop 1 (dropWhile (\<lambda>c. c \<noteq> slash) s) = b"
      by (simp_all add: dropWhile_not_mem_append)
    have "foldl push_part (push_part acc a) (getlines (b @ slash # t)) =
       foldl push_part (foldl push_part (push_part acc a) (getlines b)) (getlines t)"
      using "1.IH" [OF ne, unfolded rest] .
    with a show ?thesis by (simp add: s getlines_split)
  qed
qed

lemma unify_append [simp]: "unify (a @ b) = unify a @ unify b"
  by (simp add: unify_def)

lemma unify_Cons [simp]: "unify (slash # b) = slash # unify b"
  by (simp add: unify_def)

lemma unify_Nil [simp]: "unify [] = []"
  by (simp add: unify_def)

lemma backslash_unify: "backslash \<notin> set (unify p)"
  by (auto simp: unify_def)

lemma unify_id: "backslash \<notin> set p \<Longrightarrow> unify p = p"
  by (induction p) (auto simp: unify_def)

lemma unify_unify [simp]: "unify (unify p) = unify p"
  by (simp add: unify_id backslash_unify)

lemma comps_slash [simp]: "comps (slash # p) = comps p"
  by (simp add: comps_def push_part_def)

lemma comps_Nil [simp]: "comps [] = []"
  by (simp add: comps_def)

lemma comps_unify [simp]: "comps (unify p) = comps p"
  by (simp add: comps_def)

lemma comps_join: "comps (p @ slash # q) = foldl push_part (comps p) (getlines (unify q))"
  by (simp add: comps_def push_join)

lemma push_part_ok:
  "list_all seg_ok acc \<Longrightarrow> slash \<notin> set t \<Longrightarrow> backslash \<notin> set t \<Longrightarrow>
     list_all seg_ok (push_part acc t)"
  by (auto simp: push_part_def seg_ok_def list_all_iff dest: in_set_butlastD)

lemma comps_ok: "list_all seg_ok (comps p)"
  unfolding comps_def
proof (rule foldl_invariant)
  fix acc t
  assume "list_all seg_ok acc" and t: "t \<in> set (getlines (unify p))"
  moreover from getlines_token [OF t] backslash_unify [of p]
  have "slash \<notin> set t" "backslash \<notin> set t" by auto
  ultimately show "list_all seg_ok (push_part acc t)" by (simp add: push_part_ok)
qed simp

lemma normalize_render: "normalize p = render (comps p)"
proof (cases "p = []")
  case True
  then show ?thesis by (simp add: normalize_def render_def)
next
  case False
  let ?q = "if hd p \<noteq> slash \<and> hd p \<noteq> backslash then slash # p else p"
  have "comps ?q = comps p" by simp
  moreover have "normalize p = render (comps ?q)"
    using False unfolding normalize_def comps_def unify_def render_def Let_def
    by (simp only: if_False render_loop append_Nil)
  ultimately show ?thesis by simp
qed

lemma seg_ok_no_backslash: "list_all seg_ok segs \<Longrightarrow> backslash \<notin> set (flat segs)"
  by (induction segs) (auto simp: seg_ok_def)

lemma push_seg: "seg_ok s \<Longrightarrow> foldl push_part acc (getlines s) = acc @ [s]"
  by (simp add: seg_ok_def getlines_single push_part_def)

lemma comps_flat: "list_all seg_ok segs \<Longrightarrow> comps (flat segs) = segs"
proof (induction segs rule: rev_induct)
  case (snoc s segs)
  then have "unify s = s" by (auto simp: seg_ok_def intro: unify_id)
  with snoc show ?case by (simp add: comps_join push_seg)
qed simp

lemma comps_render: "list_all seg_ok segs \<Longrightarrow> comps (render segs) = segs"
  by (simp add: render_def comps_flat)

lemma canonical_normalize [simp, intro]: "canonical_path (normalize p)"
  using comps_ok by (auto simp: canonical_path_def normalize_render)

lemma canonical_iff: "canonical_path p \<longleftrightarrow> normalize p = p"
proof
  assume "canonical_path p"
  then show "normalize p = p"
    by (auto simp: canonical_path_def normalize_render comps_render)
next
  assume "normalize p = p"
  then show "canonical_path p" by (metis canonical_normalize)
qed

lemma comps_normalize [simp]: "comps (normalize p) = comps p"
  by (simp add: normalize_render comps_render comps_ok)

lemma canonical_render: "canonical_path p \<Longrightarrow> p = render (comps p)"
  by (simp add: canonical_iff normalize_render)

lemma render_inject:
  "list_all seg_ok a \<Longrightarrow> list_all seg_ok b \<Longrightarrow> render a = render b \<longleftrightarrow> a = b"
  by (metis comps_render)

lemma canonical_eq_iff:
  "canonical_path p \<Longrightarrow> canonical_path q \<Longrightarrow> p = q \<longleftrightarrow> comps p = comps q"
  by (metis canonical_render)

lemma canonical_flat: "canonical_path p \<Longrightarrow> p \<noteq> ''/'' \<Longrightarrow> p = flat (comps p)"
  by (metis canonical_render render_def)

lemma comps_eq_Nil_iff: "canonical_path p \<Longrightarrow> comps p = [] \<longleftrightarrow> p = ''/''"
  using canonical_render [of p] comps_render [of "[]"] by (auto simp: render_def)

section \<open>Prefixes of canonical paths\<close>

text \<open>
  A string prefix that ends at a segment boundary is a prefix of the list of segments, and what
  follows it is again a sequence of segments.
\<close>

lemma flat_boundary:
  assumes "list_all seg_ok ps" and "list_all seg_ok ss"
    and "flat ss = flat ps @ rest" and "rest = [] \<or> hd rest = slash"
  shows "\<exists>rs. ss = ps @ rs \<and> rest = flat rs"
  using assms
proof (induction ps arbitrary: ss)
  case Nil
  then show ?case by auto
next
  case (Cons p ps)
  from Cons.prems(3) obtain s ss' where ss: "ss = s # ss'" by (cases ss) auto
  from Cons.prems have p: "slash \<notin> set p" and s: "slash \<notin> set s"
    by (auto simp: ss seg_ok_def)
  have tail: "t = [] \<or> (\<exists>u. t = slash # u)" if "t = flat qs @ rest" for t qs
    using that Cons.prems(4) by (cases qs; cases rest) auto
  have tail': "flat ss' = [] \<or> (\<exists>u. flat ss' = slash # u)"
    by (cases ss') auto
  have eq: "s @ flat ss' = p @ (flat ps @ rest)"
    using Cons.prems(3) by (simp add: ss)
  have take_s: "takeWhile (\<lambda>c. c \<noteq> slash) (s @ flat ss') = s"
    using s tail' by (auto simp: takeWhile_not_mem takeWhile_not_mem_append)
  have take_p: "takeWhile (\<lambda>c. c \<noteq> slash) (p @ (flat ps @ rest)) = p"
    using p tail [OF refl, of ps] by (auto simp: takeWhile_not_mem takeWhile_not_mem_append)
  have "s = p" using eq take_s take_p by metis
  with eq have "flat ss' = flat ps @ rest" by simp
  with Cons.IH [of ss'] Cons.prems obtain rs where "ss' = ps @ rs" "rest = flat rs"
    by (auto simp: ss)
  with \<open>s = p\<close> show ?case by (auto simp: ss)
qed

section \<open>Properties\<close>

text \<open>
  Normalisation of an arbitrary string gives a canonical path (the root or real names, no
  dot, dot-dot, empty segment or backslash), changes no path that is canonical already, and
  resolving a path below another one is resolving it below the other's normal form.
\<close>

lemma normalize_canonical:
  "canonical_path (normalize p) \<and>
   (canonical_path p \<longleftrightarrow> normalize p = p) \<and>
   normalize (normalize p) = normalize p \<and>
   normalize (p @ slash # q) = normalize (normalize p @ slash # q)"
proof -
  have "comps (p @ slash # q) = comps (normalize p @ slash # q)"
    by (simp add: comps_join)
  then have "normalize (p @ slash # q) = normalize (normalize p @ slash # q)"
    by (simp only: normalize_render [of "_ @ _"])
  moreover have "normalize (normalize p) = normalize p"
    using canonical_normalize by (simp only: canonical_iff)
  ultimately show ?thesis using canonical_normalize canonical_iff by blast
qed

text \<open>
  The normal form follows the segments one by one: a name goes one level down, dot-dot one
  level up and stays at the root, a dot, an empty segment and the kind of slash change nothing.
\<close>

lemma normalize_steps:
  "normalize [] = render [] \<and>
   normalize (p @ ''/..'') = render (butlast (comps p)) \<and>
   normalize (p @ ''/.'') = normalize p \<and>
   normalize (p @ ''/'') = normalize p \<and>
   normalize (unify p) = normalize p \<and>
   (seg_ok s \<longrightarrow> normalize (p @ slash # s) = render (comps p @ [s]))"
proof -
  have "comps (p @ slash # s) = comps p @ [s]" if "seg_ok s"
  proof -
    from that have "unify s = s" by (auto simp: seg_ok_def intro: unify_id)
    with that show ?thesis by (simp add: comps_join push_seg)
  qed
  moreover have "unify ''..'' = ''..''" "unify ''.'' = ''.''" by (simp_all add: unify_def)
  moreover note comps_join [of p "''..''"] comps_join [of p "''.''"] comps_join [of p "[]"]
  ultimately show ?thesis
    by (simp add: normalize_render getlines_single push_part_def)
qed

text \<open>
  C1. Normalisation of an arbitrary string gives a canonical path (the root or real names, no
  dot, dot-dot, empty segment or backslash), changes no path that is canonical already, and
  resolving a path below another one is resolving it below the other's normal form. It follows the
  segments one by one: a name goes one level down, dot-dot one level up and stays at the root, a dot,
  an empty segment and the kind of slash change nothing.
\<close>

theorem normalize_spec:
  "(canonical_path (normalize p) \<and>
   (canonical_path p \<longleftrightarrow> normalize p = p) \<and>
   normalize (normalize p) = normalize p \<and>
   normalize (p @ slash # q) = normalize (normalize p @ slash # q)) \<and>
   (normalize [] = render [] \<and>
   normalize (p @ ''/..'') = render (butlast (comps p)) \<and>
   normalize (p @ ''/.'') = normalize p \<and>
   normalize (p @ ''/'') = normalize p \<and>
   normalize (unify p) = normalize p \<and>
   (seg_ok s \<longrightarrow> normalize (p @ slash # s) = render (comps p @ [s])))"
  by (rule conjI [OF normalize_canonical normalize_steps])

theorem normalize_spec_witness:
  "normalize ''/a/../b/c'' = render [''b'', ''c'']"
proof -
  have "seg_ok ''c''" by code_simp
  moreover have "comps ''/a/../b'' = [''b'']" by code_simp
  ultimately show ?thesis using conjunct2 [OF normalize_spec [of "''/a/../b''" "[]" "''c''"]] by simp
qed

end
