(* ===== verification/MemTree.thy ===== *)
theory MemTree
  imports VfsTypes VfsPath
begin

text \<open>
  The data of \<open>MemFSBackend\<close> (\<^verbatim>\<open>sandboxed-fs/include/sandboxed-fs/vfs_mem.hpp\<close>): a tree of
  \<open>Node\<close>s whose children are a \<open>std::map\<close> from names to nodes. A \<open>std::map\<close> is the list of its
  entries in key order; the three operations the sources use are looked up, inserted or
  assigned, and erased by key. A \<open>Node *\<close> into the tree is the list of names that leads to it.
\<close>

section \<open>std::map with string keys\<close>

fun map_find :: "('k \<times> 'v) list \<Rightarrow> 'k \<Rightarrow> 'v option" where
  "map_find [] k = None"
| "map_find ((k', v) # m) k = (if k = k' then Some v else map_find m k)"

fun map_put :: "'k::linorder \<Rightarrow> 'v \<Rightarrow> ('k \<times> 'v) list \<Rightarrow> ('k \<times> 'v) list" where
  "map_put k v [] = [(k, v)]"
| "map_put k v ((k', v') # m) =
     (if k = k' then (k, v) # m
      else if k < k' then (k, v) # (k', v') # m
      else (k', v') # map_put k v m)"

fun map_erase :: "'k \<Rightarrow> ('k \<times> 'v) list \<Rightarrow> ('k \<times> 'v) list" where
  "map_erase k [] = []"
| "map_erase k ((k', v') # m) = (if k = k' then m else (k', v') # map_erase k m)"

definition map_keys :: "('k \<times> 'v) list \<Rightarrow> 'k list" where
  "map_keys m = map fst m"

definition map_sorted :: "('k::linorder \<times> 'v) list \<Rightarrow> bool" where
  "map_sorted m \<longleftrightarrow> sorted_wrt (<) (map fst m)"

text \<open>What the tree relies on.\<close>

locale ordered_map =
  fixes find :: "'m \<Rightarrow> 'k::linorder \<Rightarrow> 'v option"
    and put :: "'k \<Rightarrow> 'v \<Rightarrow> 'm \<Rightarrow> 'm"
    and erase :: "'k \<Rightarrow> 'm \<Rightarrow> 'm"
    and keys :: "'m \<Rightarrow> 'k list"
    and inv :: "'m \<Rightarrow> bool"
  assumes find_put: "inv m \<Longrightarrow> find (put k v m) k' = (if k' = k then Some v else find m k')"
    and find_erase: "inv m \<Longrightarrow> find (erase k m) k' = (if k' = k then None else find m k')"
    and keys_find: "inv m \<Longrightarrow> k \<in> set (keys m) \<longleftrightarrow> find m k \<noteq> None"
    and keys_sorted: "inv m \<Longrightarrow> sorted_wrt (<) (keys m)"
    and inv_put: "inv m \<Longrightarrow> inv (put k v m)"
    and inv_erase: "inv m \<Longrightarrow> inv (erase k m)"
begin

lemma keys_put: "inv m \<Longrightarrow> set (keys (put k v m)) = insert k (set (keys m))"
  by (auto simp: keys_find inv_put find_put split: if_splits)

lemma keys_erase: "inv m \<Longrightarrow> set (keys (erase k m)) = set (keys m) - {k}"
  by (auto simp: keys_find inv_erase find_erase split: if_splits)

lemma distinct_keys: "inv m \<Longrightarrow> distinct (keys m)"
  using keys_sorted by (simp add: strict_sorted_iff)

lemma keys_determined:
  "inv m \<Longrightarrow> inv m' \<Longrightarrow> (\<And>k. find m k = None \<longleftrightarrow> find m' k = None) \<Longrightarrow> keys m = keys m'"
  by (rule strict_sorted_equal) (auto simp: keys_sorted keys_find)

lemma find_move:
  "inv m \<Longrightarrow> find (put k v (erase j m)) i =
     (if i = k then Some v else if i = j then None else find m i)"
  by (simp add: find_put find_erase inv_erase)

end

lemma map_find_map_of: "map_find m k = map_of m k"
  by (induction m) auto

lemma map_find_None_iff: "map_find m k = None \<longleftrightarrow> k \<notin> fst ` set m"
  by (induction m) (auto split: if_splits)

lemma map_find_SomeD: "map_find m k = Some v \<Longrightarrow> (k, v) \<in> set m"
  by (induction m) (auto split: if_splits)

lemma map_find_put [simp]: "map_find (map_put k v m) k' = (if k' = k then Some v else map_find m k')"
  by (induction m) auto

lemma map_sorted_Cons:
  "map_sorted ((k, v) # m) \<longleftrightarrow> (\<forall>k'\<in>fst ` set m. k < k') \<and> map_sorted m"
  by (auto simp: map_sorted_def)

lemma map_keys_put: "fst ` set (map_put k v m) = insert k (fst ` set m)"
proof (induction m)
  case (Cons x m)
  then show ?case by (cases x) auto
qed simp

lemma map_put_subset: "set (map_put k v m) \<subseteq> insert (k, v) (set m)"
proof (induction m)
  case (Cons x m)
  then show ?case by (cases x) auto
qed simp

lemma map_sorted_Nil [simp]: "map_sorted []"
  by (simp add: map_sorted_def)

lemma map_sorted_put: "map_sorted m \<Longrightarrow> map_sorted (map_put k v m)"
proof (induction m)
  case (Cons x m)
  then show ?case
    by (cases x) (auto simp: map_sorted_Cons map_keys_put; fastforce)
qed (simp add: map_sorted_Cons)

lemma map_erase_subset: "set (map_erase k m) \<subseteq> set m"
proof (induction m)
  case (Cons x m)
  then show ?case by (cases x) auto
qed simp

lemma map_sorted_erase: "map_sorted m \<Longrightarrow> map_sorted (map_erase k m)"
proof (induction m)
  case (Cons x m)
  then show ?case using map_erase_subset [of k m]
    by (cases x) (auto simp: map_sorted_Cons)
qed (simp add: map_sorted_def)

lemma map_find_erase:
  "map_sorted m \<Longrightarrow> map_find (map_erase k m) k' = (if k' = k then None else map_find m k')"
proof (induction m)
  case (Cons x m)
  then show ?case
    by (cases x) (auto simp: map_sorted_Cons map_find_None_iff image_iff split: if_splits;
        metis fst_conv less_irrefl)
qed simp

interpretation children: ordered_map map_find map_put map_erase map_keys map_sorted
proof unfold_locales
  fix m :: "('a \<times> 'b) list" and k
  show "k \<in> set (map_keys m) \<longleftrightarrow> map_find m k \<noteq> None"
    by (simp add: map_keys_def map_find_None_iff)
  assume "map_sorted m"
  then show "sorted_wrt (<) (map_keys m)" by (simp add: map_sorted_def map_keys_def)
qed (simp_all add: map_find_erase map_sorted_put map_sorted_erase)

section \<open>Node\<close>

datatype node = Node (n_stat: stat) (n_data: bytes) (n_children: "(string \<times> node) list")

fun walk :: "node \<Rightarrow> string list \<Rightarrow> node option" where
  "walk n [] = Some n"
| "walk n (p # ps) =
     (case map_find (n_children n) p of
        None \<Rightarrow> None
      | Some c \<Rightarrow> walk c ps)"

text \<open>Assignment through a pointer into the tree.\<close>

fun modify :: "string list \<Rightarrow> (node \<Rightarrow> node) \<Rightarrow> node \<Rightarrow> node" where
  "modify [] f n = f n"
| "modify (p # ps) f n =
     (case map_find (n_children n) p of
        None \<Rightarrow> n
      | Some c \<Rightarrow> Node (n_stat n) (n_data n) (map_put p (modify ps f c) (n_children n)))"

definition set_stat :: "(stat \<Rightarrow> stat) \<Rightarrow> node \<Rightarrow> node" where
  "set_stat f n = Node (f (n_stat n)) (n_data n) (n_children n)"

definition put_child :: "string \<Rightarrow> node \<Rightarrow> node \<Rightarrow> node" where
  "put_child k c n = Node (n_stat n) (n_data n) (map_put k c (n_children n))"

definition erase_child :: "string \<Rightarrow> node \<Rightarrow> node" where
  "erase_child k n = Node (n_stat n) (n_data n) (map_erase k (n_children n))"

lemma n_stat_put_child [simp]: "n_stat (put_child k c n) = n_stat n"
  and n_data_put_child [simp]: "n_data (put_child k c n) = n_data n"
  and n_children_put_child [simp]: "n_children (put_child k c n) = map_put k c (n_children n)"
  and n_stat_erase_child [simp]: "n_stat (erase_child k n) = n_stat n"
  and n_data_erase_child [simp]: "n_data (erase_child k n) = n_data n"
  and n_children_erase_child [simp]: "n_children (erase_child k n) = map_erase k (n_children n)"
  and n_stat_set_stat [simp]: "n_stat (set_stat f n) = f (n_stat n)"
  and n_data_set_stat [simp]: "n_data (set_stat f n) = n_data n"
  and n_children_set_stat [simp]: "n_children (set_stat f n) = n_children n"
  by (simp_all add: put_child_def erase_child_def set_stat_def)

lemma walk_append:
  "walk n (xs @ ys) = (case walk n xs of None \<Rightarrow> None | Some m \<Rightarrow> walk m ys)"
  by (induction n xs rule: walk.induct) (auto split: option.splits)

lemma walk_snoc:
  "walk n (xs @ [k]) = (case walk n xs of None \<Rightarrow> None | Some m \<Rightarrow> map_find (n_children m) k)"
  by (simp add: walk_append split: option.splits)

lemma walk_prefix_defined: "walk n (xs @ ys) = Some m \<Longrightarrow> \<exists>m'. walk n xs = Some m'"
  by (auto simp: walk_append split: option.splits)

text \<open>Reading after a write through a pointer: below it, above it, and beside it.\<close>

lemma walk_modify_below:
  "walk n ps = Some m \<Longrightarrow> walk (modify ps f n) (ps @ qs) = walk (f m) qs"
  by (induction ps f n rule: modify.induct) (auto split: option.splits)

lemma walk_modify_same: "walk n ps = Some m \<Longrightarrow> walk (modify ps f n) ps = Some (f m)"
  using walk_modify_below [of n ps m f "[]"] by simp


section \<open>The tree as a map from paths to files\<close>

text \<open>What a client can observe of the tree: the \<open>Stat\<close> and the content at each path.\<close>

definition view :: "node \<Rightarrow> string list \<Rightarrow> (stat \<times> bytes) option" where
  "view r ps = map_option (\<lambda>n. (n_stat n, n_data n)) (walk r ps)"

lemma view_Nil [simp]: "view n [] = Some (n_stat n, n_data n)"
  by (simp add: view_def)

lemma view_Cons [simp]:
  "view n (p # ps) = (case map_find (n_children n) p of None \<Rightarrow> None | Some c \<Rightarrow> view c ps)"
  by (simp add: view_def split: option.split)

lemma view_modify_outside: "\<not> prefix ps qs \<Longrightarrow> view (modify ps f r) qs = view r qs"
proof (induction ps f r arbitrary: qs rule: modify.induct)
  case (2 p ps f n)
  show ?case
  proof (cases "map_find (n_children n) p")
    case (Some c)
    show ?thesis
    proof (cases qs)
      case (Cons q qs')
      with "2.IH" [OF Some, of qs'] "2.prems" Some show ?thesis by auto
    qed (simp add: Some)
  qed simp
qed simp

lemma view_modify_inside:
  "walk r ps = Some m \<Longrightarrow> view (modify ps f r) (ps @ qs) = view (f m) qs"
  by (simp add: view_def walk_modify_below)

lemma view_modify:
  "walk r ps = Some m \<Longrightarrow>
     view (modify ps f r) qs =
       (if prefix ps qs then view (f m) (drop (length ps) qs) else view r qs)"
  by (auto simp: view_modify_outside view_modify_inside elim: prefixE)

lemma view_below: "walk r ps = Some m \<Longrightarrow> view r (ps @ qs) = view m qs"
  by (simp add: view_def walk_append)

text \<open>Assigning the fields of one node.\<close>

lemma view_assign:
  assumes "walk r ps = Some m" and "n_children (f m) = n_children m"
  shows "view (modify ps f r) = (view r)(ps \<mapsto> (n_stat (f m), n_data (f m)))"
proof
  fix qs
  show "view (modify ps f r) qs = ((view r)(ps \<mapsto> (n_stat (f m), n_data (f m)))) qs"
  proof (cases "prefix ps qs")
    case True
    then obtain t where t: "qs = ps @ t" by (auto elim: prefixE)
    have "view (f m) t = (if t = [] then Some (n_stat (f m), n_data (f m)) else view m t)"
      using assms(2) by (cases t) simp_all
    with assms(1) t show ?thesis by (simp add: view_modify_inside view_below)
  qed (auto simp: view_modify_outside)
qed

text \<open>Linking a subtree under a name, and unlinking one.\<close>

lemma view_put_child:
  assumes "walk r ps = Some m"
  shows "view (modify ps (put_child k c) r) qs =
    (if prefix (ps @ [k]) qs then view c (drop (Suc (length ps)) qs) else view r qs)"
proof (cases "prefix ps qs")
  case True
  then obtain t where t: "qs = ps @ t" by (auto elim: prefixE)
  then show ?thesis using assms
    by (cases t) (auto simp: view_modify_inside view_below view_modify_inside [where qs = "[]", simplified]
        view_below [where qs = "[]", simplified])
next
  case False
  then show ?thesis
    by (auto simp: view_modify_outside elim!: prefixE)
qed

lemma view_erase_child:
  assumes "walk r ps = Some m" and "map_sorted (n_children m)"
  shows "view (modify ps (erase_child k) r) qs =
    (if prefix (ps @ [k]) qs then None else view r qs)"
proof (cases "prefix ps qs")
  case True
  then obtain t where t: "qs = ps @ t" by (auto elim: prefixE)
  then show ?thesis using assms
    by (cases t) (auto simp: view_modify_inside view_below children.find_erase
        view_modify_inside [where qs = "[]", simplified] view_below [where qs = "[]", simplified])
next
  case False
  then show ?thesis
    by (auto simp: view_modify_outside elim!: prefixE)
qed

section \<open>Well-formed trees\<close>

text \<open>
  A name is what \<open>splitPath\<close> can produce: not empty, not a dot, without separators (dot-dot is
  a name like any other here). A node is a directory without content or a regular file
  without children whose size is the length of its content.
\<close>

definition name_ok :: "string \<Rightarrow> bool" where
  "name_ok s \<longleftrightarrow> s \<noteq> [] \<and> s \<noteq> ''.'' \<and> slash \<notin> set s \<and> backslash \<notin> set s"

definition node_ok :: "node \<Rightarrow> bool" where
  "node_ok n \<longleftrightarrow>
     map_sorted (n_children n) \<and> list_all name_ok (map_keys (n_children n)) \<and>
     (isDir (n_stat n) \<and> n_data n = [] \<or>
      isFile (n_stat n) \<and> n_children n = [] \<and> st_size (n_stat n) = of_nat (length (n_data n)))"

fun wf_node :: "node \<Rightarrow> bool" where
  "wf_node (Node s d cs) \<longleftrightarrow> node_ok (Node s d cs) \<and> list_all (\<lambda>(k, c). wf_node c) cs"

lemma wf_node_iff:
  "wf_node n \<longleftrightarrow> node_ok n \<and> (\<forall>(k, c)\<in>set (n_children n). wf_node c)"
  by (cases n) (simp add: list_all_iff)

lemma wf_node_ok: "wf_node n \<Longrightarrow> node_ok n"
  by (rule wf_node_iff [THEN iffD1, THEN conjunct1])

lemma wf_kid: "wf_node n \<Longrightarrow> (k, c) \<in> set (n_children n) \<Longrightarrow> wf_node c"
  using wf_node_iff [THEN iffD1, THEN conjunct2, of n] by auto

lemma wf_nodeI:
  "node_ok n \<Longrightarrow> (\<And>k c. (k, c) \<in> set (n_children n) \<Longrightarrow> wf_node c) \<Longrightarrow> wf_node n"
  by (subst wf_node_iff) auto

lemma wf_child: "wf_node n \<Longrightarrow> map_find (n_children n) k = Some c \<Longrightarrow> wf_node c"
  by (meson map_find_SomeD wf_kid)

lemma wf_walk: "wf_node n \<Longrightarrow> walk n ps = Some m \<Longrightarrow> wf_node m"
  by (induction n ps rule: walk.induct) (auto split: option.splits intro: wf_child)

lemma wf_sorted: "wf_node n \<Longrightarrow> map_sorted (n_children n)"
  using wf_node_ok by (auto simp: node_ok_def)

lemma wf_file_no_children: "wf_node n \<Longrightarrow> \<not> isDir (n_stat n) \<Longrightarrow> n_children n = []"
  by (auto simp: node_ok_def dest: wf_node_ok)

lemma wf_name_ok: "wf_node n \<Longrightarrow> map_find (n_children n) k = Some c \<Longrightarrow> name_ok k"
  by (force simp: node_ok_def list_all_iff map_keys_def dest: wf_node_ok map_find_SomeD)

lemma name_ok_put:
  "name_ok k \<Longrightarrow> list_all name_ok (map_keys cs) \<Longrightarrow> list_all name_ok (map_keys (map_put k c cs))"
  by (simp add: list_all_iff map_keys_def map_keys_put)

lemma wf_put_child:
  assumes "wf_node n" and "wf_node c" and "name_ok k" and "isDir (n_stat n)"
  shows "wf_node (put_child k c n)"
proof (rule wf_nodeI)
  fix k' c'
  assume "(k', c') \<in> set (n_children (put_child k c n))"
  then show "wf_node c'"
    using map_put_subset [of k c "n_children n"] assms(1,2) wf_kid by fastforce
next
  show "node_ok (put_child k c n)"
    using assms wf_node_ok [OF assms(1)] isDir_not_isFile [of "n_stat n"]
    by (auto simp: node_ok_def map_sorted_put name_ok_put)
qed

lemma wf_erase_child:
  assumes "wf_node n"
  shows "wf_node (erase_child k n)"
proof (rule wf_nodeI)
  have sub: "set (map_erase k (n_children n)) \<subseteq> set (n_children n)" by (rule map_erase_subset)
  {
    fix k' c'
    assume "(k', c') \<in> set (n_children (erase_child k n))"
    with sub assms show "wf_node c'" by (auto intro: wf_kid)
  next
    from sub have "set (map_keys (map_erase k (n_children n))) \<subseteq> set (map_keys (n_children n))"
      by (auto simp: map_keys_def)
    then show "node_ok (erase_child k n)"
      using wf_node_ok [OF assms] sub by (auto simp: node_ok_def map_sorted_erase list_all_iff)
  }
qed

lemma wf_modify:
  assumes "wf_node n" and "\<And>m. walk n ps = Some m \<Longrightarrow> wf_node m \<Longrightarrow> wf_node (f m)"
  shows "wf_node (modify ps f n)"
  using assms
proof (induction ps f n rule: modify.induct)
  case (2 p ps f n)
  show ?case
  proof (cases "map_find (n_children n) p")
    case (Some c)
    have "wf_node (modify ps f c)"
      using "2.IH" [OF Some] "2.prems" Some by (auto intro: wf_child)
    moreover have "isDir (n_stat n)"
      using wf_file_no_children [OF "2.prems"(1)] Some by fastforce
    ultimately show ?thesis
      using wf_put_child [OF "2.prems"(1)] wf_name_ok [OF "2.prems"(1) Some] Some
      by (simp add: put_child_def)
  qed (use "2.prems" in simp)
qed simp

end
