(* ===== verification/VfsBackend.thy ===== *)
theory VfsBackend
  imports VfsTypes
begin

text \<open>
  The abstract class \<open>VFSBackend\<close> of \<^verbatim>\<open>sandboxed-fs/include/sandboxed-fs/vfs_backend.hpp\<close> as a
  method table over a world \<open>'w\<close>: each virtual method takes its arguments and the world and
  returns its result and the world after the call. A pointer to a backend is a number; a
  family \<open>nat \<Rightarrow> 'w vfs_backend\<close> gives the method table of the object behind each pointer.

  \<open>const void *data, size_t len\<close> is the list of the \<open>len\<close> bytes. The result of \<open>access\<close> is
  \<open>None\<close> for 0 and \<open>Some e\<close> for an errno.
\<close>

record 'w vfs_backend =
  be_readFile :: "string \<Rightarrow> 'w \<Rightarrow> string expected \<times> 'w"
  be_readFileBytes :: "string \<Rightarrow> 'w \<Rightarrow> bytes expected \<times> 'w"
  be_writeFile :: "string \<Rightarrow> bytes \<Rightarrow> 'w \<Rightarrow> unit expected \<times> 'w"
  be_appendFile :: "string \<Rightarrow> bytes \<Rightarrow> 'w \<Rightarrow> unit expected \<times> 'w"
  be_unlink :: "string \<Rightarrow> 'w \<Rightarrow> unit expected \<times> 'w"
  be_mkdir :: "string \<Rightarrow> bool \<Rightarrow> u32 \<Rightarrow> 'w \<Rightarrow> unit expected \<times> 'w"
  be_rmdir :: "string \<Rightarrow> 'w \<Rightarrow> unit expected \<times> 'w"
  be_readdir :: "string \<Rightarrow> 'w \<Rightarrow> string list expected \<times> 'w"
  be_stat :: "string \<Rightarrow> 'w \<Rightarrow> stat expected \<times> 'w"
  be_lstat :: "string \<Rightarrow> 'w \<Rightarrow> stat expected \<times> 'w"
  be_exists :: "string \<Rightarrow> 'w \<Rightarrow> bool \<times> 'w"
  be_rename :: "string \<Rightarrow> string \<Rightarrow> 'w \<Rightarrow> unit expected \<times> 'w"
  be_copyFile :: "string \<Rightarrow> string \<Rightarrow> 'w \<Rightarrow> unit expected \<times> 'w"
  be_truncate :: "string \<Rightarrow> i64 \<Rightarrow> 'w \<Rightarrow> unit expected \<times> 'w"
  be_utimes :: "string \<Rightarrow> i64 \<Rightarrow> i64 \<Rightarrow> 'w \<Rightarrow> unit expected \<times> 'w"
  be_access :: "string \<Rightarrow> u32 \<Rightarrow> 'w \<Rightarrow> errno option \<times> 'w"

text \<open>
  One call of the interface as data, and its effect on the world: what a client can do to a
  backend, so that a property can speak of every sequence of calls.
\<close>

datatype vfs_op =
    OpReadFile string
  | OpReadFileBytes string
  | OpWriteFile string bytes
  | OpAppendFile string bytes
  | OpUnlink string
  | OpMkdir string bool u32
  | OpRmdir string
  | OpReaddir string
  | OpStat string
  | OpLstat string
  | OpExists string
  | OpRename string string
  | OpCopyFile string string
  | OpTruncate string i64
  | OpUtimes string i64 i64
  | OpAccess string u32

fun be_effect :: "'w vfs_backend \<Rightarrow> vfs_op \<Rightarrow> 'w \<Rightarrow> 'w" where
  "be_effect B (OpReadFile p) w = snd (be_readFile B p w)"
| "be_effect B (OpReadFileBytes p) w = snd (be_readFileBytes B p w)"
| "be_effect B (OpWriteFile p d) w = snd (be_writeFile B p d w)"
| "be_effect B (OpAppendFile p d) w = snd (be_appendFile B p d w)"
| "be_effect B (OpUnlink p) w = snd (be_unlink B p w)"
| "be_effect B (OpMkdir p r m) w = snd (be_mkdir B p r m w)"
| "be_effect B (OpRmdir p) w = snd (be_rmdir B p w)"
| "be_effect B (OpReaddir p) w = snd (be_readdir B p w)"
| "be_effect B (OpStat p) w = snd (be_stat B p w)"
| "be_effect B (OpLstat p) w = snd (be_lstat B p w)"
| "be_effect B (OpExists p) w = snd (be_exists B p w)"
| "be_effect B (OpRename p q) w = snd (be_rename B p q w)"
| "be_effect B (OpCopyFile p q) w = snd (be_copyFile B p q w)"
| "be_effect B (OpTruncate p n) w = snd (be_truncate B p n w)"
| "be_effect B (OpUtimes p a m) w = snd (be_utimes B p a m w)"
| "be_effect B (OpAccess p m) w = snd (be_access B p m w)"

fun be_run :: "'w vfs_backend \<Rightarrow> vfs_op list \<Rightarrow> 'w \<Rightarrow> 'w" where
  "be_run B [] w = w"
| "be_run B (x # xs) w = be_run B xs (be_effect B x w)"

text \<open>The calls that only read.\<close>

fun is_query :: "vfs_op \<Rightarrow> bool" where
  "is_query (OpReadFile _) = True"
| "is_query (OpReadFileBytes _) = True"
| "is_query (OpReaddir _) = True"
| "is_query (OpStat _) = True"
| "is_query (OpLstat _) = True"
| "is_query (OpExists _) = True"
| "is_query (OpAccess _ _) = True"
| "is_query _ = False"

section \<open>The interface between the router and its backends\<close>

text \<open>
  What the router may rely on: \<open>view i w\<close> is what backend \<open>i\<close> stores in world \<open>w\<close>. A query
  changes the store of no backend; a mutating call on one backend leaves the others alone.
\<close>

locale backend_family =
  fixes be :: "nat \<Rightarrow> 'w vfs_backend"
    and view :: "nat \<Rightarrow> 'w \<Rightarrow> 'v"
  assumes query_keeps: "is_query x \<Longrightarrow> view j (be_effect (be i) x w) = view j w"
    and other_keeps: "j \<noteq> i \<Longrightarrow> view j (be_effect (be i) x w) = view j w"
begin

lemma keeps [effect_simps]:
  "is_query x \<or> j \<noteq> i \<Longrightarrow> view j (be_effect (be i) x w) = view j w"
  using query_keeps other_keeps by blast

lemma readFile_keeps [simp]: "view j (snd (be_readFile (be i) p w)) = view j w"
  using query_keeps [of "OpReadFile p" j i w] by simp

lemma readFileBytes_keeps [simp]: "view j (snd (be_readFileBytes (be i) p w)) = view j w"
  using query_keeps [of "OpReadFileBytes p" j i w] by simp

lemma readdir_keeps [simp]: "view j (snd (be_readdir (be i) p w)) = view j w"
  using query_keeps [of "OpReaddir p" j i w] by simp

lemma stat_keeps [simp]: "view j (snd (be_stat (be i) p w)) = view j w"
  using query_keeps [of "OpStat p" j i w] by simp

lemma lstat_keeps [simp]: "view j (snd (be_lstat (be i) p w)) = view j w"
  using query_keeps [of "OpLstat p" j i w] by simp

lemma exists_keeps [simp]: "view j (snd (be_exists (be i) p w)) = view j w"
  using query_keeps [of "OpExists p" j i w] by simp

lemma access_keeps [simp]: "view j (snd (be_access (be i) p m w)) = view j w"
  using query_keeps [of "OpAccess p m" j i w] by simp

lemma writeFile_other: "j \<noteq> i \<Longrightarrow> view j (snd (be_writeFile (be i) p d w)) = view j w"
  using other_keeps [of j i "OpWriteFile p d" w] by simp

lemma run_other: "j \<noteq> i \<Longrightarrow> view j (be_run (be i) xs w) = view j w"
  by (induction xs arbitrary: w) (simp_all add: other_keeps)

end

section \<open>A store of backend objects\<close>

text \<open>
  Objects of one class, each with its own state: the world maps a pointer to the object's
  state and a call on pointer \<open>i\<close> runs the method on that state.
\<close>

definition at_object :: "nat \<Rightarrow> ('s \<Rightarrow> 'r \<times> 's) \<Rightarrow> (nat \<Rightarrow> 's) \<Rightarrow> 'r \<times> (nat \<Rightarrow> 's)" where
  "at_object i f w = (let (r, s) = f (w i) in (r, w(i := s)))"

definition object_family :: "'s vfs_backend \<Rightarrow> nat \<Rightarrow> (nat \<Rightarrow> 's) vfs_backend" where
  "object_family B i = \<lparr>
     be_readFile = (\<lambda>p. at_object i (be_readFile B p)),
     be_readFileBytes = (\<lambda>p. at_object i (be_readFileBytes B p)),
     be_writeFile = (\<lambda>p d. at_object i (be_writeFile B p d)),
     be_appendFile = (\<lambda>p d. at_object i (be_appendFile B p d)),
     be_unlink = (\<lambda>p. at_object i (be_unlink B p)),
     be_mkdir = (\<lambda>p r m. at_object i (be_mkdir B p r m)),
     be_rmdir = (\<lambda>p. at_object i (be_rmdir B p)),
     be_readdir = (\<lambda>p. at_object i (be_readdir B p)),
     be_stat = (\<lambda>p. at_object i (be_stat B p)),
     be_lstat = (\<lambda>p. at_object i (be_lstat B p)),
     be_exists = (\<lambda>p. at_object i (be_exists B p)),
     be_rename = (\<lambda>p q. at_object i (be_rename B p q)),
     be_copyFile = (\<lambda>p q. at_object i (be_copyFile B p q)),
     be_truncate = (\<lambda>p n. at_object i (be_truncate B p n)),
     be_utimes = (\<lambda>p a m. at_object i (be_utimes B p a m)),
     be_access = (\<lambda>p m. at_object i (be_access B p m)) \<rparr>"

lemma snd_at_object [simp]: "snd (at_object i f w) = w(i := snd (f (w i)))"
  by (simp add: at_object_def Let_def split_beta)

lemma fst_at_object [simp]: "fst (at_object i f w) = fst (f (w i))"
  by (simp add: at_object_def Let_def split_beta)

lemma object_family_effect:
  "be_effect (object_family B i) x w = w(i := be_effect B x (w i))"
  by (cases x) (simp_all add: object_family_def)

end
