(* ===== verification/MemFS.thy ===== *)
theory MemFS
  imports MemTree VfsBackend
begin

text \<open>
  The in-memory backend \<open>MemFSBackend\<close> of \<^verbatim>\<open>sandboxed-fs/src/vfs_mem.cpp\<close>: its path splitter,
  its tree walks and its sixteen operations, on the tree of \<^verbatim>\<open>MemTree\<close>.

  The clock is part of the state: \<open>m_time\<close> gives the values that the coming calls of
  \<open>std::time(nullptr)\<close> return. Memory exhaustion is not modelled.
\<close>

unbundle bit_operations_syntax

section \<open>State\<close>

record memfs =
  m_root :: node
  m_nextIno :: u64
  m_time :: "nat \<Rightarrow> u64"

definition nowMs :: "memfs \<Rightarrow> u64 \<times> memfs" where
  "nowMs m = (m_time m 0 * 1000, m\<lparr>m_time := (\<lambda>i. m_time m (Suc i))\<rparr>)"

text \<open>\<open>m_nextIno++\<close>\<close>

definition nextIno :: "memfs \<Rightarrow> u64 \<times> memfs" where
  "nextIno m = (m_nextIno m, m\<lparr>m_nextIno := m_nextIno m + 1\<rparr>)"

text \<open>The \<open>Stat\<close> of a node made at time \<open>now\<close>: the mode tells a file from a directory.\<close>

definition new_stat :: "u64 \<Rightarrow> u32 \<Rightarrow> u64 \<Rightarrow> stat" where
  "new_stat ino mode now = stat_init\<lparr>st_dev := 0, st_ino := ino, st_mode := mode, st_nlink := 1,
     st_uid := 1000, st_gid := 1000, st_atimeMs := now, st_mtimeMs := now, st_ctimeMs := now\<rparr>"

definition file_mode :: u32 where "file_mode = 0x81A4"   \<comment> \<open>octal 0100644\<close>
definition root_mode :: u32 where "root_mode = 0x41FF"   \<comment> \<open>octal 040777\<close>
definition dir_mode :: "u32 \<Rightarrow> u32" where "dir_mode mode = 0x4000 OR (mode AND 0x1FF)"

definition MemFSBackend_ctor :: "(nat \<Rightarrow> u64) \<Rightarrow> memfs" where
  "MemFSBackend_ctor time =
     (let (now, m) = nowMs \<lparr>m_root = Node stat_init [] [], m_nextIno = 2, m_time = time\<rparr>
      in m\<lparr>m_root := Node (new_stat 1 root_mode now) [] []\<rparr>)"

section \<open>splitPath\<close>

definition emit_seg :: "string \<Rightarrow> string list" where
  "emit_seg seg = (if seg \<noteq> [] \<and> seg \<noteq> ''.'' then [seg] else [])"

text \<open>The loop over the characters; \<open>seg\<close> is \<open>sv[start..i)\<close>.\<close>

fun split_loop :: "string \<Rightarrow> string \<Rightarrow> string list" where
  "split_loop seg [] = emit_seg seg"
| "split_loop seg (c # cs) =
     (if c = slash \<or> c = backslash then emit_seg seg @ split_loop [] cs
      else split_loop (seg @ [c]) cs)"

definition splitPath :: "string \<Rightarrow> string list" where
  "splitPath path =
     (if path = [] \<or> path = ''/'' then []
      else
        let sv = (if hd path = slash \<or> hd path = backslash then tl path else path)
        in split_loop [] sv)"

section \<open>walkTo and parentDir\<close>

text \<open>
  \<open>node\<close> and \<open>parent\<close> are pointers (\<open>None\<close> is \<open>nullptr\<close>), that is paths from the root;
  \<open>walk_loop\<close> is the loop over the parts, with the parts already walked as the pointer.
\<close>

record walk_result =
  wr_node :: "string list"
  wr_parent :: "string list option"
  wr_name :: string

fun walk_loop :: "node \<Rightarrow> walk_result \<Rightarrow> string list \<Rightarrow> walk_result expected" where
  "walk_loop n w [] = Inr w"
| "walk_loop n w (part # parts) =
     (case map_find (n_children n) part of
        None \<Rightarrow> Inl ENOENT
      | Some c \<Rightarrow>
          walk_loop c \<lparr>wr_node = wr_node w @ [part], wr_parent = Some (wr_node w), wr_name = part\<rparr> parts)"

definition walkTo :: "memfs \<Rightarrow> string \<Rightarrow> walk_result expected" where
  "walkTo m path =
     walk_loop (m_root m) \<lparr>wr_node = [], wr_parent = None, wr_name = ''''\<rparr> (splitPath path)"

text \<open>The node behind a pointer that the walk has produced.\<close>

definition deref :: "memfs \<Rightarrow> string list \<Rightarrow> node" where
  "deref m ptr = (case walk (m_root m) ptr of Some n \<Rightarrow> n | None \<Rightarrow> Node stat_init [] [])"

definition parentDir :: "memfs \<Rightarrow> string \<Rightarrow> string list expected" where
  "parentDir m path =
     (let parts = splitPath path
      in if parts = [] then Inr []
         else
           let parts = butlast parts
           in if parts = [] then Inr []
              else
                (case walk (m_root m) parts of
                   None \<Rightarrow> Inl ENOENT
                 | Some n \<Rightarrow> if \<not> isDir (n_stat n) then Inl ENOTDIR else Inr parts))"

section \<open>Operations\<close>

definition mem_readFileBytes :: "string \<Rightarrow> memfs \<Rightarrow> bytes expected \<times> memfs" where
  "mem_readFileBytes path m =
     (case walkTo m path of
        Inl e \<Rightarrow> (Inl e, m)
      | Inr w \<Rightarrow>
          if isDir (n_stat (deref m (wr_node w))) then (Inl EISDIR, m)
          else (Inr (n_data (deref m (wr_node w))), m))"

definition mem_readFile :: "string \<Rightarrow> memfs \<Rightarrow> string expected \<times> memfs" where
  "mem_readFile path m =
     (case walkTo m path of
        Inl e \<Rightarrow> (Inl e, m)
      | Inr w \<Rightarrow>
          if isDir (n_stat (deref m (wr_node w))) then (Inl EISDIR, m)
          else (Inr (string_of_bytes (n_data (deref m (wr_node w)))), m))"

text \<open>The assignments at the end of \<open>writeFile\<close> and \<open>appendFile\<close>, through the map iterator.\<close>

definition store_data :: "bytes \<Rightarrow> u64 \<Rightarrow> node \<Rightarrow> node" where
  "store_data data now n =
     Node ((n_stat n)\<lparr>st_size := of_nat (length data), st_mtimeMs := now\<rparr>) data (n_children n)"

definition mem_writeFile :: "string \<Rightarrow> bytes \<Rightarrow> memfs \<Rightarrow> unit expected \<times> memfs" where
  "mem_writeFile path data m =
     (let parts = splitPath path
      in if parts = [] then (Inl EISDIR, m)
         else
           let fileName = last parts
           in (case parentDir m path of
                 Inl e \<Rightarrow> (Inl e, m)
               | Inr p \<Rightarrow>
                   let (now, m) = nowMs m
                   in (case map_find (n_children (deref m p)) fileName of
                         Some n \<Rightarrow>
                           if isDir (n_stat n) then (Inl EISDIR, m)
                           else (Inr (), m\<lparr>m_root :=
                             modify (p @ [fileName]) (store_data data now) (m_root m)\<rparr>)
                       | None \<Rightarrow>
                           let (ino, m) = nextIno m;
                               node = Node (new_stat ino file_mode now) [] [];
                               m = m\<lparr>m_root := modify p (put_child fileName node) (m_root m)\<rparr>
                           in (Inr (), m\<lparr>m_root :=
                                modify (p @ [fileName]) (store_data data now) (m_root m)\<rparr>))))"

definition mem_appendFile :: "string \<Rightarrow> bytes \<Rightarrow> memfs \<Rightarrow> unit expected \<times> memfs" where
  "mem_appendFile path data m =
     (let parts = splitPath path
      in if parts = [] then (Inl EISDIR, m)
         else
           let fileName = last parts
           in (case parentDir m path of
                 Inl e \<Rightarrow> (Inl e, m)
               | Inr p \<Rightarrow>
                   let (now, m) = nowMs m
                   in (case map_find (n_children (deref m p)) fileName of
                         None \<Rightarrow> mem_writeFile path data m
                       | Some n \<Rightarrow>
                           if isDir (n_stat n) then (Inl EISDIR, m)
                           else (Inr (), m\<lparr>m_root :=
                             modify (p @ [fileName]) (store_data (n_data n @ data) now) (m_root m)\<rparr>))))"

definition mem_unlink :: "string \<Rightarrow> memfs \<Rightarrow> unit expected \<times> memfs" where
  "mem_unlink path m =
     (let parts = splitPath path
      in if parts = [] then (Inl EACCES, m)
         else
           let fileName = last parts
           in (case parentDir m path of
                 Inl e \<Rightarrow> (Inl e, m)
               | Inr p \<Rightarrow>
                   (case map_find (n_children (deref m p)) fileName of
                      None \<Rightarrow> (Inl ENOENT, m)
                    | Some n \<Rightarrow>
                        if isDir (n_stat n) \<and> n_children n \<noteq> [] then (Inl ENOTEMPTY, m)
                        else (Inr (), m\<lparr>m_root := modify p (erase_child fileName) (m_root m)\<rparr>))))"

text \<open>
  The loop of the recursive \<open>mkdir\<close>: the children it makes stay when it stops with an error,
  and the last directory of the path gets the mode even when it was there before. The clock
  and the inode counter are threaded through; their \<open>m_root\<close> is not used here.
\<close>

fun mkdir_loop :: "u32 \<Rightarrow> string list \<Rightarrow> node \<Rightarrow> memfs \<Rightarrow> unit expected \<times> node \<times> memfs" where
  "mkdir_loop mode [] current m =
     (Inr (), set_stat (\<lambda>s. s\<lparr>st_mode := dir_mode mode\<rparr>) current, m)"
| "mkdir_loop mode (part # parts) current m =
     (case map_find (n_children current) part of
        None \<Rightarrow>
          let (ino, m) = nextIno m;
              (now, m) = nowMs m;
              child = Node (new_stat ino (dir_mode mode) now) [] [];
              (r, child, m) = mkdir_loop mode parts child m
          in (r, put_child part child current, m)
      | Some child \<Rightarrow>
          if \<not> isDir (n_stat child) then (Inl ENOTDIR, current, m)
          else
            let (r, child, m) = mkdir_loop mode parts child m
            in (r, put_child part child current, m))"

definition mem_mkdir :: "string \<Rightarrow> bool \<Rightarrow> u32 \<Rightarrow> memfs \<Rightarrow> unit expected \<times> memfs" where
  "mem_mkdir path recursive mode m =
     (let parts = splitPath path
      in if parts = [] then (Inr (), m)
         else if recursive then
           let (r, root, m') = mkdir_loop mode parts (m_root m) m
           in (r, m'\<lparr>m_root := root\<rparr>)
         else
           let fileName = last parts
           in (case parentDir m path of
                 Inl e \<Rightarrow> (Inl e, m)
               | Inr p \<Rightarrow>
                   if map_find (n_children (deref m p)) fileName \<noteq> None then (Inl EEXIST, m)
                   else
                     let (now, m) = nowMs m;
                         (ino, m) = nextIno m;
                         node = Node (new_stat ino (dir_mode mode) now) [] []
                     in (Inr (), m\<lparr>m_root := modify p (put_child fileName node) (m_root m)\<rparr>)))"

definition mem_rmdir :: "string \<Rightarrow> memfs \<Rightarrow> unit expected \<times> memfs" where
  "mem_rmdir path m =
     (case walkTo m path of
        Inl e \<Rightarrow> (Inl e, m)
      | Inr w \<Rightarrow>
          if \<not> isDir (n_stat (deref m (wr_node w))) then (Inl ENOTDIR, m)
          else if n_children (deref m (wr_node w)) \<noteq> [] then (Inl ENOTEMPTY, m)
          else mem_unlink path m)"

definition mem_readdir :: "string \<Rightarrow> memfs \<Rightarrow> string list expected \<times> memfs" where
  "mem_readdir path m =
     (case walkTo m path of
        Inl e \<Rightarrow> (Inl e, m)
      | Inr w \<Rightarrow>
          if \<not> isDir (n_stat (deref m (wr_node w))) then (Inl ENOTDIR, m)
          else (Inr (map_keys (n_children (deref m (wr_node w)))), m))"

definition mem_stat :: "string \<Rightarrow> memfs \<Rightarrow> stat expected \<times> memfs" where
  "mem_stat path m =
     (case walkTo m path of
        Inl e \<Rightarrow> (Inl e, m)
      | Inr w \<Rightarrow> (Inr (n_stat (deref m (wr_node w))), m))"

definition mem_lstat :: "string \<Rightarrow> memfs \<Rightarrow> stat expected \<times> memfs" where
  "mem_lstat path m = mem_stat path m"

definition mem_exists :: "string \<Rightarrow> memfs \<Rightarrow> bool \<times> memfs" where
  "mem_exists path m = ((case walkTo m path of Inl _ \<Rightarrow> False | Inr _ \<Rightarrow> True), m)"

text \<open>
  The test against a rename below itself, on the two strings as given. Linking the moved node
  goes through the pointer of the new parent; when that pointer lies inside the moved subtree,
  which the erase has just cut off, the assignment makes a cycle that nothing of the tree
  reaches any more.
\<close>

definition below_itself :: "string \<Rightarrow> string \<Rightarrow> bool" where
  "below_itself oldPath newPath \<longleftrightarrow>
     length newPath > length oldPath \<and> newPath ! length oldPath = slash \<and>
     take (length oldPath) newPath = oldPath"

definition mem_rename :: "string \<Rightarrow> string \<Rightarrow> memfs \<Rightarrow> unit expected \<times> memfs" where
  "mem_rename oldPath newPath m =
     (if oldPath = newPath then (Inr (), m)
      else
        let oldParts = splitPath oldPath
        in if oldParts = [] then (Inl EACCES, m)
           else
             let oldName = last oldParts
             in (case parentDir m oldPath of
                   Inl e \<Rightarrow> (Inl e, m)
                 | Inr oldP \<Rightarrow>
                     (case map_find (n_children (deref m oldP)) oldName of
                        None \<Rightarrow> (Inl ENOENT, m)
                      | Some node \<Rightarrow>
                          if isDir (n_stat node) \<and> below_itself oldPath newPath then (Inl EINVAL, m)
                          else
                            let newParts = splitPath newPath
                            in if newParts = [] then (Inl EACCES, m)
                               else
                                 let newName = last newParts
                                 in (case parentDir m newPath of
                                       Inl e \<Rightarrow> (Inl e, m)
                                     | Inr newP \<Rightarrow>
                                         if (case map_find (n_children (deref m newP)) newName of
                                               None \<Rightarrow> False
                                             | Some dst \<Rightarrow> isDir (n_stat dst) \<and> n_children dst \<noteq> [])
                                         then (Inl ENOTEMPTY, m)
                                         else
                                           let root = modify oldP (erase_child oldName) (m_root m)
                                           in (Inr (), m\<lparr>m_root :=
                                                modify newP (put_child newName node) root\<rparr>)))))"

definition mem_copyFile :: "string \<Rightarrow> string \<Rightarrow> memfs \<Rightarrow> unit expected \<times> memfs" where
  "mem_copyFile src dst m =
     (case walkTo m src of
        Inl e \<Rightarrow> (Inl e, m)
      | Inr w \<Rightarrow>
          if isDir (n_stat (deref m (wr_node w))) then (Inl EISDIR, m)
          else
            let parts = splitPath dst
            in if parts = [] then (Inl EISDIR, m)
               else
                 let fileName = last parts
                 in (case parentDir m dst of
                       Inl e \<Rightarrow> (Inl e, m)
                     | Inr p \<Rightarrow>
                         if (case map_find (n_children (deref m p)) fileName of
                               None \<Rightarrow> False
                             | Some d \<Rightarrow> isDir (n_stat d))
                         then (Inl EISDIR, m)
                         else
                           let s = deref m (wr_node w);
                               (ino, m) = nextIno m;
                               clone = Node ((n_stat s)\<lparr>st_ino := ino\<rparr>) (n_data s) []
                           in (Inr (), m\<lparr>m_root := modify p (put_child fileName clone) (m_root m)\<rparr>)))"

text \<open>
  \<open>vector::resize\<close> cuts the data or fills it with zero bytes. The comparison is signed; the new
  size is not negative at this point.
\<close>

definition resize :: "nat \<Rightarrow> bytes \<Rightarrow> bytes" where
  "resize n d = take n d @ replicate (n - length d) 0"

definition mem_truncate :: "string \<Rightarrow> i64 \<Rightarrow> memfs \<Rightarrow> unit expected \<times> memfs" where
  "mem_truncate path sz m =
     (if sint sz < 0 then (Inl EINVAL, m)
      else
        (case walkTo m path of
           Inl e \<Rightarrow> (Inl e, m)
         | Inr w \<Rightarrow>
             if isDir (n_stat (deref m (wr_node w))) then (Inl EISDIR, m)
             else
               let (now, m) = nowMs m
               in (Inr (), m\<lparr>m_root := modify (wr_node w)
                    (\<lambda>n. Node ((n_stat n)\<lparr>st_size := sz, st_mtimeMs := now, st_ctimeMs := now\<rparr>)
                           (resize (unat sz) (n_data n)) (n_children n)) (m_root m)\<rparr>)))"

definition mem_utimes :: "string \<Rightarrow> i64 \<Rightarrow> i64 \<Rightarrow> memfs \<Rightarrow> unit expected \<times> memfs" where
  "mem_utimes path atimeMs mtimeMs m =
     (case walkTo m path of
        Inl e \<Rightarrow> (Inl e, m)
      | Inr w \<Rightarrow>
          let (now, m) = nowMs m
          in (Inr (), m\<lparr>m_root := modify (wr_node w)
               (set_stat (\<lambda>s. s\<lparr>st_atimeMs := atimeMs, st_mtimeMs := mtimeMs, st_ctimeMs := now\<rparr>))
               (m_root m)\<rparr>))"

definition mem_access :: "string \<Rightarrow> u32 \<Rightarrow> memfs \<Rightarrow> errno option \<times> memfs" where
  "mem_access path mode m =
     (case walkTo m path of
        Inl e \<Rightarrow> (Some e, m)
      | Inr w \<Rightarrow>
          if mode = kExist then (None, m)
          else
            let stMode = st_mode (n_stat (deref m (wr_node w)))
            in if mode AND kRead \<noteq> 0 \<and> stMode AND 0x100 = 0 then (Some EACCES, m)
               else if mode AND kWrite \<noteq> 0 \<and> stMode AND 0x80 = 0 then (Some EACCES, m)
               else if mode AND kExec \<noteq> 0 \<and> stMode AND 0x40 = 0 then (Some EACCES, m)
               else (None, m))"

definition MemFSBackend :: "memfs vfs_backend" where
  "MemFSBackend = \<lparr>
     be_readFile = mem_readFile,
     be_readFileBytes = mem_readFileBytes,
     be_writeFile = mem_writeFile,
     be_appendFile = mem_appendFile,
     be_unlink = mem_unlink,
     be_mkdir = mem_mkdir,
     be_rmdir = mem_rmdir,
     be_readdir = mem_readdir,
     be_stat = mem_stat,
     be_lstat = mem_lstat,
     be_exists = mem_exists,
     be_rename = mem_rename,
     be_copyFile = mem_copyFile,
     be_truncate = mem_truncate,
     be_utimes = mem_utimes,
     be_access = mem_access \<rparr>"

end
