(* ===== verification/MemSpec.thy ===== *)
theory MemSpec
  imports MemFS
begin

text \<open>
  What \<open>MemFSBackend\<close> promises, as operations on a flat map from paths to \<open>Stat\<close> and content,
  and the proof that every operation on the tree implements its abstract counterpart under the
  abstraction \<open>abs_of\<close>. The invariant \<open>mem_inv\<close> says that the tree is well formed and rooted
  in a directory; every operation keeps it.
\<close>

section \<open>Names and walks\<close>

lemma split_loop_filter:
  "slash \<notin> set seg \<Longrightarrow> backslash \<notin> set seg \<Longrightarrow>
     split_loop seg s = filter (\<lambda>t. t \<noteq> [] \<and> t \<noteq> ''.'') (getlines (seg @ unify s))"
proof (induction seg s rule: split_loop.induct)
  case (1 seg)
  then show ?case by (cases "seg = []") (simp_all add: emit_seg_def getlines_single)
next
  case (2 seg c cs)
  show ?case
  proof (cases "c = slash \<or> c = backslash")
    case True
    then have "unify (c # cs) = slash # unify cs" by (auto simp: unify_def)
    with 2 True show ?thesis by (simp add: getlines_split emit_seg_def)
  next
    case False
    then have "unify (c # cs) = c # unify cs" by (simp add: unify_def)
    with 2 False show ?thesis by auto
  qed
qed

lemma splitPath_filter:
  "splitPath path = filter (\<lambda>t. t \<noteq> [] \<and> t \<noteq> ''.'') (getlines (unify path))"
proof (cases "path = [] \<or> path = ''/''")
  case True
  then show ?thesis by (auto simp: splitPath_def unify_def)
next
  case False
  then obtain c cs where path: "path = c # cs" by (cases path) auto
  show ?thesis
  proof (cases "c = slash \<or> c = backslash")
    case True
    then have "unify path = slash # unify cs" by (auto simp: path unify_def)
    with False True show ?thesis by (simp add: splitPath_def path split_loop_filter)
  next
    case F: False
    then have "splitPath path = split_loop [] path" using False by (simp add: splitPath_def path)
    then show ?thesis by (simp add: split_loop_filter)
  qed
qed

lemma splitPath_name_ok: "s \<in> set (splitPath path) \<Longrightarrow> name_ok s"
  using getlines_token [of s "unify path"] backslash_unify [of path]
  by (auto simp: splitPath_filter name_ok_def)

lemma getlines_flat: "list_all seg_ok segs \<Longrightarrow>
    filter (\<lambda>t. t \<noteq> [] \<and> t \<noteq> ''.'') (getlines (flat segs)) = segs"
proof (induction segs)
  case (Cons s ss)
  then have s: "s \<noteq> []" "s \<noteq> ''.''" "slash \<notin> set s" by (auto simp: seg_ok_def)
  show ?case
  proof (cases ss)
    case Nil
    with s show ?thesis by (simp add: getlines_single)
  next
    case (Cons t ts)
    with Cons.IH Cons.prems s show ?thesis by (simp add: getlines_split)
  qed
qed simp

text \<open>On the paths that the router hands on, the splitter reads the components.\<close>

lemma splitPath_canonical: "canonical_path p \<Longrightarrow> splitPath p = comps p"
proof -
  assume "canonical_path p"
  then obtain segs where segs: "list_all seg_ok segs" and p: "p = render segs"
    by (auto simp: canonical_path_def)
  then have "unify (flat segs) = flat segs" by (simp add: seg_ok_no_backslash unify_id)
  with segs show ?thesis
    by (cases "segs = []") (simp_all add: p splitPath_filter render_def comps_flat getlines_flat
        unify_def [of "''/''"])
qed

lemma walk_loop_walk:
  "walk_loop n \<lparr>wr_node = ps, wr_parent = q, wr_name = k\<rparr> parts =
     (case walk n parts of
        None \<Rightarrow> Inl ENOENT
      | Some _ \<Rightarrow> Inr (if parts = [] then \<lparr>wr_node = ps, wr_parent = q, wr_name = k\<rparr>
          else \<lparr>wr_node = ps @ parts, wr_parent = Some (ps @ butlast parts), wr_name = last parts\<rparr>))"
  by (induction parts arbitrary: n ps q k) (auto split: option.splits)

lemma walkTo_walk:
  "walkTo m path =
     (case walk (m_root m) (splitPath path) of
        None \<Rightarrow> Inl ENOENT
      | Some _ \<Rightarrow> Inr (if splitPath path = [] then \<lparr>wr_node = [], wr_parent = None, wr_name = ''''\<rparr>
          else \<lparr>wr_node = splitPath path, wr_parent = Some (butlast (splitPath path)),
                wr_name = last (splitPath path)\<rparr>))"
  by (auto simp: walkTo_def walk_loop_walk split: option.split)

lemma walkTo_None: "walk (m_root m) (splitPath path) = None \<Longrightarrow> walkTo m path = Inl ENOENT"
  by (simp add: walkTo_walk)

lemma walkTo_Some:
  "walk (m_root m) (splitPath path) = Some n \<Longrightarrow>
     \<exists>w. walkTo m path = Inr w \<and> wr_node w = splitPath path"
  by (simp add: walkTo_walk)

lemma deref_walk: "walk (m_root m) p = Some n \<Longrightarrow> deref m p = n"
  by (simp add: deref_def)

section \<open>The invariant\<close>

definition mem_inv :: "memfs \<Rightarrow> bool" where
  "mem_inv m \<longleftrightarrow> wf_node (m_root m) \<and> isDir (n_stat (m_root m))"

section \<open>The abstract file system\<close>

type_synonym flat_fs = "string list \<Rightarrow> (stat \<times> bytes) option"

record absfs =
  a_fs :: flat_fs
  a_ino :: u64
  a_time :: "nat \<Rightarrow> u64"

definition abs_of :: "memfs \<Rightarrow> absfs" where
  "abs_of m = \<lparr>a_fs = view (m_root m), a_ino = m_nextIno m, a_time = m_time m\<rparr>"

definition a_now :: "absfs \<Rightarrow> u64" where
  "a_now a = a_time a 0 * 1000"

definition a_tick :: "absfs \<Rightarrow> absfs" where
  "a_tick a = a\<lparr>a_time := (\<lambda>i. a_time a (Suc i))\<rparr>"

definition a_alloc :: "absfs \<Rightarrow> absfs" where
  "a_alloc a = a\<lparr>a_ino := a_ino a + 1\<rparr>"

definition a_set :: "(flat_fs \<Rightarrow> flat_fs) \<Rightarrow> absfs \<Rightarrow> absfs" where
  "a_set f a = a\<lparr>a_fs := f (a_fs a)\<rparr>"

text \<open>The error of looking for the directory that holds a path, if any.\<close>

definition a_parent :: "flat_fs \<Rightarrow> string list \<Rightarrow> errno option" where
  "a_parent fs parts =
     (case fs (butlast parts) of
        None \<Rightarrow> Some ENOENT
      | Some (st, _) \<Rightarrow> if isDir st then None else Some ENOTDIR)"

definition a_childless :: "flat_fs \<Rightarrow> string list \<Rightarrow> bool" where
  "a_childless fs parts \<longleftrightarrow> (\<forall>k. fs (parts @ [k]) = None)"

definition a_write :: "string list \<Rightarrow> bytes \<Rightarrow> absfs \<Rightarrow> unit expected \<times> absfs" where
  "a_write parts data a =
     (if parts = [] then (Inl EISDIR, a)
      else case a_parent (a_fs a) parts of
        Some e \<Rightarrow> (Inl e, a)
      | None \<Rightarrow>
         (let put = (\<lambda>st. a_set (\<lambda>fs. fs(parts \<mapsto>
                (st\<lparr>st_size := of_nat (length data), st_mtimeMs := a_now a\<rparr>, data))))
          in case a_fs a parts of
               Some (st, _) \<Rightarrow> if isDir st then (Inl EISDIR, a_tick a) else (Inr (), put st (a_tick a))
             | None \<Rightarrow> (Inr (), put (new_stat (a_ino a) file_mode (a_now a)) (a_alloc (a_tick a)))))"

definition a_append :: "string list \<Rightarrow> bytes \<Rightarrow> absfs \<Rightarrow> unit expected \<times> absfs" where
  "a_append parts data a =
     (if parts = [] then (Inl EISDIR, a)
      else case a_parent (a_fs a) parts of
        Some e \<Rightarrow> (Inl e, a)
      | None \<Rightarrow>
          (case a_fs a parts of
             None \<Rightarrow> a_write parts data (a_tick a)
           | Some (st, d) \<Rightarrow>
               if isDir st then (Inl EISDIR, a_tick a)
               else (Inr (), a_set (\<lambda>fs. fs(parts \<mapsto>
                      (st\<lparr>st_size := of_nat (length (d @ data)), st_mtimeMs := a_now a\<rparr>, d @ data)))
                      (a_tick a))))"

definition a_cut :: "string list \<Rightarrow> flat_fs \<Rightarrow> flat_fs" where
  "a_cut parts fs = (\<lambda>qs. if prefix parts qs then None else fs qs)"

definition a_unlink :: "string list \<Rightarrow> absfs \<Rightarrow> unit expected \<times> absfs" where
  "a_unlink parts a =
     (if parts = [] then (Inl EACCES, a)
      else case a_parent (a_fs a) parts of
        Some e \<Rightarrow> (Inl e, a)
      | None \<Rightarrow>
          (case a_fs a parts of
             None \<Rightarrow> (Inl ENOENT, a)
           | Some (st, _) \<Rightarrow>
               if isDir st \<and> \<not> a_childless (a_fs a) parts then (Inl ENOTEMPTY, a)
               else (Inr (), a_set (\<lambda>fs. fs(parts := None)) a)))"

definition a_rmdir :: "string list \<Rightarrow> absfs \<Rightarrow> unit expected \<times> absfs" where
  "a_rmdir parts a =
     (case a_fs a parts of
        None \<Rightarrow> (Inl ENOENT, a)
      | Some (st, _) \<Rightarrow>
          if \<not> isDir st then (Inl ENOTDIR, a)
          else if \<not> a_childless (a_fs a) parts then (Inl ENOTEMPTY, a)
          else if parts = [] then (Inl EACCES, a)
          else (Inr (), a_set (\<lambda>fs. fs(parts := None)) a))"

definition a_mkdir :: "string list \<Rightarrow> u32 \<Rightarrow> absfs \<Rightarrow> unit expected \<times> absfs" where
  "a_mkdir parts mode a =
     (if parts = [] then (Inr (), a)
      else case a_parent (a_fs a) parts of
        Some e \<Rightarrow> (Inl e, a)
      | None \<Rightarrow>
          if a_fs a parts \<noteq> None then (Inl EEXIST, a)
          else (Inr (), a_set (\<lambda>fs. fs(parts \<mapsto> (new_stat (a_ino a) (dir_mode mode) (a_now a), [])))
                 (a_alloc (a_tick a))))"

text \<open>The whole subtree at \<open>old\<close> appears at \<open>new\<close>, what was there and at \<open>old\<close> is gone.\<close>

definition a_move :: "string list \<Rightarrow> string list \<Rightarrow> flat_fs \<Rightarrow> flat_fs" where
  "a_move old new fs = (\<lambda>qs.
     if prefix new qs then fs (old @ drop (length new) qs)
     else if prefix old qs then None else fs qs)"

definition a_copy :: "string list \<Rightarrow> string list \<Rightarrow> absfs \<Rightarrow> unit expected \<times> absfs" where
  "a_copy src dst a =
     (case a_fs a src of
        None \<Rightarrow> (Inl ENOENT, a)
      | Some (st, d) \<Rightarrow>
          if isDir st then (Inl EISDIR, a)
          else if dst = [] then (Inl EISDIR, a)
          else case a_parent (a_fs a) dst of
            Some e \<Rightarrow> (Inl e, a)
          | None \<Rightarrow>
              if (case a_fs a dst of None \<Rightarrow> False | Some (st', _) \<Rightarrow> isDir st') then (Inl EISDIR, a)
              else (Inr (), a_set (\<lambda>fs. fs(dst \<mapsto> (st\<lparr>st_ino := a_ino a\<rparr>, d))) (a_alloc a)))"

definition a_truncate :: "string list \<Rightarrow> i64 \<Rightarrow> absfs \<Rightarrow> unit expected \<times> absfs" where
  "a_truncate parts sz a =
     (if sint sz < 0 then (Inl EINVAL, a)
      else case a_fs a parts of
        None \<Rightarrow> (Inl ENOENT, a)
      | Some (st, d) \<Rightarrow>
          if isDir st then (Inl EISDIR, a)
          else (Inr (), a_set (\<lambda>fs. fs(parts \<mapsto>
                 (st\<lparr>st_size := sz, st_mtimeMs := a_now a, st_ctimeMs := a_now a\<rparr>, resize (unat sz) d)))
                 (a_tick a)))"

definition a_utimes :: "string list \<Rightarrow> i64 \<Rightarrow> i64 \<Rightarrow> absfs \<Rightarrow> unit expected \<times> absfs" where
  "a_utimes parts atime mtime a =
     (case a_fs a parts of
        None \<Rightarrow> (Inl ENOENT, a)
      | Some (st, d) \<Rightarrow>
          (Inr (), a_set (\<lambda>fs. fs(parts \<mapsto>
             (st\<lparr>st_atimeMs := atime, st_mtimeMs := mtime, st_ctimeMs := a_now a\<rparr>, d))) (a_tick a)))"

definition a_read :: "string list \<Rightarrow> absfs \<Rightarrow> bytes expected" where
  "a_read parts a =
     (case a_fs a parts of
        None \<Rightarrow> Inl ENOENT
      | Some (st, d) \<Rightarrow> if isDir st then Inl EISDIR else Inr d)"

definition a_readdir :: "string list \<Rightarrow> absfs \<Rightarrow> string list expected" where
  "a_readdir parts a =
     (case a_fs a parts of
        None \<Rightarrow> Inl ENOENT
      | Some (st, _) \<Rightarrow>
          if \<not> isDir st then Inl ENOTDIR
          else Inr (sorted_list_of_set {k. a_fs a (parts @ [k]) \<noteq> None}))"

lemmas abs_defs = a_now_def a_tick_def a_alloc_def a_set_def

section \<open>The abstraction function and the state helpers\<close>

lemma a_fs_abs_of [simp]: "a_fs (abs_of m) = view (m_root m)"
  by (simp add: abs_of_def)

lemma a_ino_abs_of [simp]: "a_ino (abs_of m) = m_nextIno m"
  by (simp add: abs_of_def)

lemma nowMs_abs: "nowMs m = (a_now (abs_of m), m\<lparr>m_time := (\<lambda>i. m_time m (Suc i))\<rparr>)"
  by (simp add: nowMs_def a_now_def abs_of_def)

lemma abs_of_tick: "abs_of (m\<lparr>m_time := (\<lambda>i. m_time m (Suc i))\<rparr>) = a_tick (abs_of m)"
  by (simp add: abs_of_def a_tick_def)

lemma abs_of_alloc: "abs_of (m\<lparr>m_nextIno := m_nextIno m + 1\<rparr>) = a_alloc (abs_of m)"
  by (simp add: abs_of_def a_alloc_def)

lemma abs_of_root:
  "view r = f (view (m_root m)) \<Longrightarrow> abs_of (m\<lparr>m_root := r\<rparr>) = a_set f (abs_of m)"
  by (simp add: abs_of_def a_set_def)

lemma view_None_iff: "view r ps = None \<longleftrightarrow> walk r ps = None"
  by (simp add: view_def)

lemma view_Some: "walk r ps = Some n \<Longrightarrow> view r ps = Some (n_stat n, n_data n)"
  by (simp add: view_def)

lemma view_None: "walk r ps = None \<Longrightarrow> view r ps = None"
  by (simp add: view_def)

lemma walk_parent:
  assumes "parts \<noteq> []" and "walk r (butlast parts) = Some n"
  shows "walk r parts = map_find (n_children n) (last parts)"
  using walk_snoc [of r "butlast parts" "last parts"] assms by simp

lemma parentDir_eq:
  assumes "mem_inv m" and "splitPath path \<noteq> []"
  shows "parentDir m path =
    (case a_parent (view (m_root m)) (splitPath path) of
       Some e \<Rightarrow> Inl e
     | None \<Rightarrow> Inr (butlast (splitPath path)))"
  using assms
  by (auto simp: parentDir_def a_parent_def Let_def view_def mem_inv_def split: option.split)

lemma a_parent_None:
  "a_parent (view r) parts = None \<Longrightarrow>
     \<exists>n. walk r (butlast parts) = Some n \<and> isDir (n_stat n)"
  by (auto simp: a_parent_def view_def split: option.splits if_splits)

lemma childless_iff: "walk r ps = Some n \<Longrightarrow> a_childless (view r) ps \<longleftrightarrow> n_children n = []"
proof -
  assume "walk r ps = Some n"
  then have "a_childless (view r) ps \<longleftrightarrow> (\<forall>k. map_find (n_children n) k = None)"
    by (simp add: a_childless_def view_None_iff walk_snoc)
  also have "\<dots> \<longleftrightarrow> n_children n = []"
    by (cases "n_children n") (auto simp: map_find_None_iff)
  finally show ?thesis .
qed

section \<open>Effects of the tree operations on the map\<close>

text \<open>Assigning to the fields of one node, and linking a node without children.\<close>

lemma view_assign_at:
  assumes "walk r ps = Some n" and "\<And>x. n_children (f x) = n_children x"
  shows "view (modify ps f r) = (view r)(ps \<mapsto> (n_stat (f n), n_data (f n)))"
  using assms by (intro view_assign) auto

lemma view_put_leaf:
  assumes "parts \<noteq> []" and "walk r (butlast parts) = Some n"
    and "case walk r parts of None \<Rightarrow> True | Some c \<Rightarrow> n_children c = []"
  shows "view (modify (butlast parts) (put_child (last parts) (Node st d [])) r) =
    (view r)(parts \<mapsto> (st, d))"
proof
  fix qs
  have parts: "butlast parts @ [last parts] = parts" using assms(1) by simp
  have len: "Suc (length parts - Suc 0) = length parts" using assms(1) by (cases parts) simp_all
  show "view (modify (butlast parts) (put_child (last parts) (Node st d [])) r) qs =
    ((view r)(parts \<mapsto> (st, d))) qs"
  proof (cases "prefix parts qs")
    case True
    then obtain t where t: "qs = parts @ t" by (auto elim: prefixE)
    have "view r (parts @ t) = None" if "t \<noteq> []"
      using that assms(3)
      by (cases "walk r parts"; cases t) (auto simp: view_None_iff walk_append)
    then show ?thesis
      using True t view_put_child [OF assms(2), of "last parts" "Node st d []" qs]
      by (cases t) (simp_all add: parts len)
  next
    case False
    then show ?thesis
      using view_put_child [OF assms(2), of "last parts" "Node st d []" qs] by (auto simp: parts)
  qed
qed

lemma view_erase_leaf:
  assumes "parts \<noteq> []" and "walk r (butlast parts) = Some n" and "map_sorted (n_children n)"
    and "walk r parts = Some c" and "n_children c = []"
  shows "view (modify (butlast parts) (erase_child (last parts)) r) = (view r)(parts := None)"
proof
  fix qs
  have parts: "butlast parts @ [last parts] = parts" using assms(1) by simp
  show "view (modify (butlast parts) (erase_child (last parts)) r) qs = ((view r)(parts := None)) qs"
  proof (cases "prefix parts qs")
    case True
    then obtain t where t: "qs = parts @ t" by (auto elim: prefixE)
    have "view r (parts @ t) = None" if "t \<noteq> []"
      using that assms(4,5) by (cases t) (auto simp: view_None_iff walk_append)
    then show ?thesis
      using True t view_erase_child [OF assms(2,3), of "last parts" qs]
      by (cases t) (auto simp: parts)
  next
    case False
    then show ?thesis
      using view_erase_child [OF assms(2,3), of "last parts" qs] by (auto simp: parts)
  qed
qed

section \<open>Every operation refines its abstract counterpart\<close>

lemma parent_cases:
  assumes "mem_inv m" and "splitPath path \<noteq> []"
  obtains (error) e where "a_parent (view (m_root m)) (splitPath path) = Some e"
      and "parentDir m path = Inl e"
    | (dir) n where "a_parent (view (m_root m)) (splitPath path) = None"
      and "parentDir m path = Inr (butlast (splitPath path))"
      and "walk (m_root m) (butlast (splitPath path)) = Some n"
      and "deref m (butlast (splitPath path)) = n" and "isDir (n_stat n)" and "wf_node n"
      and "map_find (n_children n) (last (splitPath path)) = walk (m_root m) (splitPath path)"
proof (cases "a_parent (view (m_root m)) (splitPath path)")
  case None
  then obtain n where n: "walk (m_root m) (butlast (splitPath path)) = Some n" "isDir (n_stat n)"
    by (auto dest: a_parent_None)
  moreover have "parentDir m path = Inr (butlast (splitPath path))"
    using parentDir_eq [OF assms] None by simp
  moreover have "wf_node n" using assms(1) n wf_walk by (auto simp: mem_inv_def)
  ultimately show ?thesis
    using that(2) None assms(2) by (simp add: deref_walk walk_parent [OF assms(2) n(1), symmetric])
next
  case (Some e)
  then show ?thesis using that(1) parentDir_eq [OF assms] by simp
qed

lemmas run_defs = abs_of_def abs_defs nowMs_def nextIno_def Let_def

lemma view_store:
  "walk r parts = Some k \<Longrightarrow> view (modify parts (store_data data now) r) =
     (view r)(parts \<mapsto> ((n_stat k)\<lparr>st_size := of_nat (length data), st_mtimeMs := now\<rparr>, data))"
  by (simp add: view_assign_at store_data_def)

text \<open>A new file is linked empty and filled in a second assignment.\<close>

lemma view_new_file:
  assumes "parts \<noteq> []" and "walk r (butlast parts) = Some n" and "walk r parts = None"
  shows "view (modify parts (store_data data now)
      (modify (butlast parts) (put_child (last parts) (Node st [] [])) r)) =
    (view r)(parts \<mapsto> (st\<lparr>st_size := of_nat (length data), st_mtimeMs := now\<rparr>, data))"
proof -
  let ?r = "modify (butlast parts) (put_child (last parts) (Node st [] [])) r"
  have "butlast parts @ [last parts] = parts" using assms(1) by simp
  then have "walk ?r parts = Some (Node st [] [])"
    using walk_modify_below [OF assms(2), of "put_child (last parts) (Node st [] [])" "[last parts]"]
    by simp
  moreover have "view ?r = (view r)(parts \<mapsto> (st, []))"
    using assms by (intro view_put_leaf) auto
  ultimately show ?thesis by (simp add: view_store)
qed

lemma mem_write_refines:
  assumes "mem_inv m"
  shows "map_prod id abs_of (mem_writeFile path data m) = a_write (splitPath path) data (abs_of m)"
proof (cases "splitPath path = []")
  case True
  then show ?thesis by (simp add: mem_writeFile_def a_write_def)
next
  case ne: False
  then have b: "butlast (splitPath path) @ [last (splitPath path)] = splitPath path" by simp
  from assms ne show ?thesis
  proof (cases rule: parent_cases)
    case (error e)
    with ne show ?thesis by (simp add: mem_writeFile_def a_write_def)
  next
    case (dir n)
    show ?thesis
    proof (cases "walk (m_root m) (splitPath path)")
      case (Some k)
      with dir ne b show ?thesis
        by (simp add: mem_writeFile_def a_write_def run_defs deref_def view_Some view_store)
    next
      case None
      with dir ne b show ?thesis
        by (simp add: mem_writeFile_def a_write_def run_defs deref_def view_None view_new_file)
    qed
  qed
qed

lemma mem_inv_time [simp]: "mem_inv (m\<lparr>m_time := t\<rparr>) = mem_inv m"
  and mem_inv_ino [simp]: "mem_inv (m\<lparr>m_nextIno := i\<rparr>) = mem_inv m"
  by (simp_all add: mem_inv_def)

lemma mem_append_refines:
  assumes "mem_inv m"
  shows "map_prod id abs_of (mem_appendFile path data m) = a_append (splitPath path) data (abs_of m)"
proof (cases "splitPath path = []")
  case True
  then show ?thesis by (simp add: mem_appendFile_def a_append_def)
next
  case ne: False
  then have b: "butlast (splitPath path) @ [last (splitPath path)] = splitPath path" by simp
  from assms ne show ?thesis
  proof (cases rule: parent_cases)
    case (error e)
    with ne show ?thesis by (simp add: mem_appendFile_def a_append_def)
  next
    case (dir n)
    show ?thesis
    proof (cases "walk (m_root m) (splitPath path)")
      case (Some k)
      with dir ne b show ?thesis
        by (simp add: mem_appendFile_def a_append_def run_defs deref_def view_Some view_store)
    next
      case None
      let ?m = "m\<lparr>m_time := (\<lambda>i. m_time m (Suc i))\<rparr>"
      have "mem_inv ?m" using assms by simp
      from mem_write_refines [OF this, of path data] dir ne None show ?thesis
        by (simp add: mem_appendFile_def a_append_def nowMs_def Let_def deref_def view_None
            abs_of_tick)
    qed
  qed
qed

lemma mem_unlink_refines:
  assumes "mem_inv m"
  shows "map_prod id abs_of (mem_unlink path m) = a_unlink (splitPath path) (abs_of m)"
proof (cases "splitPath path = []")
  case True
  then show ?thesis by (simp add: mem_unlink_def a_unlink_def)
next
  case ne: False
  from assms ne show ?thesis
  proof (cases rule: parent_cases)
    case (error e)
    with ne show ?thesis by (simp add: mem_unlink_def a_unlink_def)
  next
    case (dir n)
    show ?thesis
    proof (cases "walk (m_root m) (splitPath path)")
      case (Some k)
      have "wf_node k" using assms Some wf_walk by (auto simp: mem_inv_def)
      then have nc: "\<not> isDir (n_stat k) \<Longrightarrow> n_children k = []" by (rule wf_file_no_children)
      have "isDir (n_stat k) \<and> n_children k \<noteq> [] \<or> n_children k = []" using nc by blast
      then show ?thesis
      proof
        assume "isDir (n_stat k) \<and> n_children k \<noteq> []"
        with dir ne Some show ?thesis
          by (simp add: mem_unlink_def a_unlink_def deref_def view_Some childless_iff)
      next
        assume "n_children k = []"
        with dir ne Some show ?thesis
          by (simp add: mem_unlink_def a_unlink_def run_defs deref_def view_Some childless_iff
              view_erase_leaf wf_sorted)
      qed
    next
      case None
      with dir ne show ?thesis
        by (simp add: mem_unlink_def a_unlink_def deref_def view_None)
    qed
  qed
qed

end
