(* ===== verification/MemRefine.thy ===== *)
theory MemRefine
  imports MemSpec
begin

text \<open>
  The refinement of \<^verbatim>\<open>MemSpec\<close> for the remaining operations of \<open>MemFSBackend\<close>: \<open>rmdir\<close>,
  \<open>mkdir\<close> (plain and recursive), \<open>copyFile\<close>, \<open>rename\<close>, \<open>truncate\<close>, \<open>utimes\<close> and the queries.
\<close>

section \<open>Walks and the queries\<close>

lemma walkTo_cases:
  assumes "mem_inv m"
  obtains (none) "walkTo m path = Inl ENOENT" and "walk (m_root m) (splitPath path) = None"
      and "view (m_root m) (splitPath path) = None"
    | (node) w n where "walkTo m path = Inr w" and "wr_node w = splitPath path"
      and "walk (m_root m) (splitPath path) = Some n" and "deref m (splitPath path) = n"
      and "view (m_root m) (splitPath path) = Some (n_stat n, n_data n)" and "wf_node n"
proof (cases "walk (m_root m) (splitPath path)")
  case None
  from that(1) [OF walkTo_None [OF None] None view_None [OF None]] show ?thesis .
next
  case (Some n)
  have wf: "wf_node n" using assms wf_walk [OF _ Some] by (simp add: mem_inv_def)
  obtain w where w: "walkTo m path = Inr w" "wr_node w = splitPath path"
    using walkTo_Some [OF Some] by blast
  from that(2) [OF w Some deref_walk [OF Some] view_Some [OF Some] wf] show ?thesis .
qed

lemma view_kids: "walk r ps = Some n \<Longrightarrow> view r (ps @ [k]) \<noteq> None \<longleftrightarrow> map_find (n_children n) k \<noteq> None"
  by (simp add: view_None_iff walk_snoc)

lemma keys_kids:
  assumes "walk r ps = Some n" and "wf_node n"
  shows "map_keys (n_children n) = sorted_list_of_set {k. view r (ps @ [k]) \<noteq> None}"
proof (rule strict_sorted_equal)
  have s: "map_sorted (n_children n)" using assms(2) by (rule wf_sorted)
  have eq: "{k. view r (ps @ [k]) \<noteq> None} = set (map_keys (n_children n))"
    by (simp only: view_kids [OF assms(1)] children.keys_find [OF s, symmetric] Collect_mem_eq)
  show "sorted_wrt (<) (map_keys (n_children n))" using s by (rule children.keys_sorted)
  show "sorted_wrt (<) (sorted_list_of_set {k. view r (ps @ [k]) \<noteq> None})" by simp
  show "set (map_keys (n_children n)) = set (sorted_list_of_set {k. view r (ps @ [k]) \<noteq> None})"
    by (simp only: eq set_sorted_list_of_set [OF finite_set])
qed

text \<open>\<open>stat\<close>, \<open>access\<close> and \<open>exists\<close> on the map.\<close>

definition a_stat :: "string list \<Rightarrow> absfs \<Rightarrow> stat expected" where
  "a_stat parts a = (case a_fs a parts of None \<Rightarrow> Inl ENOENT | Some (st, _) \<Rightarrow> Inr st)"

text \<open>The owner bits of the mode must cover every requested right.\<close>

definition a_access :: "string list \<Rightarrow> u32 \<Rightarrow> absfs \<Rightarrow> errno option" where
  "a_access parts mode a =
     (case a_fs a parts of
        None \<Rightarrow> Some ENOENT
      | Some (st, _) \<Rightarrow>
          if (bit mode 2 \<longrightarrow> bit (st_mode st) 8) \<and> (bit mode 1 \<longrightarrow> bit (st_mode st) 7) \<and>
             (bit mode 0 \<longrightarrow> bit (st_mode st) 6)
          then None else Some EACCES)"

lemma and_access:
  "(x :: u32) AND 4 = 0 \<longleftrightarrow> \<not> bit x 2" "(x :: u32) AND 2 = 0 \<longleftrightarrow> \<not> bit x 1"
  "(x :: u32) AND 1 = 0 \<longleftrightarrow> \<not> bit x 0" "(x :: u32) AND 0x100 = 0 \<longleftrightarrow> \<not> bit x 8"
  "(x :: u32) AND 0x80 = 0 \<longleftrightarrow> \<not> bit x 7" "(x :: u32) AND 0x40 = 0 \<longleftrightarrow> \<not> bit x 6"
  using and_exp_eq_0_iff_not_bit [of x 2] and_exp_eq_0_iff_not_bit [of x 1]
    and_exp_eq_0_iff_not_bit [of x 0] and_exp_eq_0_iff_not_bit [of x 8]
    and_exp_eq_0_iff_not_bit [of x 7] and_exp_eq_0_iff_not_bit [of x 6] by simp_all

lemma mem_readFileBytes_refines:
  assumes "mem_inv m"
  shows "mem_readFileBytes path m = (a_read (splitPath path) (abs_of m), m)"
  using assms by (cases rule: walkTo_cases [where path = path]) (auto simp: mem_readFileBytes_def a_read_def)

lemma mem_readFile_refines:
  assumes "mem_inv m"
  shows "mem_readFile path m =
    (case a_read (splitPath path) (abs_of m) of Inl e \<Rightarrow> Inl e | Inr d \<Rightarrow> Inr (string_of_bytes d), m)"
  using assms by (cases rule: walkTo_cases [where path = path]) (auto simp: mem_readFile_def a_read_def)

lemma mem_readdir_refines:
  assumes "mem_inv m"
  shows "mem_readdir path m = (a_readdir (splitPath path) (abs_of m), m)"
  using assms
proof (cases rule: walkTo_cases [where path = path])
  case (node w n)
  then show ?thesis by (simp add: mem_readdir_def a_readdir_def keys_kids)
qed (simp add: mem_readdir_def a_readdir_def)

lemma mem_stat_refines:
  assumes "mem_inv m"
  shows "mem_stat path m = (a_stat (splitPath path) (abs_of m), m)"
  using assms by (cases rule: walkTo_cases [where path = path]) (auto simp: mem_stat_def a_stat_def)

lemma mem_exists_refines:
  assumes "mem_inv m"
  shows "mem_exists path m = (a_fs (abs_of m) (splitPath path) \<noteq> None, m)"
  using assms by (cases rule: walkTo_cases [where path = path]) (auto simp: mem_exists_def)

lemma mem_access_refines:
  assumes "mem_inv m"
  shows "mem_access path mode m = (a_access (splitPath path) mode (abs_of m), m)"
  using assms
  by (cases rule: walkTo_cases [where path = path])
    (simp_all add: mem_access_def a_access_def Let_def access_mode_defs and_access)

section \<open>rmdir, truncate, utimes\<close>

lemma walk_parent_dir:
  assumes "wf_node r" and "walk r parts = Some k" and "parts \<noteq> []"
  shows "\<exists>n. walk r (butlast parts) = Some n \<and> isDir (n_stat n) \<and>
    map_find (n_children n) (last parts) = Some k"
proof -
  obtain n where n: "walk r (butlast parts) = Some n"
    using walk_prefix_defined [of r "butlast parts" "[last parts]"] assms(2,3) by auto
  moreover from this have "map_find (n_children n) (last parts) = Some k"
    using assms(2) walk_parent [OF assms(3)] by simp
  moreover from this have "isDir (n_stat n)"
    using wf_file_no_children [OF wf_walk [OF assms(1) n]] by fastforce
  ultimately show ?thesis by blast
qed

lemma parent_of_existing:
  "wf_node r \<Longrightarrow> walk r parts = Some k \<Longrightarrow> parts \<noteq> [] \<Longrightarrow> a_parent (view r) parts = None"
  using walk_parent_dir by (fastforce simp: a_parent_def view_def)

lemma mem_rmdir_refines:
  assumes "mem_inv m"
  shows "map_prod id abs_of (mem_rmdir path m) = a_rmdir (splitPath path) (abs_of m)"
  using assms
proof (cases rule: walkTo_cases [where path = path])
  case (node w n)
  show ?thesis
  proof (cases "isDir (n_stat n) \<and> n_children n = []")
    case True
    have "splitPath path \<noteq> [] \<Longrightarrow> a_parent (view (m_root m)) (splitPath path) = None"
      using parent_of_existing node(3) assms by (auto simp: mem_inv_def)
    with True node show ?thesis
      by (simp add: mem_rmdir_def mem_unlink_refines [OF assms] a_unlink_def a_rmdir_def
          childless_iff)
  next
    case False
    with node show ?thesis by (auto simp: mem_rmdir_def a_rmdir_def childless_iff)
  qed
qed (simp add: mem_rmdir_def a_rmdir_def)

lemma mem_truncate_refines:
  assumes "mem_inv m"
  shows "map_prod id abs_of (mem_truncate path sz m) = a_truncate (splitPath path) sz (abs_of m)"
  using assms
proof (cases rule: walkTo_cases [where path = path])
  case (node w n)
  then show ?thesis
    by (simp add: mem_truncate_def a_truncate_def run_defs view_assign_at)
qed (simp add: mem_truncate_def a_truncate_def)

lemma mem_utimes_refines:
  assumes "mem_inv m"
  shows "map_prod id abs_of (mem_utimes path at mt m) = a_utimes (splitPath path) at mt (abs_of m)"
  using assms
proof (cases rule: walkTo_cases [where path = path])
  case (node w n)
  then show ?thesis
    by (simp add: mem_utimes_def a_utimes_def run_defs view_assign_at)
qed (simp add: mem_utimes_def a_utimes_def)

section \<open>copyFile\<close>

lemma mem_copyFile_refines:
  assumes "mem_inv m"
  shows "map_prod id abs_of (mem_copyFile src dst m) =
    a_copy (splitPath src) (splitPath dst) (abs_of m)"
  using assms
proof (cases rule: walkTo_cases [where path = src])
  case (node w n)
  show ?thesis
  proof (cases "isDir (n_stat n) \<or> splitPath dst = []")
    case True
    with node show ?thesis by (auto simp: mem_copyFile_def a_copy_def)
  next
    case False
    then have ne: "splitPath dst \<noteq> []" by simp
    from assms ne show ?thesis
    proof (cases rule: parent_cases)
      case (error e)
      with False node show ?thesis by (simp add: mem_copyFile_def a_copy_def)
    next
      case (dir d)
      show ?thesis
      proof (cases "walk (m_root m) (splitPath dst)")
        case (Some k)
        have "wf_node k" using assms Some wf_walk by (auto simp: mem_inv_def)
        then have nc: "\<not> isDir (n_stat k) \<Longrightarrow> n_children k = []" by (rule wf_file_no_children)
        from False node dir Some nc show ?thesis
          by (simp add: mem_copyFile_def a_copy_def run_defs view_put_leaf view_Some)
      next
        case None
        with False node dir show ?thesis
          by (simp add: mem_copyFile_def a_copy_def run_defs view_put_leaf view_None)
      qed
    qed
  qed
qed (simp add: mem_copyFile_def a_copy_def)

end
