(* ===== verification/MemMkdir.thy ===== *)
theory MemMkdir
  imports MemRefine
begin

text \<open>
  \<open>mkdir\<close> of \<open>MemFSBackend\<close>, plain and recursive, against the flat map: which directories the
  recursive form makes, with which inode numbers and times, and that it changes nothing when
  a file is in the way.
\<close>

section \<open>The recursive form on the map\<close>

definition a_is_file :: "flat_fs \<Rightarrow> string list \<Rightarrow> bool" where
  "a_is_file fs q = (case fs q of None \<Rightarrow> False | Some (st, _) \<Rightarrow> \<not> isDir st)"

definition a_blocked :: "flat_fs \<Rightarrow> string list \<Rightarrow> bool" where
  "a_blocked fs parts \<longleftrightarrow> (\<exists>q\<in>set (prefixes parts). a_is_file fs q)"

text \<open>How many directories of the path do not exist yet.\<close>

definition a_missing :: "flat_fs \<Rightarrow> string list \<Rightarrow> nat" where
  "a_missing fs parts = length (filter (\<lambda>q. fs q = None) (prefixes parts))"

text \<open>
  Every missing directory of the path is made with the next inode number and the next reading
  of the clock, from the top down; the last directory gets the mode in any case.
\<close>

definition a_chain :: "u32 \<Rightarrow> u64 \<Rightarrow> (nat \<Rightarrow> u64) \<Rightarrow> string list \<Rightarrow> flat_fs \<Rightarrow> flat_fs" where
  "a_chain mode ino time parts fs = (\<lambda>qs.
     if prefix qs parts \<and> fs qs = None
     then Some (new_stat (ino + of_nat (a_missing fs qs - 1)) (dir_mode mode)
                  (time (a_missing fs qs - 1) * 1000), [])
     else if qs = parts then map_option (\<lambda>(st, d). (st\<lparr>st_mode := dir_mode mode\<rparr>, d)) (fs qs)
     else fs qs)"

definition a_mkdirs :: "string list \<Rightarrow> u32 \<Rightarrow> absfs \<Rightarrow> unit expected \<times> absfs" where
  "a_mkdirs parts mode a =
     (if parts = [] then (Inr (), a)
      else if a_blocked (a_fs a) parts then (Inl ENOTDIR, a)
      else (Inr (), a\<lparr>a_fs := a_chain mode (a_ino a) (a_time a) parts (a_fs a),
              a_ino := a_ino a + of_nat (a_missing (a_fs a) parts),
              a_time := (\<lambda>i. a_time a (i + a_missing (a_fs a) parts))\<rparr>))"

section \<open>The loop\<close>

lemma dir_mode_isDir: "st_mode s = dir_mode mode \<Longrightarrow> isDir s"
proof -
  assume "st_mode s = dir_mode mode"
  moreover have "(0x4000 OR (mode AND 0x1FF)) AND 0xF000 = (0x4000 :: u32)"
    by (simp add: word_bw_assocs bit.conj_disj_distrib2 bit.conj_disj_distrib and.assoc)
  ultimately show ?thesis by (simp add: isDir_def dir_mode_def)
qed

lemma new_stat_simps [simp]: "st_mode (new_stat i md t) = md" "st_size (new_stat i md t) = 0"
  by (simp_all add: new_stat_def stat_init_def)

lemma missing_Nil [simp]: "a_missing (view n) [] = 0"
  by (simp add: a_missing_def)

lemma missing_Cons [simp]:
  "a_missing (view n) (p # ps) =
     (case map_find (n_children n) p of None \<Rightarrow> Suc (length ps) | Some c \<Rightarrow> a_missing (view c) ps)"
  by (auto simp: a_missing_def filter_map comp_def length_prefixes split: option.split)

lemma blocked_Nil [simp]: "isDir (n_stat n) \<Longrightarrow> \<not> a_blocked (view n) []"
  by (simp add: a_blocked_def a_is_file_def)

lemma blocked_Cons [simp]:
  "isDir (n_stat n) \<Longrightarrow> a_blocked (view n) (p # ps) =
     (case map_find (n_children n) p of None \<Rightarrow> False | Some c \<Rightarrow> a_blocked (view c) ps)"
  by (auto simp: a_blocked_def a_is_file_def split: option.split)

lemma blocked_file: "\<not> isDir (n_stat n) \<Longrightarrow> a_blocked (view n) ps"
  by (cases ps) (auto simp: a_blocked_def a_is_file_def)

lemma missing_leaf: "n_children n = [] \<Longrightarrow> a_missing (view n) ps = length ps"
  by (cases ps) simp_all

lemma blocked_leaf: "n_children n = [] \<Longrightarrow> isDir (n_stat n) \<Longrightarrow> \<not> a_blocked (view n) ps"
  by (cases ps) simp_all

lemma map_put_same: "map_find m k = Some v \<Longrightarrow> map_sorted m \<Longrightarrow> map_put k v m = m"
proof (induction m)
  case (Cons x m)
  then show ?case
    by (cases x) (auto simp: map_sorted_Cons dest!: map_find_SomeD split: if_splits)
qed simp

lemma put_child_same:
  "map_find (n_children n) k = Some c \<Longrightarrow> wf_node n \<Longrightarrow> put_child k c n = n"
  using map_put_same [of "n_children n" k c] wf_sorted [of n] by (simp add: put_child_def)

definition advanced :: "nat \<Rightarrow> memfs \<Rightarrow> memfs" where
  "advanced k m = m\<lparr>m_nextIno := m_nextIno m + of_nat k, m_time := (\<lambda>i. m_time m (i + k))\<rparr>"

lemma advanced_0 [simp]: "advanced 0 m = m"
  by (simp add: advanced_def)

lemma advanced_simps [simp]: "m_nextIno (advanced k m) = m_nextIno m + of_nat k"
  "m_time (advanced k m) = (\<lambda>i. m_time m (i + k))" "m_root (advanced k m) = m_root m"
  by (simp_all add: advanced_def)

lemma advanced_advanced: "advanced j (advanced k m) = advanced (k + j) m"
  by (simp add: advanced_def add.assoc add.commute [of k] algebra_simps)

lemma alloc_tick:
  "m\<lparr>m_nextIno := m_nextIno m + 1, m_time := (\<lambda>i. m_time m (Suc i))\<rparr> = advanced (Suc 0) m"
  by (simp add: advanced_def)

lemma chain_Nil:
  "view (set_stat (\<lambda>s. s\<lparr>st_mode := dir_mode mode\<rparr>) n) = a_chain mode ino time [] (view n)"
proof
  fix qs
  show "view (set_stat (\<lambda>s. s\<lparr>st_mode := dir_mode mode\<rparr>) n) qs = a_chain mode ino time [] (view n) qs"
    by (cases qs) (simp_all add: a_chain_def)
qed

lemma chain_Cons_old:
  assumes "map_find (n_children n) p = Some c" and "view c' = a_chain mode ino time ps (view c)"
  shows "view (put_child p c' n) = a_chain mode ino time (p # ps) (view n)"
proof
  fix qs
  show "view (put_child p c' n) qs = a_chain mode ino time (p # ps) (view n) qs"
    using assms by (cases qs) (auto simp: a_chain_def)
qed

lemma chain_Cons_new:
  assumes "map_find (n_children n) p = None"
    and "c = Node (new_stat ino (dir_mode mode) (time 0 * 1000)) [] []"
    and "view c' = a_chain mode (ino + 1) (\<lambda>i. time (Suc i)) ps (view c)"
  shows "view (put_child p c' n) = a_chain mode ino time (p # ps) (view n)"
proof
  fix qs
  have len: "of_nat (length xs) + 1 + ino = of_nat (length xs) + (ino + 1)" for xs :: "string list"
    by simp
  show "view (put_child p c' n) qs = a_chain mode ino time (p # ps) (view n) qs"
  proof (cases qs)
    case (Cons q qs')
    have leaf: "view c xs = None" if "xs \<noteq> []" for xs using that assms(2) by (cases xs) simp_all
    have same: "new_stat ino (dir_mode mode) (time 0 * 1000)\<lparr>st_mode := dir_mode mode\<rparr> =
      new_stat ino (dir_mode mode) (time 0 * 1000)" by (simp add: new_stat_def)
    show ?thesis
      using assms leaf by (cases qs') (auto simp: a_chain_def Cons missing_leaf same add.assoc)
  qed (simp add: a_chain_def)
qed

lemma mkdir_loop_spec:
  assumes "wf_node n" and "isDir (n_stat n)"
  shows "\<exists>n'. mkdir_loop mode parts n m =
      (if a_blocked (view n) parts then (Inl ENOTDIR, n, m)
       else (Inr (), n', advanced (a_missing (view n) parts) m)) \<and>
    (\<not> a_blocked (view n) parts \<longrightarrow>
       view n' = a_chain mode (m_nextIno m) (m_time m) parts (view n))"
  using assms
proof (induction parts arbitrary: n m)
  case Nil
  then show ?case by (simp add: chain_Nil)
next
  case (Cons p ps)
  show ?case
  proof (cases "map_find (n_children n) p")
    case None
    let ?c = "Node (new_stat (m_nextIno m) (dir_mode mode) (m_time m 0 * 1000)) [] []"
    have c: "wf_node ?c" "isDir (n_stat ?c)" by (simp_all add: node_ok_def map_keys_def dir_mode_isDir)
    from Cons.IH [OF c, of "advanced (Suc 0) m"] obtain c' where
      loop: "mkdir_loop mode ps ?c (advanced (Suc 0) m) = (Inr (), c', advanced (Suc (length ps)) m)" and
      v: "view c' = a_chain mode (m_nextIno m + 1) (\<lambda>i. m_time m (Suc i)) ps (view ?c)"
      using blocked_leaf [of ?c ps] c by (auto simp: missing_leaf advanced_advanced)
    from chain_Cons_new [where c = ?c, OF None refl v] loop None Cons.prems show ?thesis
      by (simp add: nextIno_def nowMs_def alloc_tick)
  next
    case (Some c)
    have wf: "wf_node c" using Cons.prems(1) Some by (rule wf_child)
    show ?thesis
    proof (cases "isDir (n_stat c)")
      case True
      from Cons.IH [OF wf True, of m] obtain c' where
        "mkdir_loop mode ps c m =
          (if a_blocked (view c) ps then (Inl ENOTDIR, c, m)
           else (Inr (), c', advanced (a_missing (view c) ps) m))"
        "\<not> a_blocked (view c) ps \<longrightarrow> view c' = a_chain mode (m_nextIno m) (m_time m) ps (view c)"
        by blast
      then show ?thesis using Some True Cons.prems
        by (cases "a_blocked (view c) ps") (auto simp: put_child_same chain_Cons_old)
    next
      case False
      then show ?thesis using Some Cons.prems by (simp add: blocked_file)
    qed
  qed
qed

section \<open>Refinement\<close>

lemma mem_mkdir_refines:
  assumes "mem_inv m"
  shows "map_prod id abs_of (mem_mkdir path False mode m) = a_mkdir (splitPath path) mode (abs_of m)"
proof (cases "splitPath path = []")
  case True
  then show ?thesis by (simp add: mem_mkdir_def a_mkdir_def)
next
  case ne: False
  from assms ne show ?thesis
  proof (cases rule: parent_cases)
    case (error e)
    with ne show ?thesis by (simp add: mem_mkdir_def a_mkdir_def)
  next
    case (dir n)
    show ?thesis
    proof (cases "walk (m_root m) (splitPath path)")
      case (Some k)
      with dir ne show ?thesis by (simp add: mem_mkdir_def a_mkdir_def view_Some)
    next
      case None
      with dir ne show ?thesis
        by (simp add: mem_mkdir_def a_mkdir_def run_defs view_None view_put_leaf)
    qed
  qed
qed

lemma mem_mkdirs_refines:
  assumes "mem_inv m"
  shows "map_prod id abs_of (mem_mkdir path True mode m) = a_mkdirs (splitPath path) mode (abs_of m)"
proof -
  have wf: "wf_node (m_root m)" "isDir (n_stat (m_root m))" using assms by (auto simp: mem_inv_def)
  obtain n' where
    "mkdir_loop mode (splitPath path) (m_root m) m =
      (if a_blocked (view (m_root m)) (splitPath path) then (Inl ENOTDIR, m_root m, m)
       else (Inr (), n', advanced (a_missing (view (m_root m)) (splitPath path)) m))"
    "\<not> a_blocked (view (m_root m)) (splitPath path) \<longrightarrow>
       view n' = a_chain mode (m_nextIno m) (m_time m) (splitPath path) (view (m_root m))"
    using mkdir_loop_spec [OF wf] by blast
  then show ?thesis
    by (auto simp: mem_mkdir_def a_mkdirs_def abs_of_def advanced_def Let_def)
qed

end
