(* ===== verification/VirtualFS.thy ===== *)
theory VirtualFS
  imports VfsBackend VfsPath
begin

text \<open>
  The mount router \<open>VirtualFS\<close> of \<^verbatim>\<open>sandboxed-fs/include/sandboxed-fs/vfs.hpp\<close> and
  \<^verbatim>\<open>sandboxed-fs/src/vfs.cpp\<close>: the mount table with its conflict check and
  ordering, longest-prefix resolution with the permission gate, and the sixteen methods that
  dispatch to the backend.
\<close>

section \<open>The mount table\<close>

record mount_entry =
  me_prefix :: string
  me_perm :: perm
  me_backend :: nat
  me_backendPath :: string

text \<open>The brace initialiser without the last field: \<open>backendPath\<close> defaults to \<open>"/"\<close>.\<close>

definition MountEntry :: "string \<Rightarrow> perm \<Rightarrow> nat \<Rightarrow> mount_entry" where
  "MountEntry p m b = \<lparr>me_prefix = p, me_perm = m, me_backend = b, me_backendPath = ''/''\<rparr>"

record virtual_fs =
  m_mounts :: "mount_entry list"

text \<open>
  The constructor and \<open>mount\<close> throw \<open>std::invalid_argument\<close>; its message names the two mounts.
\<close>

datatype vfs_exn = InvalidArgument mount_entry mount_entry

fun conflict_with :: "mount_entry \<Rightarrow> mount_entry list \<Rightarrow> vfs_exn option" where
  "conflict_with a [] = None"
| "conflict_with a (b # bs) =
     (if me_backend a = me_backend b \<and> me_perm a \<noteq> me_perm b
      then Some (InvalidArgument a b) else conflict_with a bs)"

fun checkBackendConflict :: "mount_entry list \<Rightarrow> vfs_exn option" where
  "checkBackendConflict [] = None"
| "checkBackendConflict (a # rest) =
     (case conflict_with a rest of
        Some e \<Rightarrow> Some e
      | None \<Rightarrow> checkBackendConflict rest)"

text \<open>
  \<open>std::sort\<close> by descending prefix size. The standard leaves the order of mounts with prefixes
  of one size open; this is the stable choice, and \<open>resolve_any_sort\<close> below shows that the
  choice does not matter as long as prefixes differ.
\<close>

definition sort_mounts :: "mount_entry list \<Rightarrow> mount_entry list" where
  "sort_mounts ms = sort_key (\<lambda>m. - int (length (me_prefix m))) ms"

definition VirtualFS_ctor :: "mount_entry list \<Rightarrow> vfs_exn + virtual_fs" where
  "VirtualFS_ctor mounts =
     (case checkBackendConflict mounts of
        Some e \<Rightarrow> Inl e
      | None \<Rightarrow> Inr \<lparr>m_mounts = sort_mounts mounts\<rparr>)"

definition VirtualFS_empty :: virtual_fs where
  "VirtualFS_empty = \<lparr>m_mounts = []\<rparr>"

text \<open>The scan of \<open>mount\<close>: here the entry of the table is named first.\<close>

fun mount_conflict :: "mount_entry list \<Rightarrow> mount_entry \<Rightarrow> vfs_exn option" where
  "mount_conflict [] e = None"
| "mount_conflict (m # ms) e =
     (if me_backend m = me_backend e \<and> me_perm m \<noteq> me_perm e
      then Some (InvalidArgument m e) else mount_conflict ms e)"

text \<open>
  \<open>std::lower_bound\<close> on the sorted table: the first position whose prefix is not longer than
  the new one.
\<close>

definition insert_mount :: "mount_entry \<Rightarrow> mount_entry list \<Rightarrow> mount_entry list" where
  "insert_mount e ms =
     (let longer = (\<lambda>m. length (me_prefix m) > length (me_prefix e))
      in takeWhile longer ms @ e # dropWhile longer ms)"

definition vfs_mount :: "virtual_fs \<Rightarrow> mount_entry \<Rightarrow> vfs_exn + virtual_fs" where
  "vfs_mount v e =
     (case mount_conflict (m_mounts v) e of
        Some x \<Rightarrow> Inl x
      | None \<Rightarrow> Inr (v\<lparr>m_mounts := insert_mount e (m_mounts v)\<rparr>))"

section \<open>resolve\<close>

record resolved =
  res_backend :: nat
  res_subPath :: string

fun resolve_loop :: "string \<Rightarrow> perm \<Rightarrow> mount_entry list \<Rightarrow> resolved expected" where
  "resolve_loop normPath needed [] = Inl EACCES"
| "resolve_loop normPath needed (m # ms) =
     (if me_prefix m = ''/'' then
        (if perm_and (me_perm m) needed \<noteq> needed then Inl EACCES
         else Inr \<lparr>res_backend = me_backend m, res_subPath = normPath\<rparr>)
      else if length normPath < length (me_prefix m) then resolve_loop normPath needed ms
      else if take (length (me_prefix m)) normPath \<noteq> me_prefix m
        then resolve_loop normPath needed ms
      else if length normPath \<noteq> length (me_prefix m) \<and> normPath ! length (me_prefix m) \<noteq> slash
        then resolve_loop normPath needed ms
      else if perm_and (me_perm m) needed \<noteq> needed then Inl EACCES
      else
        (let subPath =
           (if normPath = me_prefix m then me_backendPath m
            else
              (let s = drop (length (me_prefix m)) normPath
               in if length (me_backendPath m) > 1 then me_backendPath m @ s else s))
         in Inr \<lparr>res_backend = me_backend m, res_subPath = subPath\<rparr>))"

definition vfs_resolve :: "virtual_fs \<Rightarrow> string \<Rightarrow> perm \<Rightarrow> resolved expected" where
  "vfs_resolve v path needed = resolve_loop (normalize path) needed (m_mounts v)"

definition neededPermForAccess :: "u32 \<Rightarrow> perm" where
  "neededPermForAccess mode =
     (let p = perm_None;
          p = (if mode AND kRead \<noteq> 0 then perm_or p perm_Read else p);
          p = (if mode AND kWrite \<noteq> 0 then perm_or p perm_Write else p)
      in p)"

section \<open>The methods\<close>

type_synonym 'w backends = "nat \<Rightarrow> 'w vfs_backend"

definition VFS_DISPATCH_READ ::
  "'w backends \<Rightarrow> virtual_fs \<Rightarrow> string \<Rightarrow>
   ('w vfs_backend \<Rightarrow> string \<Rightarrow> 'w \<Rightarrow> 'a expected \<times> 'w) \<Rightarrow> 'w \<Rightarrow> 'a expected \<times> 'w" where
  "VFS_DISPATCH_READ be v path method w =
     (case vfs_resolve v path perm_Read of
        Inl e \<Rightarrow> (Inl e, w)
      | Inr r \<Rightarrow> method (be (res_backend r)) (res_subPath r) w)"

definition VFS_DISPATCH_WRITE ::
  "'w backends \<Rightarrow> virtual_fs \<Rightarrow> string \<Rightarrow>
   ('w vfs_backend \<Rightarrow> string \<Rightarrow> 'w \<Rightarrow> 'a expected \<times> 'w) \<Rightarrow> 'w \<Rightarrow> 'a expected \<times> 'w" where
  "VFS_DISPATCH_WRITE be v path method w =
     (case vfs_resolve v path perm_Write of
        Inl e \<Rightarrow> (Inl e, w)
      | Inr r \<Rightarrow> method (be (res_backend r)) (res_subPath r) w)"

definition vfs_readFile :: "'w backends \<Rightarrow> virtual_fs \<Rightarrow> string \<Rightarrow> 'w \<Rightarrow> string expected \<times> 'w" where
  "vfs_readFile be v path = VFS_DISPATCH_READ be v path be_readFile"

definition vfs_readFileBytes ::
  "'w backends \<Rightarrow> virtual_fs \<Rightarrow> string \<Rightarrow> 'w \<Rightarrow> bytes expected \<times> 'w" where
  "vfs_readFileBytes be v path = VFS_DISPATCH_READ be v path be_readFileBytes"

definition vfs_writeFile ::
  "'w backends \<Rightarrow> virtual_fs \<Rightarrow> string \<Rightarrow> bytes \<Rightarrow> 'w \<Rightarrow> unit expected \<times> 'w" where
  "vfs_writeFile be v path data =
     VFS_DISPATCH_WRITE be v path (\<lambda>B p. be_writeFile B p data)"

definition vfs_appendFile ::
  "'w backends \<Rightarrow> virtual_fs \<Rightarrow> string \<Rightarrow> bytes \<Rightarrow> 'w \<Rightarrow> unit expected \<times> 'w" where
  "vfs_appendFile be v path data =
     VFS_DISPATCH_WRITE be v path (\<lambda>B p. be_appendFile B p data)"

definition vfs_unlink :: "'w backends \<Rightarrow> virtual_fs \<Rightarrow> string \<Rightarrow> 'w \<Rightarrow> unit expected \<times> 'w" where
  "vfs_unlink be v path = VFS_DISPATCH_WRITE be v path be_unlink"

definition vfs_mkdir ::
  "'w backends \<Rightarrow> virtual_fs \<Rightarrow> string \<Rightarrow> bool \<Rightarrow> u32 \<Rightarrow> 'w \<Rightarrow> unit expected \<times> 'w" where
  "vfs_mkdir be v path recursive mode =
     VFS_DISPATCH_WRITE be v path (\<lambda>B p. be_mkdir B p recursive mode)"

definition vfs_rmdir :: "'w backends \<Rightarrow> virtual_fs \<Rightarrow> string \<Rightarrow> 'w \<Rightarrow> unit expected \<times> 'w" where
  "vfs_rmdir be v path = VFS_DISPATCH_WRITE be v path be_rmdir"

definition vfs_readdir ::
  "'w backends \<Rightarrow> virtual_fs \<Rightarrow> string \<Rightarrow> 'w \<Rightarrow> string list expected \<times> 'w" where
  "vfs_readdir be v path = VFS_DISPATCH_READ be v path be_readdir"

definition vfs_stat :: "'w backends \<Rightarrow> virtual_fs \<Rightarrow> string \<Rightarrow> 'w \<Rightarrow> stat expected \<times> 'w" where
  "vfs_stat be v path = VFS_DISPATCH_READ be v path be_stat"

definition vfs_lstat :: "'w backends \<Rightarrow> virtual_fs \<Rightarrow> string \<Rightarrow> 'w \<Rightarrow> stat expected \<times> 'w" where
  "vfs_lstat be v path = VFS_DISPATCH_READ be v path be_lstat"

definition vfs_truncate ::
  "'w backends \<Rightarrow> virtual_fs \<Rightarrow> string \<Rightarrow> i64 \<Rightarrow> 'w \<Rightarrow> unit expected \<times> 'w" where
  "vfs_truncate be v path sz = VFS_DISPATCH_WRITE be v path (\<lambda>B p. be_truncate B p sz)"

definition vfs_utimes ::
  "'w backends \<Rightarrow> virtual_fs \<Rightarrow> string \<Rightarrow> i64 \<Rightarrow> i64 \<Rightarrow> 'w \<Rightarrow> unit expected \<times> 'w" where
  "vfs_utimes be v path atimeMs mtimeMs =
     VFS_DISPATCH_WRITE be v path (\<lambda>B p. be_utimes B p atimeMs mtimeMs)"

definition vfs_exists :: "'w backends \<Rightarrow> virtual_fs \<Rightarrow> string \<Rightarrow> 'w \<Rightarrow> bool \<times> 'w" where
  "vfs_exists be v path w =
     (case vfs_resolve v path perm_Read of
        Inl e \<Rightarrow> (False, w)
      | Inr r \<Rightarrow> be_exists (be (res_backend r)) (res_subPath r) w)"

definition vfs_rename ::
  "'w backends \<Rightarrow> virtual_fs \<Rightarrow> string \<Rightarrow> string \<Rightarrow> 'w \<Rightarrow> unit expected \<times> 'w" where
  "vfs_rename be v oldPath newPath w =
     (case vfs_resolve v oldPath perm_Write of
        Inl e \<Rightarrow> (Inl e, w)
      | Inr oldR \<Rightarrow>
          (case vfs_resolve v newPath perm_Write of
             Inl e \<Rightarrow> (Inl e, w)
           | Inr newR \<Rightarrow>
               if res_backend oldR \<noteq> res_backend newR then (Inl EXDEV, w)
               else be_rename (be (res_backend oldR)) (res_subPath oldR) (res_subPath newR) w))"

definition vfs_copyFile ::
  "'w backends \<Rightarrow> virtual_fs \<Rightarrow> string \<Rightarrow> string \<Rightarrow> 'w \<Rightarrow> unit expected \<times> 'w" where
  "vfs_copyFile be v src dst w =
     (case vfs_resolve v src perm_Read of
        Inl e \<Rightarrow> (Inl e, w)
      | Inr srcR \<Rightarrow>
          (case vfs_resolve v dst perm_Write of
             Inl e \<Rightarrow> (Inl e, w)
           | Inr dstR \<Rightarrow>
               if res_backend srcR = res_backend dstR then
                 be_copyFile (be (res_backend srcR)) (res_subPath srcR) (res_subPath dstR) w
               else
                 (case be_readFileBytes (be (res_backend srcR)) (res_subPath srcR) w of
                    (Inl e, w') \<Rightarrow> (Inl e, w')
                  | (Inr data, w') \<Rightarrow>
                      be_writeFile (be (res_backend dstR)) (res_subPath dstR) data w')))"

definition vfs_access ::
  "'w backends \<Rightarrow> virtual_fs \<Rightarrow> string \<Rightarrow> u32 \<Rightarrow> 'w \<Rightarrow> errno option \<times> 'w" where
  "vfs_access be v path mode w =
     (case vfs_resolve v path (neededPermForAccess mode) of
        Inl e \<Rightarrow> (Some e, w)
      | Inr r \<Rightarrow> be_access (be (res_backend r)) (res_subPath r) mode w)"

text \<open>\<open>VirtualFS\<close> is itself a \<open>VFSBackend\<close>.\<close>

definition VirtualFS :: "'w backends \<Rightarrow> virtual_fs \<Rightarrow> 'w vfs_backend" where
  "VirtualFS be v = \<lparr>
     be_readFile = vfs_readFile be v,
     be_readFileBytes = vfs_readFileBytes be v,
     be_writeFile = vfs_writeFile be v,
     be_appendFile = vfs_appendFile be v,
     be_unlink = vfs_unlink be v,
     be_mkdir = vfs_mkdir be v,
     be_rmdir = vfs_rmdir be v,
     be_readdir = vfs_readdir be v,
     be_stat = vfs_stat be v,
     be_lstat = vfs_lstat be v,
     be_exists = vfs_exists be v,
     be_rename = vfs_rename be v,
     be_copyFile = vfs_copyFile be v,
     be_truncate = vfs_truncate be v,
     be_utimes = vfs_utimes be v,
     be_access = vfs_access be v \<rparr>"

section \<open>Resolution as a search for the first matching mount\<close>

definition mount_matches :: "mount_entry \<Rightarrow> string \<Rightarrow> bool" where
  "mount_matches m np \<longleftrightarrow>
     me_prefix m = ''/'' \<or> (\<exists>rest. np = me_prefix m @ rest \<and> (rest = [] \<or> hd rest = slash))"

definition sub_path :: "mount_entry \<Rightarrow> string \<Rightarrow> string" where
  "sub_path m np =
     (if me_prefix m = ''/'' then np
      else if np = me_prefix m then me_backendPath m
      else if length (me_backendPath m) > 1
        then me_backendPath m @ drop (length (me_prefix m)) np
      else drop (length (me_prefix m)) np)"

lemma boundary_test:
  "(\<not> length np < length p \<and> take (length p) np = p \<and>
     (length np = length p \<or> np ! length p = slash)) \<longleftrightarrow>
   (\<exists>rest. np = p @ rest \<and> (rest = [] \<or> hd rest = slash))" (is "?L \<longleftrightarrow> ?R")
proof
  assume L: ?L
  then have "np = p @ drop (length p) np" by (metis append_take_drop_id)
  moreover have "drop (length p) np = [] \<or> hd (drop (length p) np) = slash"
    using L by (cases "length np = length p") (auto simp: hd_drop_conv_nth)
  ultimately show ?R by blast
next
  assume ?R
  then obtain rest where "np = p @ rest" and "rest = [] \<or> hd rest = slash" by blast
  then show ?L by (cases rest) auto
qed

lemma resolve_loop_find:
  "resolve_loop np needed ms =
     (case List.find (\<lambda>m. mount_matches m np) ms of
        None \<Rightarrow> Inl EACCES
      | Some m \<Rightarrow>
          if perm_covers (me_perm m) needed
          then Inr \<lparr>res_backend = me_backend m, res_subPath = sub_path m np\<rparr>
          else Inl EACCES)"
proof (induction ms)
  case (Cons m ms)
  show ?case
  proof (cases "me_prefix m = ''/''")
    case True
    then show ?thesis by (simp add: mount_matches_def perm_covers_def sub_path_def)
  next
    case False
    then have "mount_matches m np \<longleftrightarrow>
      \<not> length np < length (me_prefix m) \<and> take (length (me_prefix m)) np = me_prefix m \<and>
        (length np = length (me_prefix m) \<or> np ! length (me_prefix m) = slash)"
      by (simp add: mount_matches_def boundary_test)
    with False Cons.IH show ?thesis
      by (auto simp: perm_covers_def sub_path_def Let_def)
  qed
qed simp

lemma find_SomeD: "List.find P xs = Some x \<Longrightarrow> x \<in> set xs \<and> P x"
  by (induction xs) (auto split: if_splits)

lemma find_NoneD: "List.find P xs = None \<Longrightarrow> x \<in> set xs \<Longrightarrow> \<not> P x"
  by (induction xs) (auto split: if_splits)

lemma find_first:
  "sorted_wrt R xs \<Longrightarrow> List.find P xs = Some x \<Longrightarrow> y \<in> set xs \<Longrightarrow> P y \<Longrightarrow> y = x \<or> R x y"
  by (induction xs) (auto split: if_splits)

section \<open>The invariant of the mount table\<close>

definition not_shorter :: "mount_entry \<Rightarrow> mount_entry \<Rightarrow> bool" where
  "not_shorter a b \<longleftrightarrow> length (me_prefix a) \<ge> length (me_prefix b)"

definition no_conflict :: "mount_entry list \<Rightarrow> bool" where
  "no_conflict ms \<longleftrightarrow>
     (\<forall>a\<in>set ms. \<forall>b\<in>set ms. me_backend a = me_backend b \<longrightarrow> me_perm a = me_perm b)"

definition vfs_inv :: "virtual_fs \<Rightarrow> bool" where
  "vfs_inv v \<longleftrightarrow> sorted_wrt not_shorter (m_mounts v) \<and> no_conflict (m_mounts v)"

lemma not_shorter_fun: "not_shorter = (\<lambda>a b. length (me_prefix b) \<le> length (me_prefix a))"
  by (simp add: fun_eq_iff not_shorter_def)

lemma not_shorter_trans: "not_shorter a b \<Longrightarrow> not_shorter b c \<Longrightarrow> not_shorter a c"
  by (simp add: not_shorter_def)

lemma conflict_with_None:
  "conflict_with a bs = None \<longleftrightarrow>
     (\<forall>b\<in>set bs. me_backend a = me_backend b \<longrightarrow> me_perm a = me_perm b)"
  by (induction bs) auto

lemma no_conflict_Nil [simp]: "no_conflict []"
  by (simp add: no_conflict_def)

lemma no_conflict_Cons:
  "no_conflict (m # ms) \<longleftrightarrow>
     (\<forall>b\<in>set ms. me_backend m = me_backend b \<longrightarrow> me_perm m = me_perm b) \<and> no_conflict ms"
  unfolding no_conflict_def by (simp only: list.set ball_simps) (safe; metis)

lemma checkBackendConflict_None: "checkBackendConflict ms = None \<longleftrightarrow> no_conflict ms"
proof (induction ms)
  case (Cons m ms)
  then show ?case
    by (simp add: no_conflict_Cons conflict_with_None [symmetric] split: option.split)
qed simp

lemma mount_conflict_None:
  "mount_conflict ms e = None \<longleftrightarrow>
     (\<forall>m\<in>set ms. me_backend m = me_backend e \<longrightarrow> me_perm m = me_perm e)"
  by (induction ms) auto

lemma conflict_with_Some:
  "conflict_with a bs = Some x \<Longrightarrow>
     \<exists>b\<in>set bs. x = InvalidArgument a b \<and> me_backend a = me_backend b \<and> me_perm a \<noteq> me_perm b"
  by (induction bs) (auto split: if_splits)

lemma sorted_sort_mounts: "sorted_wrt not_shorter (sort_mounts ms)"
proof -
  have "sorted (map (\<lambda>m. - int (length (me_prefix m))) (sort_mounts ms))"
    unfolding sort_mounts_def by (rule sorted_sort_key)
  then show ?thesis
    by (simp add: sorted_wrt_map not_shorter_fun)
qed

lemma set_sort_mounts [simp]: "set (sort_mounts ms) = set ms"
  by (simp add: sort_mounts_def)

lemma set_insert_mount [simp]: "set (insert_mount e ms) = insert e (set ms)"
  unfolding insert_mount_def Let_def
  by (metis Un_insert_right list.simps(15) set_append takeWhile_dropWhile_id)

lemma sorted_insert_mount:
  assumes "sorted_wrt not_shorter ms"
  shows "sorted_wrt not_shorter (insert_mount e ms)"
  using assms
  by (induction ms)
    (auto simp: insert_mount_def Let_def not_shorter_def dest: set_takeWhileD set_dropWhileD)

lemma no_conflict_set: "set a = set b \<Longrightarrow> no_conflict a = no_conflict b"
  by (simp add: no_conflict_def)

lemma vfs_inv_ctor: "VirtualFS_ctor ms = Inr v \<Longrightarrow> vfs_inv v"
  by (auto simp: VirtualFS_ctor_def vfs_inv_def sorted_sort_mounts checkBackendConflict_None
      no_conflict_set [of "sort_mounts ms" ms] split: option.splits)

lemma vfs_inv_empty: "vfs_inv VirtualFS_empty"
  by (simp add: vfs_inv_def VirtualFS_empty_def no_conflict_def)

lemma vfs_inv_mount:
  assumes "vfs_inv v" and "vfs_mount v e = Inr v'"
  shows "vfs_inv v'"
proof -
  from assms(2) have none: "mount_conflict (m_mounts v) e = None"
    and v': "m_mounts v' = insert_mount e (m_mounts v)"
    by (auto simp: vfs_mount_def split: option.splits)
  from none assms(1) have "no_conflict (e # m_mounts v)"
    by (auto simp: no_conflict_Cons mount_conflict_None vfs_inv_def)
  then have "no_conflict (m_mounts v')"
    using no_conflict_set [of "e # m_mounts v" "m_mounts v'"] by (simp add: v')
  with assms(1) show ?thesis by (simp add: vfs_inv_def v' sorted_insert_mount)
qed

section \<open>Matching and sub-paths in terms of components\<close>

definition mount_canonical :: "mount_entry \<Rightarrow> bool" where
  "mount_canonical m \<longleftrightarrow> canonical_path (me_prefix m) \<and> canonical_path (me_backendPath m) \<and>
     (me_prefix m = ''/'' \<longrightarrow> me_backendPath m = ''/'')"

lemma comps_root [simp]: "comps ''/'' = []"
  by (simp add: comps_def unify_def push_part_def)

lemma flat_hd: "flat rs = [] \<or> hd (flat rs) = slash"
  by (cases rs) auto

lemma mount_matches_iff:
  assumes "canonical_path (me_prefix m)" and "canonical_path np"
  shows "mount_matches m np \<longleftrightarrow> prefix (comps (me_prefix m)) (comps np)"
proof (cases "me_prefix m = ''/''")
  case True
  then show ?thesis by (simp add: mount_matches_def)
next
  case nr: False
  define ps ss where "ps = comps (me_prefix m)" and "ss = comps np"
  have ok: "list_all seg_ok ps" "list_all seg_ok ss" by (simp_all add: ps_def ss_def comps_ok)
  have p: "me_prefix m = flat ps" using assms(1) nr by (simp add: ps_def canonical_flat)
  have "ps \<noteq> []" using assms(1) nr by (simp add: ps_def comps_eq_Nil_iff)
  then have long: "length (flat ps) > 1" using ok(1) by (cases ps) (auto simp: seg_ok_def)
  show ?thesis
  proof (cases "np = ''/''")
    case True
    then have "\<not> mount_matches m np"
      using long nr by (auto simp: mount_matches_def p dest!: arg_cong [where f = length])
    moreover have "\<not> prefix ps ss" using True \<open>ps \<noteq> []\<close> by (simp add: ss_def)
    ultimately show ?thesis by (simp add: ps_def ss_def)
  next
    case False
    then have np: "np = flat ss" using assms(2) by (simp add: ss_def canonical_flat)
    have "mount_matches m np \<longleftrightarrow>
        (\<exists>rest. flat ss = flat ps @ rest \<and> (rest = [] \<or> hd rest = slash))"
      using nr by (simp add: mount_matches_def p np)
    also have "\<dots> \<longleftrightarrow> prefix ps ss"
      using flat_boundary [OF ok] flat_hd by (fastforce simp: prefix_def)
    finally show ?thesis by (simp add: ps_def ss_def)
  qed
qed

lemma sub_path_render:
  assumes "mount_canonical m" and "canonical_path np" and "comps np = comps (me_prefix m) @ rest"
  shows "sub_path m np = render (comps (me_backendPath m) @ rest)"
proof (cases "me_prefix m = ''/''")
  case True
  then show ?thesis using assms canonical_render [of np]
    by (simp add: sub_path_def mount_canonical_def)
next
  case nr: False
  have cp: "canonical_path (me_prefix m)" and cb: "canonical_path (me_backendPath m)"
    using assms(1) by (simp_all add: mount_canonical_def)
  have p: "me_prefix m = flat (comps (me_prefix m))" using cp nr by (rule canonical_flat)
  have pne: "comps (me_prefix m) \<noteq> []" using cp nr by (simp add: comps_eq_Nil_iff)
  have np: "np = flat (comps (me_prefix m)) @ flat rest"
    using canonical_render [OF assms(2)] assms(3) pne by (simp add: render_def)
  show ?thesis
  proof (cases "rest = []")
    case True
    with np p nr cb show ?thesis by (simp add: sub_path_def canonical_render [symmetric])
  next
    case False
    then have "np \<noteq> me_prefix m" using np p by (cases rest) (metis append_self_conv, auto)
    moreover have "drop (length (me_prefix m)) np = flat rest"
      using np p by (metis append_eq_conv_conj)
    moreover have "me_backendPath m = flat (comps (me_backendPath m))"
      if "length (me_backendPath m) > 1"
      using that by (intro canonical_flat [OF cb]) auto
    moreover have "comps (me_backendPath m) = []" if "\<not> length (me_backendPath m) > 1"
    proof (rule ccontr)
      assume "comps (me_backendPath m) \<noteq> []"
      with comps_ok [of "me_backendPath m"] have "length (render (comps (me_backendPath m))) > 1"
        by (cases "comps (me_backendPath m)") (auto simp: render_def seg_ok_def)
      with that canonical_render [OF cb] show False by simp
    qed
    ultimately show ?thesis using nr False
      by (auto simp: sub_path_def render_def)
  qed
qed

lemma render_length_mono:
  "list_all seg_ok b \<Longrightarrow> strict_prefix a b \<Longrightarrow> length (render a) < length (render b)"
  by (auto elim!: strict_prefixE' simp: render_def seg_ok_def flat_def)

section \<open>Properties of resolution\<close>

text \<open>The mount that the scan selects is the longest one that matches.\<close>

definition longest_match :: "mount_entry list \<Rightarrow> string \<Rightarrow> mount_entry \<Rightarrow> bool" where
  "longest_match ms path m \<longleftrightarrow>
     m \<in> set ms \<and> prefix (comps (me_prefix m)) (comps path) \<and>
     (\<forall>m'\<in>set ms. prefix (comps (me_prefix m')) (comps path) \<longrightarrow>
        length (comps (me_prefix m')) \<le> length (comps (me_prefix m)))"

lemma not_shorter_comps:
  assumes "canonical_path (me_prefix m)" and "canonical_path (me_prefix m')"
    and "prefix (comps (me_prefix m)) cs" and "prefix (comps (me_prefix m')) cs"
    and "not_shorter m m'"
  shows "length (comps (me_prefix m')) \<le> length (comps (me_prefix m))"
proof (rule ccontr)
  assume "\<not> ?thesis"
  with assms(3,4) have "strict_prefix (comps (me_prefix m)) (comps (me_prefix m'))"
    by (metis nat_le_linear prefix_length_le prefix_length_prefix strict_prefix_def order_refl)
  then have "length (render (comps (me_prefix m))) < length (render (comps (me_prefix m')))"
    by (intro render_length_mono comps_ok)
  with assms(1,2,5) show False
    by (simp add: not_shorter_def canonical_render [symmetric])
qed

lemma find_longest:
  assumes "sorted_wrt not_shorter ms" and "\<forall>m\<in>set ms. canonical_path (me_prefix m)"
    and "List.find (\<lambda>m. mount_matches m (normalize path)) ms = Some m"
  shows "longest_match ms path m"
proof -
  have iff: "mount_matches m' (normalize path) \<longleftrightarrow> prefix (comps (me_prefix m')) (comps path)"
    if "m' \<in> set ms" for m'
    using that assms(2) by (simp add: mount_matches_iff)
  have m: "m \<in> set ms" "mount_matches m (normalize path)"
    using find_SomeD [OF assms(3)] by auto
  have "length (comps (me_prefix m')) \<le> length (comps (me_prefix m))"
    if m': "m' \<in> set ms" and p': "prefix (comps (me_prefix m')) (comps path)" for m'
  proof -
    have "m' = m \<or> not_shorter m m'"
      using find_first [OF assms(1,3) m'] iff [OF m'] p' by blast
    then show ?thesis
      using not_shorter_comps [of m m' "comps path"] assms(2) m m' p' iff by auto
  qed
  with m iff show ?thesis by (auto simp: longest_match_def)
qed

text \<open>
  C2. In a table as the constructor and \<open>mount\<close> keep it (longer prefixes first), in which every mount
  has a canonical prefix and a canonical \<open>backendPath\<close> and a mount at the root has the \<open>backendPath\<close>
  of the root: whatever path the caller writes, a resolution that succeeds is confined to one mount.
  It is the longest mount whose segments start the path, it grants every needed permission, and
  the backend sees the mount's own \<open>backendPath\<close> followed by the rest of the segments, a
  canonical path from which no dot-dot can lead out.
\<close>

theorem resolve_confined:
  assumes "vfs_inv v" and "\<forall>m\<in>set (m_mounts v). mount_canonical m"
    and "vfs_resolve v path needed = Inr r"
  shows "\<exists>m rest. longest_match (m_mounts v) path m \<and>
     perm_covers (me_perm m) needed \<and> res_backend r = me_backend m \<and>
     comps path = comps (me_prefix m) @ rest \<and>
     canonical_path (res_subPath r) \<and>
     comps (res_subPath r) = comps (me_backendPath m) @ rest"
proof -
  from assms(3) obtain m where f: "List.find (\<lambda>m. mount_matches m (normalize path)) (m_mounts v) = Some m"
    and perm: "perm_covers (me_perm m) needed"
    and r: "r = \<lparr>res_backend = me_backend m, res_subPath = sub_path m (normalize path)\<rparr>"
    by (auto simp: vfs_resolve_def resolve_loop_find split: option.splits if_splits)
  have lm: "longest_match (m_mounts v) path m"
    using assms(1,2) f by (intro find_longest) (auto simp: vfs_inv_def mount_canonical_def)
  then obtain rest where rest: "comps path = comps (me_prefix m) @ rest" and m: "m \<in> set (m_mounts v)"
    by (auto simp: longest_match_def prefix_def)
  have "list_all seg_ok (comps (me_backendPath m) @ rest)"
    using comps_ok [of path] comps_ok [of "me_backendPath m"] rest by simp
  moreover have "res_subPath r = render (comps (me_backendPath m) @ rest)"
    using assms(2) m rest r by (simp add: sub_path_render)
  ultimately have "canonical_path (res_subPath r)"
    and "comps (res_subPath r) = comps (me_backendPath m) @ rest"
    unfolding canonical_path_def by (blast, simp add: comps_render)
  with lm perm rest r show ?thesis by (intro exI [of _ m] exI [of _ rest]) simp
qed

theorem resolve_confined_witness:
  "vfs_resolve \<lparr>m_mounts = [\<lparr>me_prefix = ''/app/sub'', me_perm = 3, me_backend = 7, me_backendPath = ''/sub''\<rparr>]\<rparr>
     ''/app/x/../sub//./f'' 2 = Inr \<lparr>res_backend = 7, res_subPath = ''/sub/f''\<rparr> \<and>
   comps ''/sub/f'' = comps ''/sub'' @ [''f'']"
proof -
  let ?m = "\<lparr>me_prefix = ''/app/sub'', me_perm = 3, me_backend = 7, me_backendPath = ''/sub''\<rparr>"
  have 1: "vfs_inv \<lparr>m_mounts = [?m]\<rparr>" by (simp add: vfs_inv_def no_conflict_def)
  have 2: "\<forall>m\<in>set (m_mounts \<lparr>m_mounts = [?m]\<rparr>). mount_canonical m"
  proof -
    have "normalize ''/app/sub'' = ''/app/sub''" "normalize ''/sub'' = ''/sub''" by code_simp+
    then show ?thesis by (simp add: mount_canonical_def canonical_iff)
  qed
  have 3: "vfs_resolve \<lparr>m_mounts = [?m]\<rparr> ''/app/x/../sub//./f'' 2 =
      Inr \<lparr>res_backend = 7, res_subPath = ''/sub/f''\<rparr>" by code_simp
  have "comps ''/app/x/../sub//./f'' = [''app'', ''sub'', ''f'']" "comps ''/app/sub'' = [''app'', ''sub'']"
    by code_simp+
  with resolve_confined [OF 1 2 3] 3 show ?thesis by (auto simp: longest_match_def)
qed

text \<open>
  C3. In a table as the constructor and \<open>mount\<close> keep it (longer prefixes first), in which the prefixes
  are distinct, every mount has a canonical prefix and a canonical \<open>backendPath\<close> and a mount at the
  root has the \<open>backendPath\<close> of the root: a resolution fails only with EACCES, and it fails exactly
  when no mount starts the path
  or the longest mount that does lacks a needed permission: a shorter mount with more rights
  is never used instead.
\<close>

theorem resolve_denied:
  assumes "vfs_inv v" and "\<forall>m\<in>set (m_mounts v). mount_canonical m"
    and "distinct (map me_prefix (m_mounts v))"
  shows "vfs_resolve v path needed = Inl e \<longleftrightarrow>
     e = EACCES \<and> (\<forall>m. longest_match (m_mounts v) path m \<longrightarrow> \<not> perm_covers (me_perm m) needed)"
proof (cases "List.find (\<lambda>m. mount_matches m (normalize path)) (m_mounts v)")
  case None
  then have "\<not> longest_match (m_mounts v) path m" for m
    using assms(2) find_NoneD [OF None, of m]
    by (auto simp: longest_match_def mount_matches_iff mount_canonical_def)
  with None show ?thesis by (auto simp: vfs_resolve_def resolve_loop_find)
next
  case (Some m)
  have lm: "longest_match (m_mounts v) path m"
    using assms(1,2) Some by (intro find_longest) (auto simp: vfs_inv_def mount_canonical_def)
  have "m' = m" if "longest_match (m_mounts v) path m'" for m'
  proof -
    have "comps (me_prefix m') = comps (me_prefix m)"
      using that lm unfolding longest_match_def
      by (metis le_antisym prefix_length_prefix prefix_order.antisym order_refl)
    then have "me_prefix m' = me_prefix m"
      using that lm assms(2) by (auto simp: longest_match_def mount_canonical_def canonical_eq_iff)
    then show ?thesis
      using that lm assms(3) by (auto simp: longest_match_def distinct_map inj_on_def)
  qed
  with lm have "longest_match (m_mounts v) path m' \<longleftrightarrow> m' = m" for m' by blast
  with Some show ?thesis
    by (auto simp: vfs_resolve_def resolve_loop_find)
qed

theorem resolve_denied_witness:
  "vfs_resolve \<lparr>m_mounts = [MountEntry ''/ro'' 1 0, MountEntry ''/'' 3 1]\<rparr> ''/ro/f'' 2 = Inl EACCES \<and>
   {m. longest_match [MountEntry ''/ro'' 1 0, MountEntry ''/'' 3 1] ''/ro/f'' m \<and>
      perm_covers (me_perm m) 2} = {}"
proof -
  let ?v = "\<lparr>m_mounts = [MountEntry ''/ro'' 1 0, MountEntry ''/'' 3 1]\<rparr>"
  have n: "normalize ''/ro'' = ''/ro''" "normalize ''/'' = ''/''" by code_simp+
  have 1: "vfs_inv ?v"
    by (simp add: vfs_inv_def no_conflict_Cons not_shorter_def MountEntry_def)
  have 2: "\<forall>m\<in>set (m_mounts ?v). mount_canonical m"
    using n by (simp add: mount_canonical_def MountEntry_def canonical_iff del: canonical_normalize)
  have 3: "distinct (map me_prefix (m_mounts ?v))"
    by (simp add: MountEntry_def)
  note 1 2 3
  from resolve_denied [OF this, of "''/ro/f''" 2 EACCES]
  have "vfs_resolve ?v ''/ro/f'' 2 = Inl EACCES \<longleftrightarrow>
    (\<forall>m. longest_match (m_mounts ?v) ''/ro/f'' m \<longrightarrow> \<not> perm_covers (me_perm m) 2)" by simp
  moreover have "vfs_resolve ?v ''/ro/f'' 2 = Inl EACCES" by code_simp
  ultimately show ?thesis by auto
qed

section \<open>Properties of the mount table\<close>

lemma mount_throws_iff:
  assumes "vfs_inv v"
  shows "(\<exists>x. vfs_mount v e = Inl x) \<longleftrightarrow> \<not> no_conflict (e # m_mounts v)"
proof -
  from assms have "no_conflict (e # m_mounts v) \<longleftrightarrow> mount_conflict (m_mounts v) e = None"
    by (auto simp: no_conflict_Cons mount_conflict_None vfs_inv_def)
  then show ?thesis by (simp add: vfs_mount_def split: option.split)
qed

text \<open>
  C4. The constructor and \<open>mount\<close> keep the table sorted, longest prefix first, and free of a
  backend with two permissions; they throw exactly when the mounts given would break that, and
  otherwise the table holds exactly the mounts given.
\<close>

theorem mount_table:
  "(VirtualFS_ctor ms = Inr v \<longrightarrow> vfs_inv v \<and> set (m_mounts v) = set ms) \<and>
   ((\<exists>x. VirtualFS_ctor ms = Inl x) \<longleftrightarrow> \<not> no_conflict ms) \<and>
   (vfs_inv v \<and> vfs_mount v e = Inr v' \<longrightarrow>
      vfs_inv v' \<and> set (m_mounts v') = insert e (set (m_mounts v))) \<and>
   (vfs_inv v \<longrightarrow> ((\<exists>x. vfs_mount v e = Inl x) \<longleftrightarrow> \<not> no_conflict (e # m_mounts v)))"
proof (intro conjI impI)
  assume "VirtualFS_ctor ms = Inr v"
  then show "vfs_inv v" and "set (m_mounts v) = set ms"
    using vfs_inv_ctor by (auto simp: VirtualFS_ctor_def split: option.splits)
next
  show "(\<exists>x. VirtualFS_ctor ms = Inl x) \<longleftrightarrow> \<not> no_conflict ms"
    by (simp add: VirtualFS_ctor_def checkBackendConflict_None [symmetric] split: option.split)
next
  assume a: "vfs_inv v \<and> vfs_mount v e = Inr v'"
  then show "vfs_inv v'" using vfs_inv_mount by blast
  from a show "set (m_mounts v') = insert e (set (m_mounts v))"
    by (auto simp: vfs_mount_def split: option.splits)
next
  assume "vfs_inv v"
  then show "(\<exists>x. vfs_mount v e = Inl x) \<longleftrightarrow> \<not> no_conflict (e # m_mounts v)"
    by (rule mount_throws_iff)
qed

theorem mount_table_witness:
  "vfs_inv \<lparr>m_mounts = [MountEntry ''/bundle'' 1 0, MountEntry ''/rw'' 3 1]\<rparr> \<and>
   vfs_inv \<lparr>m_mounts = [MountEntry ''/bundle'' 1 0, MountEntry ''/a/b'' 1 2, MountEntry ''/rw'' 3 1]\<rparr> \<and>
   (\<exists>x. vfs_mount \<lparr>m_mounts = [MountEntry ''/bundle'' 1 0, MountEntry ''/rw'' 3 1]\<rparr>
      (MountEntry ''/x'' 3 0) = Inl x)"
proof -
  let ?v = "\<lparr>m_mounts = [MountEntry ''/bundle'' 1 0, MountEntry ''/rw'' 3 1]\<rparr>"
  have c: "VirtualFS_ctor [MountEntry ''/rw'' 3 1, MountEntry ''/bundle'' 1 0] = Inr ?v" by code_simp
  have m: "vfs_mount ?v (MountEntry ''/a/b'' 1 2) =
    Inr \<lparr>m_mounts = [MountEntry ''/bundle'' 1 0, MountEntry ''/a/b'' 1 2, MountEntry ''/rw'' 3 1]\<rparr>"
    by code_simp
  have n: "\<not> no_conflict (MountEntry ''/x'' 3 0 # m_mounts ?v)"
    by (simp add: no_conflict_Cons MountEntry_def)
  from c mount_table have i: "vfs_inv ?v" by blast
  with m n mount_table [of _ ?v] show ?thesis by blast
qed

fun mount_all :: "virtual_fs \<Rightarrow> mount_entry list \<Rightarrow> vfs_exn + virtual_fs" where
  "mount_all v [] = Inr v"
| "mount_all v (e # es) =
     (case vfs_mount v e of Inl x \<Rightarrow> Inl x | Inr v' \<Rightarrow> mount_all v' es)"

lemma mount_matches_take:
  assumes "canonical_path np" and "mount_matches m np"
  shows "me_prefix m = take (length (me_prefix m)) np"
proof (cases "me_prefix m = ''/''")
  case True
  moreover from assms(1) have "take 1 np = ''/''"
    by (auto simp: canonical_path_def render_def neq_Nil_conv)
  ultimately show ?thesis by simp
next
  case False
  with assms(2) show ?thesis by (auto simp: mount_matches_def)
qed

lemma resolve_any_sort:
  assumes "sorted_wrt not_shorter a" and "sorted_wrt not_shorter b" and "set a = set b"
    and "inj_on me_prefix (set a)" and "canonical_path np"
  shows "resolve_loop np needed a = resolve_loop np needed b"
proof -
  have "List.find (\<lambda>m. mount_matches m np) a = List.find (\<lambda>m. mount_matches m np) b"
  proof (cases "List.find (\<lambda>m. mount_matches m np) a")
    case None
    then have "\<forall>m\<in>set b. \<not> mount_matches m np" using find_NoneD assms(3) by metis
    then have "List.find (\<lambda>m. mount_matches m np) b = None"
      by (auto simp: find_None_iff)
    with None show ?thesis by simp
  next
    case (Some m)
    from find_SomeD [OF Some] have m: "m \<in> set a" "mount_matches m np" by auto
    then obtain m' where Some': "List.find (\<lambda>m. mount_matches m np) b = Some m'"
      using find_NoneD [of _ b m] assms(3) by (metis not_Some_eq)
    from find_SomeD [OF Some'] have m': "m' \<in> set a" "mount_matches m' np" using assms(3) by auto
    have "length (me_prefix m) = length (me_prefix m')"
      using find_first [OF assms(1) Some m'] find_first [OF assms(2) Some', of m] m assms(3)
      by (auto simp: not_shorter_def)
    then have "me_prefix m = me_prefix m'"
      using mount_matches_take assms(5) m(2) m'(2) by metis
    with assms(4) m m' have "m = m'" by (auto dest: inj_onD)
    with Some Some' show ?thesis by simp
  qed
  then show ?thesis by (simp add: resolve_loop_find)
qed

lemma mount_all_inv:
  assumes "vfs_inv v"
  shows "(case mount_all v es of
      Inl x \<Rightarrow> \<not> no_conflict (es @ m_mounts v)
    | Inr v' \<Rightarrow> vfs_inv v' \<and> set (m_mounts v') = set es \<union> set (m_mounts v))"
  using assms
proof (induction es arbitrary: v)
  case (Cons e es)
  show ?case
  proof (cases "vfs_mount v e")
    case (Inl x)
    then have "\<not> no_conflict (e # m_mounts v)"
      using mount_throws_iff [OF Cons.prems] by blast
    then have "\<not> no_conflict ((e # es) @ m_mounts v)" by (auto simp: no_conflict_def)
    with Inl show ?thesis by simp
  next
    case (Inr v')
    then have v': "vfs_inv v'" "set (m_mounts v') = insert e (set (m_mounts v))"
      using Cons.prems vfs_inv_mount by (auto simp: vfs_mount_def split: option.splits)
    have "no_conflict (es @ m_mounts v') \<longleftrightarrow> no_conflict ((e # es) @ m_mounts v)"
      by (rule no_conflict_set) (auto simp: v')
    with Cons.IH [OF v'(1)] v' Inr show ?thesis by (auto split: sum.splits)
  qed
qed simp

text \<open>
  C5. With distinct prefixes, the order in which mounts are given does not matter, nor does it
  matter whether they are given to the constructor or mounted one by one: both ways throw for
  the same mounts, and otherwise resolve every path alike. In particular the order that
  \<open>std::sort\<close> leaves among prefixes of one length is of no consequence.
\<close>

theorem mount_order_irrelevant:
  assumes "set ms' = set ms" and "inj_on me_prefix (set ms)"
  shows "case VirtualFS_ctor ms of
      Inl _ \<Rightarrow> \<exists>x. mount_all VirtualFS_empty ms' = Inl x
    | Inr v \<Rightarrow> \<exists>v'. mount_all VirtualFS_empty ms' = Inr v' \<and>
        (\<forall>path needed. vfs_resolve v' path needed = vfs_resolve v path needed)"
proof (cases "VirtualFS_ctor ms")
  case (Inl x)
  then have "\<not> no_conflict ms"
    by (auto simp: VirtualFS_ctor_def checkBackendConflict_None [symmetric] split: option.splits)
  then have "mount_all VirtualFS_empty ms' \<noteq> Inr v'" for v'
    using mount_all_inv [OF vfs_inv_empty, of ms'] assms(1) no_conflict_set [of "m_mounts v'" ms]
    by (auto simp: vfs_inv_def VirtualFS_empty_def split: sum.splits)
  with Inl show ?thesis by (cases "mount_all VirtualFS_empty ms'") auto
next
  case (Inr v)
  then have v: "vfs_inv v" "set (m_mounts v) = set ms" and nc: "no_conflict ms"
    using vfs_inv_ctor
    by (auto simp: VirtualFS_ctor_def checkBackendConflict_None split: option.splits)
  have "no_conflict (ms' @ m_mounts VirtualFS_empty)"
    using nc no_conflict_set [of ms' ms] assms(1) by (simp add: VirtualFS_empty_def)
  then obtain v' where v': "mount_all VirtualFS_empty ms' = Inr v'" "vfs_inv v'" "set (m_mounts v') = set ms"
    using mount_all_inv [OF vfs_inv_empty, of ms'] assms(1)
    by (auto simp: VirtualFS_empty_def split: sum.splits)
  have "vfs_resolve v' path needed = vfs_resolve v path needed" for path needed
    unfolding vfs_resolve_def using v v' assms(2)
    by (intro resolve_any_sort) (auto simp: vfs_inv_def)
  with v' Inr show ?thesis by auto
qed

theorem mount_order_irrelevant_witness:
  "\<exists>v'. mount_all VirtualFS_empty [MountEntry ''/cc'' 1 2, MountEntry ''/bb'' 3 1] = Inr v' \<and>
     vfs_resolve v' ''/bb/x'' 2 = Inr \<lparr>res_backend = 1, res_subPath = ''/x''\<rparr>"
proof -
  let ?ms = "[MountEntry ''/bb'' 3 1, MountEntry ''/cc'' 1 2]"
  have "set [MountEntry ''/cc'' 1 2, MountEntry ''/bb'' 3 1] = set ?ms" "inj_on me_prefix (set ?ms)"
    by (auto simp: MountEntry_def)
  note mount_order_irrelevant [OF this]
  moreover have "VirtualFS_ctor ?ms = Inr \<lparr>m_mounts = ?ms\<rparr>" by code_simp
  moreover have "vfs_resolve \<lparr>m_mounts = ?ms\<rparr> ''/bb/x'' 2 = Inr \<lparr>res_backend = 1, res_subPath = ''/x''\<rparr>"
    by code_simp
  ultimately show ?thesis by auto
qed

section \<open>The permission gate and the backends\<close>

definition grants_write :: "virtual_fs \<Rightarrow> nat \<Rightarrow> bool" where
  "grants_write v i \<longleftrightarrow> (\<exists>m\<in>set (m_mounts v). me_backend m = i \<and> hasWrite (me_perm m))"

lemma resolve_grants:
  "vfs_resolve v path needed = Inr r \<Longrightarrow>
     \<exists>m\<in>set (m_mounts v). me_backend m = res_backend r \<and> perm_covers (me_perm m) needed"
  by (auto simp: vfs_resolve_def resolve_loop_find dest!: find_SomeD split: option.splits if_splits)

lemma resolve_write_grants:
  "vfs_resolve v path perm_Write = Inr r \<Longrightarrow> grants_write v (res_backend r)"
  using resolve_grants by (fastforce simp: grants_write_def perm_covers_Write)

lemmas vfs_method_defs = VirtualFS_def vfs_readFile_def vfs_readFileBytes_def vfs_writeFile_def
  vfs_appendFile_def vfs_unlink_def vfs_mkdir_def vfs_rmdir_def vfs_readdir_def vfs_stat_def
  vfs_lstat_def vfs_exists_def vfs_rename_def vfs_copyFile_def vfs_truncate_def vfs_utimes_def
  vfs_access_def

context backend_family
begin

lemma dispatch_read_keeps:
  assumes "\<And>i p w. view j (snd (method (be i) p w)) = view j w"
  shows "view j (snd (VFS_DISPATCH_READ be v path method w)) = view j w"
  using assms by (simp add: VFS_DISPATCH_READ_def split: sum.split)

lemma dispatch_write_keeps:
  assumes "\<And>i p w. i \<noteq> j \<Longrightarrow> view j (snd (method (be i) p w)) = view j w"
    and "\<not> grants_write v j"
  shows "view j (snd (VFS_DISPATCH_WRITE be v path method w)) = view j w"
  using assms resolve_write_grants
  by (fastforce simp: VFS_DISPATCH_WRITE_def split: sum.split)

lemma mutators_other:
  assumes "i \<noteq> j"
  shows "view j (snd (be_appendFile (be i) p d w)) = view j w"
    "view j (snd (be_writeFile (be i) p d w)) = view j w"
    "view j (snd (be_unlink (be i) p w)) = view j w"
    "view j (snd (be_mkdir (be i) p b m w)) = view j w"
    "view j (snd (be_rmdir (be i) p w)) = view j w"
    "view j (snd (be_rename (be i) p q w)) = view j w"
    "view j (snd (be_copyFile (be i) p q w)) = view j w"
    "view j (snd (be_truncate (be i) p n w)) = view j w"
    "view j (snd (be_utimes (be i) p n k w)) = view j w"
  using other_keeps [OF assms [symmetric]]
  by (simp_all add: be_effect.simps [symmetric] del: be_effect.simps)

lemma rename_keeps:
  assumes "\<not> grants_write v j"
  shows "view j (snd (vfs_rename be v p q w)) = view j w"
proof (cases "vfs_resolve v p perm_Write")
  case (Inr r)
  then have "res_backend r \<noteq> j" using assms resolve_write_grants by blast
  with Inr show ?thesis by (simp add: vfs_rename_def mutators_other split: sum.split)
qed (simp add: vfs_rename_def)

lemma copyFile_keeps:
  assumes "\<not> grants_write v j"
  shows "view j (snd (vfs_copyFile be v p q w)) = view j w"
proof (cases "vfs_resolve v q perm_Write")
  case (Inr r)
  then have "res_backend r \<noteq> j" using assms resolve_write_grants by blast
  moreover have "view j (snd (case be_readFileBytes (be i) s w of
        (Inl e, w') \<Rightarrow> (Inl e, w')
      | (Inr data, w') \<Rightarrow> be_writeFile (be (res_backend r)) t data w')) = view j w" for i s t
    using readFileBytes_keeps [of j i s w] mutators_other(2) [OF \<open>res_backend r \<noteq> j\<close>]
    by (cases "be_readFileBytes (be i) s w") (auto split: sum.split)
  ultimately show ?thesis
    using Inr by (simp add: vfs_copyFile_def mutators_other split: sum.split)
qed (simp add: vfs_copyFile_def split: sum.split)

lemma vfs_effect_keeps:
  assumes "\<not> grants_write v j"
  shows "view j (be_effect (VirtualFS be v) x w) = view j w"
proof (cases "is_query x")
  case True
  then show ?thesis
    by (cases x) (simp_all add: vfs_method_defs dispatch_read_keeps split: sum.split)
next
  case False
  with assms rename_keeps copyFile_keeps show ?thesis
    by (cases x) (simp_all add: VirtualFS_def vfs_writeFile_def vfs_appendFile_def vfs_unlink_def
        vfs_mkdir_def vfs_rmdir_def vfs_truncate_def vfs_utimes_def dispatch_write_keeps
        mutators_other)
qed

lemma vfs_run_keeps:
  "\<not> grants_write v j \<Longrightarrow> view j (be_run (VirtualFS be v) xs w) = view j w"
  by (induction xs arbitrary: w) (simp_all add: vfs_effect_keeps)

end

text \<open>
  Two consequences of the string tests that the callers of the class should know. A mount on
  \<open>"/"\<close> forgets its \<open>backendPath\<close>: the backend sees the whole normal path, so the confinement to
  a sub-directory that \<open>backendPath\<close> promises is lost for that prefix. A prefix written with a
  slash at its end matches no path at all.
\<close>

lemma root_mount_ignores_backendPath:
  "vfs_resolve \<lparr>m_mounts = [\<lparr>me_prefix = ''/'', me_perm = ReadWrite, me_backend = b,
       me_backendPath = jail\<rparr>]\<rparr> path perm_Read =
     Inr \<lparr>res_backend = b, res_subPath = normalize path\<rparr>"
  by (simp add: vfs_resolve_def perm_defs)

lemma canonical_last: "canonical_path p \<Longrightarrow> p \<noteq> ''/'' \<Longrightarrow> last p \<noteq> slash"
proof -
  assume "canonical_path p" "p \<noteq> ''/''"
  then obtain segs where segs: "list_all seg_ok segs" "segs \<noteq> []" "p = flat segs"
    by (auto simp: canonical_path_def render_def split: if_splits)
  then obtain ss s where ss: "segs = ss @ [s]" by (metis rev_exhaust)
  with segs have s: "s \<noteq> []" "slash \<notin> set s" by (auto simp: seg_ok_def)
  from s have "last s \<noteq> slash" by (metis last_in_set)
  with segs ss s show ?thesis by (simp add: last_append)
qed

lemma trailing_slash_matches_nothing:
  assumes "length (me_prefix m) > 1" and "last (me_prefix m) = slash" and "canonical_path np"
  shows "\<not> mount_matches m np"
proof
  assume "mount_matches m np"
  moreover have "me_prefix m \<noteq> ''/''" using assms(1) by auto
  ultimately obtain rest where np: "np = me_prefix m @ rest" and rest: "rest = [] \<or> hd rest = slash"
    by (auto simp: mount_matches_def)
  obtain q where q: "me_prefix m = q @ [slash]" "q \<noteq> []"
    using assms(1,2) by (cases "me_prefix m" rule: rev_cases) auto
  show False
  proof (cases rest)
    case Nil
    then have "last np = slash" "np \<noteq> ''/''" using np q by auto
    with canonical_last [OF assms(3)] show False by simp
  next
    case (Cons c cs)
    with rest np q have "np = q @ slash # slash # cs" by simp
    moreover have "\<not> (\<exists>a b. flat segs = a @ slash # slash # b)" if "list_all seg_ok segs" for segs
      using that
    proof (induction segs)
      case (Cons s ss)
      have s: "s \<noteq> []" "slash \<notin> set s" using Cons.prems by (auto simp: seg_ok_def)
      show ?case
      proof
        assume "\<exists>a b. flat (s # ss) = a @ slash # slash # b"
        then obtain a b where ab: "slash # s @ flat ss = a @ slash # slash # b" by auto
        then obtain a' where a': "a = slash # a'" and sa: "s @ flat ss = a' @ slash # slash # b"
          using s by (cases a; cases s) auto
        then consider c where "s = a' @ c" "c @ flat ss = slash # slash # b"
          | c where "a' = s @ c" "flat ss = c @ slash # slash # b"
          by (auto simp: append_eq_append_conv2)
        then show False
        proof cases
          case 1
          then have "c = []" using s(2) by (cases c) auto
          with 1 have "flat ss = [] @ slash # slash # b" by simp
          then show False using Cons.IH Cons.prems by fastforce
        next
          case 2
          then show False using Cons.IH Cons.prems by auto
        qed
      qed
    qed simp
    moreover from \<open>np = q @ slash # slash # cs\<close> have "length np > 1" by simp
    then have "np \<noteq> ''/''" by auto
    then obtain segs where "list_all seg_ok segs" "np = flat segs"
      using assms(3) by (auto simp: canonical_path_def render_def split: if_splits)
    ultimately show False by metis
  qed
qed

end
