(* ===== verification/MemRename.thy ===== *)
theory MemRename
  imports MemRefine VirtualFS
begin

text \<open>
  \<open>rename\<close> of \<open>MemFSBackend\<close>: on canonical paths it moves a whole subtree and refuses to move a
  directory below itself; on paths that are not canonical the string test can be passed by and
  the subtree is lost.
\<close>

definition a_rename :: "string list \<Rightarrow> string list \<Rightarrow> absfs \<Rightarrow> unit expected \<times> absfs" where
  "a_rename old new a =
     (if old = new then (Inr (), a)
      else if old = [] then (Inl EACCES, a)
      else case a_parent (a_fs a) old of
        Some e \<Rightarrow> (Inl e, a)
      | None \<Rightarrow>
          (case a_fs a old of
             None \<Rightarrow> (Inl ENOENT, a)
           | Some (st, _) \<Rightarrow>
               if isDir st \<and> strict_prefix old new then (Inl EINVAL, a)
               else if new = [] then (Inl EACCES, a)
               else (case a_parent (a_fs a) new of
                       Some e \<Rightarrow> (Inl e, a)
                     | None \<Rightarrow>
                         if (case a_fs a new of None \<Rightarrow> False
                             | Some (st', _) \<Rightarrow> isDir st' \<and> \<not> a_childless (a_fs a) new)
                         then (Inl ENOTEMPTY, a)
                         else (Inr (), a_set (a_move old new) a))))"

lemma below_itself_iff:
  assumes "canonical_path old" and "canonical_path new" and "comps old \<noteq> []"
  shows "below_itself old new \<longleftrightarrow> strict_prefix (comps old) (comps new)"
proof
  have o: "old = flat (comps old)" "list_all seg_ok (comps old)"
    using assms canonical_flat comps_eq_Nil_iff comps_ok by auto
  {
    assume L: "below_itself old new"
    then have "comps new \<noteq> []"
      using o(1) assms(3) canonical_render [OF assms(2)]
      by (cases "comps old") (auto simp: below_itself_def render_def)
    then have n: "new = flat (comps new)" "list_all seg_ok (comps new)"
      using assms(2) canonical_flat comps_eq_Nil_iff comps_ok by auto
    from L obtain rest where rest: "new = old @ rest" "rest \<noteq> []" "hd rest = slash"
      unfolding below_itself_def
      by (metis append_take_drop_id drop_eq_Nil hd_drop_conv_nth leD)
    obtain rs where "comps new = comps old @ rs" "rest = flat rs"
      using flat_boundary [OF o(2) n(2), of rest] rest o(1) n(1) by auto
    with rest(2) show "strict_prefix (comps old) (comps new)"
      by (cases rs) (auto simp: strict_prefix_def)
  next
    assume R: "strict_prefix (comps old) (comps new)"
    then obtain r rs where rs: "comps new = comps old @ r # rs"
      by (auto elim: strict_prefixE')
    then have "comps new \<noteq> []" by simp
    then have "new = flat (comps new)"
      using assms(2) canonical_flat comps_eq_Nil_iff by auto
    then have "new = old @ slash # r @ flat rs" using rs o(1) by simp
    then show "below_itself old new" by (simp add: below_itself_def)
  }
qed

lemma prefix_butlast: "xs \<noteq> [] \<Longrightarrow> prefix ys (butlast xs) \<Longrightarrow> prefix ys xs \<and> ys \<noteq> xs"
  by (metis append_butlast_last_id prefix_snoc prefix_order.antisym prefixeq_butlast
      not_Cons_self2 prefix_length_le length_append_singleton Suc_n_not_le_n)

text \<open>Unlinking a subtree and linking it elsewhere moves it on the map.\<close>

lemma view_move:
  assumes "wf_node r" and "old \<noteq> []" and "new \<noteq> []" and "\<not> prefix old new"
    and "walk r (butlast old) = Some p" and "walk r (butlast new) = Some q"
    and "walk r old = Some k"
  shows "view (modify (butlast new) (put_child (last new) k)
      (modify (butlast old) (erase_child (last old)) r)) = a_move old new (view r)"
proof
  fix qs
  let ?r = "modify (butlast old) (erase_child (last old)) r"
  have old: "butlast old @ [last old] = old" and new: "butlast new @ [last new] = new"
    using assms(2,3) by simp_all
  have s: "map_sorted (n_children p)" using assms(1,5) wf_walk wf_sorted by blast
  have v: "view ?r xs = (if prefix old xs then None else view r xs)" for xs
    using view_erase_child [OF assms(5) s, of "last old" xs] by (simp add: old)
  have "\<not> prefix old (butlast new)" using prefix_butlast assms(3,4) by blast
  with v [of "butlast new"] assms(6) obtain q' where q': "walk ?r (butlast new) = Some q'"
    by (auto simp: view_def)
  have len: "Suc (length new - Suc 0) = length new" using assms(3) by (cases new) simp_all
  show "view (modify (butlast new) (put_child (last new) k) ?r) qs = a_move old new (view r) qs"
    using view_put_child [OF q', of "last new" k qs] assms(7)
    by (simp add: new len v a_move_def view_below)
qed

lemma mem_rename_refines:
  assumes "mem_inv m" and "canonical_path old" and "canonical_path new"
  shows "map_prod id abs_of (mem_rename old new m) = a_rename (comps old) (comps new) (abs_of m)"
proof (cases "old = new \<or> comps old = []")
  case True
  then show ?thesis using assms
    by (auto simp: mem_rename_def a_rename_def Let_def splitPath_canonical canonical_eq_iff)
next
  case False
  then have ne: "old \<noteq> new" "comps old \<noteq> comps new" "comps old \<noteq> []" "splitPath old \<noteq> []"
    using assms by (auto simp: canonical_eq_iff splitPath_canonical)
  note sp = splitPath_canonical [OF assms(2)] splitPath_canonical [OF assms(3)]
  have wfr: "wf_node (m_root m)" using assms(1) by (simp add: mem_inv_def)
  from assms(1) ne(4) show ?thesis
  proof (cases rule: parent_cases)
    case (error e)
    with ne show ?thesis by (simp add: mem_rename_def a_rename_def sp)
  next
    case (dir p)
    show ?thesis
    proof (cases "walk (m_root m) (comps old)")
      case None
      with dir ne show ?thesis by (simp add: mem_rename_def a_rename_def sp view_None)
    next
      case (Some k)
      show ?thesis
      proof (cases "isDir (n_stat k) \<and> strict_prefix (comps old) (comps new) \<or> comps new = []")
        case True
        with dir ne Some show ?thesis
          by (auto simp: mem_rename_def a_rename_def sp view_Some below_itself_iff assms)
      next
        case nb: False
        then have ne': "splitPath new \<noteq> []" by (simp add: sp)
        from assms(1) ne' show ?thesis
        proof (cases rule: parent_cases)
          case (error e)
          with dir ne Some nb show ?thesis
            by (auto simp: mem_rename_def a_rename_def sp view_Some below_itself_iff assms Let_def)
        next
          case new: (dir q)
          have kf: "\<not> isDir (n_stat k) \<Longrightarrow> n_children k = []"
            using wf_file_no_children wf_walk [OF wfr Some] by blast
          have "\<not> prefix (comps old) (comps new)"
          proof
            assume pre: "prefix (comps old) (comps new)"
            with ne(2) have spre: "strict_prefix (comps old) (comps new)" by simp
            with nb kf have k: "\<not> isDir (n_stat k)" "n_children k = []" by auto
            from spre obtain r rs where rs: "comps new = comps old @ r # rs"
              by (auto elim: strict_prefixE')
            then have "butlast (comps new) = comps old @ butlast (r # rs)"
              by (simp add: butlast_append)
            with new(3) Some k have "butlast (r # rs) = []" "q = k"
              by (cases "butlast (r # rs)"; simp add: sp walk_append)+
            with k new(5) show False by simp
          qed
          note mv = view_move [OF wfr ne(3) _ this _ _ Some, of p q]
          show ?thesis
          proof (cases "walk (m_root m) (comps new)")
            case None
            with dir ne Some nb new mv show ?thesis
              by (auto simp: mem_rename_def a_rename_def sp view_Some view_None below_itself_iff
                  assms abs_of_def a_set_def Let_def)
          next
            case Dst: (Some d)
            with dir ne Some nb new mv show ?thesis
              by (auto simp: mem_rename_def a_rename_def sp view_Some below_itself_iff
                  assms abs_of_def a_set_def Let_def childless_iff)
          qed
        qed
      qed
    qed
  qed
qed

text \<open>
  The test for a rename below itself compares the strings it is given: with another spelling
  of the same directory it does not fire, the rename reports success, and the directory with all
  its content is gone.
\<close>

lemma rename_other_spelling:
  assumes "walk r [''a''] = Some k" and "isDir (n_stat k)" and "map_find (n_children k) ''b'' = None"
    and "wf_node r" and "isDir (n_stat r)"
  shows "\<exists>r'. mem_rename ''a'' ''/a/b'' (m\<lparr>m_root := r\<rparr>) = (Inr (), m\<lparr>m_root := r'\<rparr>) \<and>
    view r' = (\<lambda>qs. if prefix [''a''] qs then None else view r qs)"
proof -
  let ?m = "m\<lparr>m_root := r\<rparr>"
  have sp: "splitPath ''a'' = [''a'']" "splitPath ''/a/b'' = [''a'', ''b'']" by code_simp+
  have nb: "\<not> below_itself ''a'' ''/a/b''" by code_simp
  have ka: "map_find (n_children r) ''a'' = Some k" using assms(1) by (auto split: option.splits)
  have p: "parentDir ?m ''a'' = Inr []" "parentDir ?m ''/a/b'' = Inr [''a'']"
    using assms(1,2) by (simp_all add: parentDir_def sp)
  have d: "deref ?m [] = r" "deref ?m [''a''] = k" using ka by (simp_all add: deref_def)
  let ?r = "modify [] (erase_child ''a'') r"
  have s: "map_sorted (n_children r)" using assms(4) by (rule wf_sorted)
  have gone: "map_find (n_children ?r) ''a'' = None" by (simp add: children.find_erase s)
  have "mem_rename ''a'' ''/a/b'' ?m = (Inr (), m\<lparr>m_root := ?r\<rparr>)"
    using assms(3) gone by (simp add: mem_rename_def Let_def sp p d ka nb)
  moreover have "view ?r = (\<lambda>qs. if prefix [''a''] qs then None else view r qs)"
    using view_erase_child [of r "[]" r "''a''"] s by auto
  ultimately show ?thesis by blast
qed

end
