(* ===== verification/MemInv.thy ===== *)
theory MemInv
  imports MemMkdir MemRename
begin

text \<open>
  The invariant of \<open>MemFSBackend\<close> under every call of its interface, and the interpretation of
  the router's backend interface on a family of such objects.
\<close>

section \<open>Assignments that keep a node well formed\<close>

lemma n_stat_modify: "n_stat (modify ps f r) = (if ps = [] then n_stat (f r) else n_stat r)"
  by (cases ps) (auto split: option.split)

lemma mem_inv_modify:
  assumes "mem_inv m"
    and "\<And>n. walk (m_root m) ps = Some n \<Longrightarrow> wf_node n \<Longrightarrow> wf_node (f n)"
    and "\<And>n. isDir (n_stat n) \<Longrightarrow> isDir (n_stat (f n))"
  shows "wf_node (modify ps f (m_root m)) \<and> isDir (n_stat (modify ps f (m_root m)))"
  using assms wf_modify [of "m_root m" ps f] by (auto simp: mem_inv_def n_stat_modify)

lemma wf_same_kids:
  assumes "wf_node n" and "node_ok n'" and "n_children n' = n_children n"
  shows "wf_node n'"
proof (rule wf_nodeI)
  show "node_ok n'" by (rule assms(2))
  show "wf_node c" if "(k, c) \<in> set (n_children n')" for k c
    using that assms(1,3) by (auto intro: wf_kid)
qed

lemma isFile_wf: "wf_node n \<Longrightarrow> \<not> isDir (n_stat n) \<Longrightarrow> isFile (n_stat n) \<and> n_children n = []"
  using wf_node_ok [of n] by (auto simp: node_ok_def)

lemma isDir_mode: "st_mode s = st_mode s' \<Longrightarrow> isDir s = isDir s' \<and> isFile s = isFile s'"
  by (simp add: isDir_def isFile_def)

lemma wf_file:
  assumes "isFile st" and "st_size st = of_nat (length d)"
  shows "wf_node (Node st d [])"
  using assms by (simp add: node_ok_def map_keys_def)

lemma wf_new_file: "wf_node (Node (new_stat i file_mode t) [] [])"
  by (rule wf_file) (simp_all add: isFile_def file_mode_def)

lemma wf_new_dir: "wf_node (Node (new_stat i (dir_mode md) t) [] [])"
  by (simp add: node_ok_def map_keys_def dir_mode_isDir)

lemma wf_store: "wf_node n \<Longrightarrow> \<not> isDir (n_stat n) \<Longrightarrow> wf_node (store_data d t n)"
  using isFile_wf [of n] wf_file by (simp add: store_data_def isFile_def)

lemma isDir_store [simp]: "isDir (n_stat (store_data d t n)) = isDir (n_stat n)"
  by (simp add: store_data_def isDir_def)

lemma inv_store:
  assumes "mem_inv m" and "walk (m_root m) ps = Some n" and "\<not> isDir (n_stat n)"
  shows "wf_node (modify ps (store_data d t) (m_root m)) \<and>
    isDir (n_stat (modify ps (store_data d t) (m_root m)))"
proof (rule mem_inv_modify [OF assms(1)])
  show "wf_node (store_data d t k)" if "walk (m_root m) ps = Some k" "wf_node k" for k
    using that assms(2,3) wf_store by simp
qed simp

section \<open>Every operation keeps the invariant\<close>

lemma splitPath_last_ok: "splitPath path \<noteq> [] \<Longrightarrow> name_ok (last (splitPath path))"
  using splitPath_name_ok last_in_set by blast

lemma walk_at_parent:
  "parts \<noteq> [] \<Longrightarrow> walk r parts = Some k \<Longrightarrow> walk r (butlast parts @ [last parts]) = Some k"
  by simp

lemma inv_put:
  assumes "mem_inv m" and "walk (m_root m) ps = Some n" and "isDir (n_stat n)" and "wf_node c"
    and "name_ok k"
  shows "wf_node (modify ps (put_child k c) (m_root m)) \<and>
    isDir (n_stat (modify ps (put_child k c) (m_root m)))"
  by (rule mem_inv_modify) (use assms in \<open>auto intro!: wf_put_child\<close>)

lemma inv_erase:
  assumes "mem_inv m"
  shows "wf_node (modify ps (erase_child k) (m_root m)) \<and>
    isDir (n_stat (modify ps (erase_child k) (m_root m)))"
  by (rule mem_inv_modify) (use assms in \<open>auto intro!: wf_erase_child\<close>)

lemma mem_invI: "wf_node r \<and> isDir (n_stat r) \<Longrightarrow> mem_inv (m\<lparr>m_root := r\<rparr>)"
  by (simp add: mem_inv_def)

lemma mem_write_inv:
  assumes "mem_inv m"
  shows "mem_inv (snd (mem_writeFile path data m))"
proof (cases "splitPath path = []")
  case True
  with assms show ?thesis by (simp add: mem_writeFile_def)
next
  case ne: False
  then have b: "butlast (splitPath path) @ [last (splitPath path)] = splitPath path" by simp
  from assms ne show ?thesis
  proof (cases rule: parent_cases)
    case (error e)
    with ne assms show ?thesis by (simp add: mem_writeFile_def)
  next
    case (dir n)
    show ?thesis
    proof (cases "walk (m_root m) (splitPath path)")
      case (Some k)
      show ?thesis
      proof (cases "isDir (n_stat k)")
        case True
        with dir ne b assms Some show ?thesis
          by (simp add: mem_writeFile_def nowMs_def Let_def deref_def)
      next
        case False
        note inv_store [OF assms Some False]
        with dir ne b Some False show ?thesis
          by (simp add: mem_writeFile_def nowMs_def Let_def deref_def mem_inv_def)
      qed
    next
      case None
      let ?r = "\<lambda>t. modify (butlast (splitPath path)) (put_child (last (splitPath path))
        (Node (new_stat (m_nextIno m) file_mode t) [] [])) (m_root m)"
      have r: "mem_inv (m\<lparr>m_root := ?r t\<rparr>)" for t
        by (rule mem_invI [OF inv_put [OF assms dir(3,5) wf_new_file splitPath_last_ok [OF ne]]])
      have w: "walk (?r t) (splitPath path) = Some (Node (new_stat (m_nextIno m) file_mode t) [] [])" for t
        using walk_modify_below [OF dir(3), of "put_child (last (splitPath path))
          (Node (new_stat (m_nextIno m) file_mode t) [] [])" "[last (splitPath path)]"] b by simp
      have "wf_node (modify (splitPath path) (store_data data t) (?r t)) \<and>
          isDir (n_stat (modify (splitPath path) (store_data data t) (?r t)))" for t
        using inv_store [OF r [of t], of "splitPath path"] w by (simp add: isDir_def file_mode_def)
      with dir ne b None show ?thesis
        by (simp add: mem_writeFile_def nowMs_def nextIno_def Let_def deref_def mem_inv_def)
    qed
  qed
qed

lemma mem_append_inv:
  assumes "mem_inv m"
  shows "mem_inv (snd (mem_appendFile path data m))"
proof (cases "splitPath path = []")
  case True
  with assms show ?thesis by (simp add: mem_appendFile_def)
next
  case ne: False
  then have b: "butlast (splitPath path) @ [last (splitPath path)] = splitPath path" by simp
  from assms ne show ?thesis
  proof (cases rule: parent_cases)
    case (error e)
    with ne assms show ?thesis by (simp add: mem_appendFile_def)
  next
    case (dir n)
    show ?thesis
    proof (cases "walk (m_root m) (splitPath path)")
      case (Some k)
      with inv_store [OF assms Some] dir ne b assms show ?thesis
        by (cases "isDir (n_stat k)")
          (simp_all add: mem_appendFile_def nowMs_def Let_def deref_def mem_inv_def)
    next
      case None
      with dir ne assms show ?thesis
        using mem_write_inv [of "m\<lparr>m_time := (\<lambda>i. m_time m (Suc i))\<rparr>" path data]
        by (simp add: mem_appendFile_def nowMs_def Let_def deref_def)
    qed
  qed
qed

lemma mem_unlink_inv:
  assumes "mem_inv m"
  shows "mem_inv (snd (mem_unlink path m))"
proof (cases "splitPath path = []")
  case ne: False
  from assms ne show ?thesis
  proof (cases rule: parent_cases)
    case (dir n)
    with ne assms inv_erase [OF assms] show ?thesis
      by (auto simp: mem_unlink_def mem_inv_def Let_def split: option.split)
  qed (use ne assms in \<open>simp add: mem_unlink_def\<close>)
qed (use assms in \<open>simp add: mem_unlink_def\<close>)

lemma mem_rmdir_inv: "mem_inv m \<Longrightarrow> mem_inv (snd (mem_rmdir path m))"
  using mem_unlink_inv by (auto simp: mem_rmdir_def split: sum.split)

lemma wf_set_mode:
  assumes "wf_node n" and "isDir (n_stat n)"
  shows "wf_node (set_stat (\<lambda>s. s\<lparr>st_mode := dir_mode mode\<rparr>) n)"
proof (rule wf_same_kids [OF assms(1)])
  have "\<not> isFile (n_stat n)" using assms(2) by (rule isDir_not_isFile)
  then show "node_ok (set_stat (\<lambda>s. s\<lparr>st_mode := dir_mode mode\<rparr>) n)"
    using wf_node_ok [OF assms(1)] by (auto simp: node_ok_def dir_mode_isDir)
qed simp

lemma mkdir_loop_wf:
  assumes "wf_node n" and "isDir (n_stat n)" and "list_all name_ok parts"
  shows "wf_node (fst (snd (mkdir_loop mode parts n m))) \<and>
    isDir (n_stat (fst (snd (mkdir_loop mode parts n m))))"
  using assms
proof (induction parts arbitrary: n m)
  case Nil
  then show ?case by (simp add: wf_set_mode dir_mode_isDir)
next
  case (Cons p ps)
  then have p: "name_ok p" by simp
  show ?case
  proof (cases "map_find (n_children n) p")
    case None
    obtain c m' where c: "mkdir_loop mode (p # ps) n m =
        (let (r, child, m) = mkdir_loop mode ps c m' in (r, put_child p child n, m))"
      and wf: "wf_node c" "isDir (n_stat c)"
      using None wf_new_dir by (simp add: Let_def split_beta dir_mode_isDir)
    from Cons.IH [OF wf, of m'] Cons.prems p show ?thesis
      by (simp add: c split_beta wf_put_child del: mkdir_loop.simps)
  next
    case (Some c)
    have "wf_node c" using Cons.prems(1) Some by (rule wf_child)
    from Cons.IH [OF this, of m] Cons.prems p Some show ?thesis
      by (simp add: split_beta wf_put_child)
  qed
qed

lemma mem_mkdir_inv:
  assumes "mem_inv m"
  shows "mem_inv (snd (mem_mkdir path rec mode m))"
proof (cases "splitPath path = [] \<or> rec")
  case True
  have "list_all name_ok (splitPath path)" using splitPath_name_ok by (auto simp: list_all_iff)
  then have "wf_node (fst (snd (mkdir_loop mode (splitPath path) (m_root m) m))) \<and>
    isDir (n_stat (fst (snd (mkdir_loop mode (splitPath path) (m_root m) m))))"
    using assms by (intro mkdir_loop_wf) (auto simp: mem_inv_def)
  with True assms show ?thesis
    by (auto simp: mem_mkdir_def Let_def split_beta mem_inv_def)
next
  case False
  then have ne: "splitPath path \<noteq> []" and r: "\<not> rec" by auto
  from assms ne show ?thesis
  proof (cases rule: parent_cases)
    case (dir n)
    from inv_put [OF assms dir(3,5) wf_new_dir splitPath_last_ok [OF ne]] ne r dir assms
    show ?thesis
      by (simp add: mem_mkdir_def nowMs_def nextIno_def mem_inv_def Let_def)
  qed (use ne r assms in \<open>simp add: mem_mkdir_def\<close>)
qed

lemma mem_copyFile_inv:
  assumes "mem_inv m"
  shows "mem_inv (snd (mem_copyFile src dst m))"
  using assms
proof (cases rule: walkTo_cases [where path = src])
  case (node w n)
  show ?thesis
  proof (cases "isDir (n_stat n) \<or> splitPath dst = []")
    case True
    with node assms show ?thesis by (auto simp: mem_copyFile_def)
  next
    case False
    then have ne: "splitPath dst \<noteq> []" by simp
    from assms ne show ?thesis
    proof (cases rule: parent_cases)
      case (dir d)
      have "node_ok n" using node(6) by (rule wf_node_ok)
      then have c: "wf_node (Node ((n_stat n)\<lparr>st_ino := i\<rparr>) (n_data n) [])" for i
        using False by (auto intro!: wf_file simp: node_ok_def isFile_def)
      from inv_put [OF assms dir(3,5) c splitPath_last_ok [OF ne]] False node dir assms
      show ?thesis
        by (auto simp: mem_copyFile_def nextIno_def mem_inv_def Let_def split: option.split)
    qed (use False node assms in \<open>simp add: mem_copyFile_def\<close>)
  qed
qed (use assms in \<open>simp add: mem_copyFile_def\<close>)

lemma resize_length [simp]: "length (resize n d) = n"
  by (simp add: resize_def)

lemma of_nat_unat [simp]: "of_nat (unat (x :: i64)) = x"
  by simp

lemma mem_truncate_inv:
  assumes "mem_inv m"
  shows "mem_inv (snd (mem_truncate path sz m))"
  using assms
proof (cases rule: walkTo_cases [where path = path])
  case (node w n)
  let ?f = "\<lambda>t n. Node ((n_stat n)\<lparr>st_size := sz, st_mtimeMs := t, st_ctimeMs := t\<rparr>)
    (resize (unat sz) (n_data n)) (n_children n)"
  have d: "isDir (n_stat (?f t k)) = isDir (n_stat k)" for t k by (simp add: isDir_def)
  have "wf_node (modify (splitPath path) (?f t) (m_root m)) \<and>
      isDir (n_stat (modify (splitPath path) (?f t) (m_root m)))" if "\<not> isDir (n_stat n)" for t
  proof (rule mem_inv_modify [OF assms])
    show "wf_node (?f t k)" if "walk (m_root m) (splitPath path) = Some k" "wf_node k" for k
      using that node(3) isFile_wf [of k] \<open>\<not> isDir (n_stat n)\<close> wf_file
      by (simp add: isFile_def)
  qed (simp add: isDir_def)
  with node assms show ?thesis
    by (simp add: mem_truncate_def nowMs_def Let_def mem_inv_def)
qed (use assms in \<open>simp add: mem_truncate_def\<close>)

lemma mem_utimes_inv:
  assumes "mem_inv m"
  shows "mem_inv (snd (mem_utimes path at mt m))"
  using assms
proof (cases rule: walkTo_cases [where path = path])
  case (node w n)
  let ?f = "\<lambda>t. set_stat (\<lambda>s. s\<lparr>st_atimeMs := at, st_mtimeMs := mt, st_ctimeMs := t\<rparr>)"
  have d: "isDir (n_stat (?f t k)) = isDir (n_stat k)" "isFile (n_stat (?f t k)) = isFile (n_stat k)"
    for t k by (simp_all add: isDir_def isFile_def)
  have "wf_node (modify (splitPath path) (?f t) (m_root m)) \<and>
      isDir (n_stat (modify (splitPath path) (?f t) (m_root m)))" for t
  proof (rule mem_inv_modify [OF assms])
    show "wf_node (?f t k)" if "wf_node k" for k
      using wf_node_ok [OF that] d [of t k]
      by (intro wf_same_kids [OF that]) (auto simp: node_ok_def)
  qed (simp add: d del: n_stat_set_stat)
  with node assms show ?thesis
    by (simp add: mem_utimes_def nowMs_def Let_def mem_inv_def)
qed (use assms in \<open>simp add: mem_utimes_def\<close>)

lemma inv_move:
  assumes "mem_inv m" and "walk (m_root m) op = Some p" and "walk (m_root m) np = Some q"
    and "isDir (n_stat q)" and "wf_node k" and "name_ok nn"
  shows "mem_inv (m\<lparr>m_root := modify np (put_child nn k) (modify op (erase_child on) (m_root m))\<rparr>)"
proof -
  let ?r = "modify op (erase_child on) (m_root m)"
  have m': "mem_inv (m\<lparr>m_root := ?r\<rparr>)" by (rule mem_invI [OF inv_erase [OF assms(1)]])
  have s: "map_sorted (n_children p)"
    using assms(1,2) wf_walk wf_sorted by (auto simp: mem_inv_def)
  have dir: "isDir (n_stat q')" if "walk ?r np = Some q'" for q'
    using view_erase_child [OF assms(2) s, of on np] that assms(3,4)
    by (auto simp: view_Some split: if_splits)
  have "wf_node (modify np (put_child nn k) ?r) \<and> isDir (n_stat (modify np (put_child nn k) ?r))"
    using mem_inv_modify [OF m', of np "put_child nn k"] dir wf_put_child assms(5,6) by simp
  then show ?thesis by (rule mem_invI)
qed

lemma mem_rename_inv:
  assumes "mem_inv m"
  shows "mem_inv (snd (mem_rename old new m))"
proof (cases "old = new \<or> splitPath old = []")
  case True
  with assms show ?thesis by (auto simp: mem_rename_def)
next
  case False
  then have ne: "old \<noteq> new" "splitPath old \<noteq> []" by auto
  from assms ne(2) show ?thesis
  proof (cases rule: parent_cases)
    case (error e)
    with ne assms show ?thesis by (simp add: mem_rename_def)
  next
    case (dir p)
    show ?thesis
    proof (cases "walk (m_root m) (splitPath old)")
      case None
      with dir ne assms show ?thesis by (simp add: mem_rename_def)
    next
      case (Some k)
      have wk: "wf_node k" using assms wf_walk [OF _ Some] by (simp add: mem_inv_def)
      show ?thesis
      proof (cases "isDir (n_stat k) \<and> below_itself old new \<or> splitPath new = []")
        case True
        with dir ne Some assms show ?thesis by (auto simp: mem_rename_def Let_def)
      next
        case nb: False
        then have ne': "splitPath new \<noteq> []" by simp
        from assms ne' show ?thesis
        proof (cases rule: parent_cases)
          case (error e)
          with dir ne Some nb assms show ?thesis by (auto simp: mem_rename_def Let_def)
        next
          case new: (dir q)
          from inv_move [OF assms dir(3) new(3,5) wk splitPath_last_ok [OF ne']]
          show ?thesis using dir ne Some nb assms new
            by (auto simp: mem_rename_def Let_def split: option.split)
        qed
      qed
    qed
  qed
qed

section \<open>The interface as a whole\<close>

lemmas mem_method_defs = MemFSBackend_def mem_readFile_def mem_readFileBytes_def mem_readdir_def
  mem_stat_def mem_lstat_def mem_exists_def mem_access_def

lemma mem_query_keeps: "is_query x \<Longrightarrow> be_effect MemFSBackend x m = m"
  by (cases x) (auto simp: mem_method_defs Let_def split: sum.split)

lemma mem_effect_inv: "mem_inv m \<Longrightarrow> mem_inv (be_effect MemFSBackend x m)"
  by (cases x) (simp_all add: MemFSBackend_def mem_write_inv mem_append_inv mem_unlink_inv
      mem_mkdir_inv mem_rmdir_inv mem_rename_inv mem_copyFile_inv mem_truncate_inv mem_utimes_inv
      mem_readFile_refines mem_readFileBytes_refines mem_readdir_refines mem_stat_refines
      mem_exists_refines mem_access_refines mem_lstat_def)

lemma mem_run_inv: "mem_inv m \<Longrightarrow> mem_inv (be_run MemFSBackend xs m)"
  by (induction xs arbitrary: m) (simp_all add: mem_effect_inv)

lemma mem_ctor_inv: "mem_inv (MemFSBackend_ctor time)"
proof -
  have "isDir (new_stat 1 root_mode t)" for t by (simp add: isDir_def root_mode_def)
  then show ?thesis
    by (simp add: MemFSBackend_ctor_def nowMs_def mem_inv_def node_ok_def map_keys_def)
qed

text \<open>
  A world of in-memory backends, one per pointer: the router's interface holds, with the whole
  state of the object as what it stores.
\<close>

interpretation mem_family: backend_family "object_family MemFSBackend" "\<lambda>i w. w i"
  by unfold_locales (simp_all add: object_family_effect mem_query_keeps)

end
