(* ===== verification/MemProps.thy ===== *)
theory MemProps
  imports MemInv
begin

text \<open>
  The properties of the in-memory backend, each over every state that a sequence of calls can
  reach from the constructor, and of the router over several such backends.
\<close>

definition mem_after :: "(nat \<Rightarrow> u64) \<Rightarrow> vfs_op list \<Rightarrow> memfs" where
  "mem_after time xs = be_run MemFSBackend xs (MemFSBackend_ctor time)"

lemma mem_after_inv: "mem_inv (mem_after time xs)"
  by (simp add: mem_after_def mem_run_inv mem_ctor_inv)

text \<open>
  C6. Every state that calls of the sixteen methods, with arbitrary path strings, can reach is a
  tree of sorted directories and of regular files without children whose recorded size is their
  length, rooted in a directory, with names that the path splitter can produce. The queries
  change nothing, the clock and the inode counter included.
\<close>

theorem mem_state_invariant:
  "mem_inv (mem_after time xs) \<and>
   (is_query x \<longrightarrow> be_effect MemFSBackend x (mem_after time xs) = mem_after time xs)"
  by (simp add: mem_after_inv mem_query_keeps)

theorem mem_state_invariant_witness:
  "be_effect MemFSBackend (OpStat ''/f'') (mem_after (\<lambda>i. 7) [OpWriteFile ''/f'' [1, 2]]) =
     mem_after (\<lambda>i. 7) [OpWriteFile ''/f'' [1, 2]]"
  using mem_state_invariant [of "\<lambda>i. 7" "[OpWriteFile ''/f'' [1, 2]]" "OpStat ''/f''"] by simp

text \<open>
  C7. \<open>writeFile\<close> and \<open>appendFile\<close> on every branch: a directory or the root is EISDIR, a missing
  parent ENOENT, a file as parent ENOTDIR; otherwise exactly the entry of the path changes.
  \<open>writeFile\<close> sets the given bytes and their length, with a fresh inode and mode 0644 if the file
  was not there, and with only size and mtime changed in its \<open>Stat\<close> if it was; \<open>appendFile\<close> extends
  content and size, and makes a missing file as \<open>writeFile\<close> does, after reading the clock twice.
\<close>

theorem mem_write_append_spec:
  "map_prod id abs_of (mem_writeFile path data (mem_after time xs)) =
     a_write (splitPath path) data (abs_of (mem_after time xs)) \<and>
   map_prod id abs_of (mem_appendFile path data (mem_after time xs)) =
     a_append (splitPath path) data (abs_of (mem_after time xs))"
  by (rule conjI [OF mem_write_refines [OF mem_after_inv] mem_append_refines [OF mem_after_inv]])

text \<open>
  C8. \<open>unlink\<close>, \<open>rmdir\<close> and \<open>mkdir\<close> on every branch. Of the first two, exactly one entry disappears; a
  directory with entries is ENOTEMPTY for both, the root is EACCES, a file is ENOTDIR for \<open>rmdir\<close>;
  \<open>unlink\<close> also removes an empty directory. The plain \<open>mkdir\<close> adds one empty directory or reports
  EEXIST, ENOENT, ENOTDIR; the recursive one makes every missing directory of the path, numbered and
  dated from the top down, sets the mode of the last one even if it was there, and changes nothing at
  all when a file is in the way (ENOTDIR).
\<close>

theorem mem_entries_spec:
  "map_prod id abs_of (mem_unlink path (mem_after time xs)) =
     a_unlink (splitPath path) (abs_of (mem_after time xs)) \<and>
   map_prod id abs_of (mem_rmdir path (mem_after time xs)) =
     a_rmdir (splitPath path) (abs_of (mem_after time xs)) \<and>
   map_prod id abs_of (mem_mkdir path recursive mode (mem_after time xs)) =
     (if recursive then a_mkdirs (splitPath path) mode (abs_of (mem_after time xs))
      else a_mkdir (splitPath path) mode (abs_of (mem_after time xs)))"
  by (simp add: mem_unlink_refines mem_rmdir_refines mem_mkdir_refines mem_mkdirs_refines mem_after_inv)

text \<open>
  C9. \<open>rename\<close> between the canonical paths that the router hands on: the whole subtree of the
  old path appears at the new one, replacing a file or an empty directory, and nothing else
  changes; a directory is never moved below itself (EINVAL).
\<close>

theorem mem_rename_spec:
  assumes "canonical_path old" and "canonical_path new"
  shows "map_prod id abs_of (mem_rename old new (mem_after time xs)) =
     a_rename (comps old) (comps new) (abs_of (mem_after time xs))"
  by (rule mem_rename_refines [OF mem_after_inv assms])

theorem mem_rename_spec_witness:
  "fst (mem_rename ''/a'' ''/b'' (mem_after (\<lambda>i. 7) [OpMkdir ''/a'' False 0, OpWriteFile ''/a/f'' [1]])) =
     Inr ()"
proof -
  let ?m = "mem_after (\<lambda>i. 7) [OpMkdir ''/a'' False 0, OpWriteFile ''/a/f'' [1]]"
  have "canonical_path ''/a''" "canonical_path ''/b''"
    unfolding canonical_iff by code_simp+
  note r = mem_rename_spec [OF this, of "\<lambda>i. 7" "[OpMkdir ''/a'' False 0, OpWriteFile ''/a/f'' [1]]"]
  have c: "comps ''/a'' = [''a'']" "comps ''/b'' = [''b'']" by code_simp+
  have v: "view (m_root ?m) [''a''] \<noteq> None" "view (m_root ?m) [''b''] = None"
    "view (m_root ?m) [] \<noteq> None" "case view (m_root ?m) [] of Some (st, _) \<Rightarrow> isDir st | None \<Rightarrow> False"
    by code_simp+
  have "fst (a_rename [''a''] [''b''] (abs_of ?m)) = Inr ()"
    using v by (auto simp: a_rename_def a_parent_def split: option.splits)
  with r c show ?thesis by (metis fst_map_prod id_apply)
qed

text \<open>
  C10. \<open>copyFile\<close> inside one backend: the target becomes a copy of the source's content and \<open>Stat\<close>
  with a fresh inode, nothing else changes; a directory as source or target is EISDIR. \<open>truncate\<close> cuts
  a file or fills it with zero bytes up to the new size, rejecting a negative size; \<open>utimes\<close> sets the
  two times of a file or directory; both stamp \<open>ctimeMs\<close> and touch no other entry.
\<close>

theorem mem_file_spec:
  "map_prod id abs_of (mem_copyFile src dst (mem_after time xs)) =
     a_copy (splitPath src) (splitPath dst) (abs_of (mem_after time xs)) \<and>
   map_prod id abs_of (mem_truncate path sz (mem_after time xs)) =
     a_truncate (splitPath path) sz (abs_of (mem_after time xs)) \<and>
   map_prod id abs_of (mem_utimes path at mt (mem_after time xs)) =
     a_utimes (splitPath path) at mt (abs_of (mem_after time xs))"
  by (simp add: mem_copyFile_refines mem_truncate_refines mem_utimes_refines mem_after_inv)

text \<open>
  C11. The queries read the map: content, \<open>Stat\<close>, existence, the names of a directory in
  ascending order without repetition, and the owner bits of the mode for \<open>access\<close>.
\<close>

theorem mem_query_spec:
  "mem_readFileBytes path (mem_after time xs) =
     (a_read (splitPath path) (abs_of (mem_after time xs)), mem_after time xs) \<and>
   mem_readFile path (mem_after time xs) =
     (map_sum id string_of_bytes (a_read (splitPath path) (abs_of (mem_after time xs))), mem_after time xs) \<and>
   mem_readdir path (mem_after time xs) =
     (a_readdir (splitPath path) (abs_of (mem_after time xs)), mem_after time xs) \<and>
   mem_stat path (mem_after time xs) =
     (a_stat (splitPath path) (abs_of (mem_after time xs)), mem_after time xs) \<and>
   mem_lstat path (mem_after time xs) = mem_stat path (mem_after time xs) \<and>
   mem_exists path (mem_after time xs) =
     (a_fs (abs_of (mem_after time xs)) (splitPath path) \<noteq> None, mem_after time xs) \<and>
   mem_access path mode (mem_after time xs) =
     (a_access (splitPath path) mode (abs_of (mem_after time xs)), mem_after time xs)"
  by (simp add: mem_readFileBytes_refines mem_readFile_refines mem_readdir_refines mem_stat_refines
      mem_exists_refines mem_access_refines mem_after_inv mem_lstat_def split: sum.split)

lemma a_write_read:
  "case a_write parts data a of
      (Inr _, a') \<Rightarrow> a_read parts a' = Inr data \<and> (\<forall>q. q \<noteq> parts \<longrightarrow> a_read q a' = a_read q a)
    | (Inl _, a') \<Rightarrow> \<forall>q. a_read q a' = a_read q a"
proof -
  have "isDir (new_stat i file_mode t) = False" for i t
    by (simp add: isDir_def file_mode_def)
  moreover have "isDir (s\<lparr>st_size := k, st_mtimeMs := t\<rparr>) = isDir s" for s k t
    by (simp add: isDir_def)
  ultimately show ?thesis
    by (auto simp: a_write_def a_read_def abs_defs split: option.split)
qed

lemma write_read:
  assumes "mem_inv m"
  shows "case mem_writeFile path data m of
      (Inr _, m') \<Rightarrow> (\<forall>q. splitPath q = splitPath path \<longrightarrow> mem_readFileBytes q m' = (Inr data, m')) \<and>
        (\<forall>q. splitPath q \<noteq> splitPath path \<longrightarrow>
           fst (mem_readFileBytes q m') = fst (mem_readFileBytes q m))
    | (Inl _, m') \<Rightarrow> \<forall>q. fst (mem_readFileBytes q m') = fst (mem_readFileBytes q m)"
proof -
  obtain r m' where w: "mem_writeFile path data m = (r, m')" by fastforce
  have inv: "mem_inv m'" using mem_write_inv [OF assms, of path data] w by simp
  have "a_write (splitPath path) data (abs_of m) = (r, abs_of m')"
    using mem_write_refines [OF assms, of path data] w by simp
  then show ?thesis
    using a_write_read [where parts = "splitPath path" and data = data and a = "abs_of m"]
    by (simp add: w mem_readFileBytes_refines inv assms split: sum.splits)
qed

text \<open>
  C12. Reading after writing: a successful \<open>writeFile\<close> makes \<open>readFileBytes\<close> return exactly the
  bytes, for every path that has the same segments, however it is spelt, and what every path with
  other segments reads is unchanged; after a failed one all paths read as before.
\<close>

theorem mem_write_then_read:
  "case mem_writeFile path data (mem_after time xs) of
      (Inr _, m') \<Rightarrow> (\<forall>q. splitPath q = splitPath path \<longrightarrow> mem_readFileBytes q m' = (Inr data, m')) \<and>
        (\<forall>q. splitPath q \<noteq> splitPath path \<longrightarrow>
           fst (mem_readFileBytes q m') = fst (mem_readFileBytes q (mem_after time xs)))
    | (Inl _, m') \<Rightarrow>
        \<forall>q. fst (mem_readFileBytes q m') = fst (mem_readFileBytes q (mem_after time xs))"
  by (rule write_read [OF mem_after_inv])

theorem mem_write_then_read_witness:
  "fst (mem_readFileBytes ''/g'' (snd (mem_writeFile ''/f'' [9] (mem_after (\<lambda>i. 7) [OpWriteFile ''/g'' [1, 2]])))) =
     Inr [1, 2] \<and>
   fst (mem_readFileBytes ''//f/'' (snd (mem_writeFile ''/f'' [9] (mem_after (\<lambda>i. 7) [OpWriteFile ''/g'' [1, 2]])))) = Inr [9]"
proof -
  let ?m = "mem_after (\<lambda>i. 7) [OpWriteFile ''/g'' [1, 2]]"
  have "splitPath ''/g'' \<noteq> splitPath ''/f''" "splitPath ''//f/'' = splitPath ''/f''" by code_simp+
  moreover have "\<not> isl (fst (mem_writeFile ''/f'' [9] ?m))" by code_simp
  moreover have "fst (mem_readFileBytes ''/g'' ?m) = Inr [1, 2]" by code_simp
  ultimately show ?thesis
    using mem_write_then_read [where time = "\<lambda>i. 7" and xs = "[OpWriteFile ''/g'' [1, 2]]" and path = "''/f''" and data = "[9]"]
    by (auto simp: split_beta split: sum.splits)
qed

section \<open>The router over in-memory backends\<close>

abbreviation mem_objects :: "(nat \<Rightarrow> memfs) backends" where
  "mem_objects \<equiv> object_family MemFSBackend"

lemma fam_read: "be_readFileBytes (mem_objects i) p w = (fst (mem_readFileBytes p (w i)), w)"
  if "mem_inv (w i)"
  using that mem_readFileBytes_refines [OF that, of p]
  by (simp add: object_family_def at_object_def MemFSBackend_def Let_def split_beta)

lemma fam_write: "be_writeFile (mem_objects i) p data w =
    (let (r, m) = mem_writeFile p data (w i) in (r, w(i := m)))"
  by (simp add: object_family_def at_object_def MemFSBackend_def Let_def split_beta)

text \<open>
  C13. Over in-memory backends: \<open>copyFile\<close> across two of them, of paths that resolve with the rights to
  read and to write, gives the target the bytes the source reads and touches no
  backend but the target's; if it fails, no file of the target backend reads differently.
  \<open>rename\<close> across them, when the source grants writing, is refused with EXDEV and changes nothing.
\<close>

theorem vfs_across_backends:
  assumes "vfs_resolve v src perm_Read = Inr s" and "vfs_resolve v dst perm_Write = Inr d"
    and "res_backend s \<noteq> res_backend d" and "w = (\<lambda>i. mem_after (time i) (hist i))"
  shows "(case vfs_copyFile mem_objects v src dst w of
      (Inr _, w') \<Rightarrow> (\<exists>m. w' = w(res_backend d := m) \<and>
        fst (mem_readFileBytes (res_subPath d) m) =
        fst (mem_readFileBytes (res_subPath s) (w (res_backend s))))
    | (Inl _, w') \<Rightarrow> (\<exists>m. w' = w(res_backend d := m) \<and>
        (\<forall>q. fst (mem_readFileBytes q m) = fst (mem_readFileBytes q (w (res_backend d)))))) \<and>
    (vfs_resolve v src perm_Write = Inr s \<longrightarrow> vfs_rename mem_objects v src dst w = (Inl EXDEV, w))"
proof -
  have inv: "mem_inv (w i)" for i by (simp add: assms(4) mem_after_inv)
  show ?thesis
  proof (cases "fst (mem_readFileBytes (res_subPath s) (w (res_backend s)))")
    case (Inl e)
    have "w = w(res_backend d := w (res_backend d))" by simp
    then show ?thesis
      using assms(1-3) Inl by (auto simp: vfs_copyFile_def vfs_rename_def fam_read inv intro!: exI [of _ "w (res_backend d)"])
  next
    case (Inr data)
    obtain r m where w: "mem_writeFile (res_subPath d) data (w (res_backend d)) = (r, m)" by fastforce
    show ?thesis
      using assms(1-3) Inr w write_read [OF inv [of "res_backend d"], of "res_subPath d" data]
      by (auto simp: vfs_copyFile_def vfs_rename_def fam_read inv fam_write split: sum.splits)
  qed
qed

theorem vfs_across_backends_witness:
  "fst (vfs_rename mem_objects \<lparr>m_mounts = [MountEntry ''/a'' 3 0, MountEntry ''/b'' 3 1]\<rparr> ''/a/f'' ''/b/g''
     (\<lambda>i. mem_after (\<lambda>i. 7) [])) = Inl EXDEV"
proof -
  let ?v = "\<lparr>m_mounts = [MountEntry ''/a'' 3 0, MountEntry ''/b'' 3 1]\<rparr>"
  have "vfs_resolve ?v ''/a/f'' perm_Read = Inr \<lparr>res_backend = 0, res_subPath = ''/f''\<rparr>"
    "vfs_resolve ?v ''/b/g'' perm_Write = Inr \<lparr>res_backend = 1, res_subPath = ''/g''\<rparr>"
    and w: "vfs_resolve ?v ''/a/f'' perm_Write = Inr \<lparr>res_backend = 0, res_subPath = ''/f''\<rparr>"
    by code_simp+
  from vfs_across_backends [OF this(1,2) _ refl, of "\<lambda>i i. 7" "\<lambda>i. []"] w show ?thesis by simp
qed

end
