(* ===== verification/HostFS.thy ===== *)
theory HostFS
  imports VfsTypes VfsPath "HOL-Library.AList"
begin

text \<open>
  The part of \<open>std::filesystem\<close>, of the file streams and of the POSIX file system under them
  that \<^verbatim>\<open>sandboxed-fs/src/vfs_real.cpp\<close> uses: absolute paths as lists of elements, a table of
  directory entries with symbolic links, path resolution with the limit of forty links, and the
  library functions on top of it, as libstdc++ implements them.

  Left out: hard links (two names of one file), permission checks of the host, other processes,
  embedded NUL characters. An entry's permissions are the low nine bits of its mode, and the
  times are milliseconds of the system clock.
\<close>

unbundle bit_operations_syntax

section \<open>Entries and paths\<close>

datatype file_type = Ft_none | Ft_not_found | Ft_regular | Ft_directory | Ft_symlink | Ft_block
  | Ft_character | Ft_fifo | Ft_socket

datatype special = Sp_block | Sp_character | Sp_fifo | Sp_socket

text \<open>The elements of an absolute path below the root directory; a final empty one is a slash.\<close>

type_synonym fs_path = "string list"

datatype hkind =
    HFile bytes
  | HDir
  | HLink bool fs_path   \<comment> \<open>absolute or not, and the elements of the target\<close>
  | HSpecial special

record hentry =
  he_kind :: hkind
  he_perms :: u32
  he_nlink :: nat
  he_mtime :: int

record host =
  h_tree :: "(fs_path \<times> hentry) list"
  h_now :: int
  h_umask :: u32
  h_epoch :: int      \<comment> \<open>zero of \<open>file_time_type::clock\<close> in milliseconds of the system clock\<close>
  h_space :: nat      \<comment> \<open>bytes the device still takes\<close>
  h_bufsz :: nat      \<comment> \<open>writes below this size stay in the stream buffer until it closes\<close>
  h_badread :: "fs_path list"   \<comment> \<open>files whose sectors cannot be read\<close>

definition root_entry :: hentry where
  "root_entry = \<lparr>he_kind = HDir, he_perms = 0x1FF, he_nlink = 1, he_mtime = 0\<rparr>"

definition hlook :: "host \<Rightarrow> fs_path \<Rightarrow> hentry option" where
  "hlook h p = (if p = [] then Some root_entry else map_of (h_tree h) p)"

definition hset :: "fs_path \<Rightarrow> hentry \<Rightarrow> host \<Rightarrow> host" where
  "hset p e h = h\<lparr>h_tree := AList.update p e (h_tree h)\<rparr>"

definition hdel :: "fs_path \<Rightarrow> host \<Rightarrow> host" where
  "hdel p h = h\<lparr>h_tree := AList.delete p (h_tree h)\<rparr>"

definition kind_at :: "host \<Rightarrow> fs_path \<Rightarrow> hkind option" where
  "kind_at h p = map_option he_kind (hlook h p)"

fun type_of_kind :: "hkind \<Rightarrow> file_type" where
  "type_of_kind (HFile _) = Ft_regular"
| "type_of_kind HDir = Ft_directory"
| "type_of_kind (HLink _ _) = Ft_symlink"
| "type_of_kind (HSpecial Sp_block) = Ft_block"
| "type_of_kind (HSpecial Sp_character) = Ft_character"
| "type_of_kind (HSpecial Sp_fifo) = Ft_fifo"
| "type_of_kind (HSpecial Sp_socket) = Ft_socket"

definition plain :: "string \<Rightarrow> bool" where
  "plain c \<longleftrightarrow> c \<noteq> '''' \<and> c \<noteq> ''.'' \<and> c \<noteq> ''..''"

section \<open>Path resolution\<close>

text \<open>
  \<open>namei h n cur todo\<close> walks the elements \<open>todo\<close> from the directory \<open>cur\<close>, following at most \<open>n\<close>
  links: it arrives, or finds the first element that is missing (with the directory it is
  missing in and the elements after it), or fails. Arriving reports the links still allowed.
\<close>

datatype walked = Found fs_path nat | Missing fs_path string fs_path | Failed errno

function namei :: "host \<Rightarrow> nat \<Rightarrow> fs_path \<Rightarrow> fs_path \<Rightarrow> walked" where
  "namei h n cur [] = Found cur n"
| "namei h n cur (c # todo) =
     (if c = '''' \<or> c = ''.'' then namei h n cur todo
      else if c = ''..'' then namei h n (butlast cur) todo
      else (case kind_at h (cur @ [c]) of
              None \<Rightarrow> Missing cur c todo
            | Some HDir \<Rightarrow> namei h n (cur @ [c]) todo
            | Some (HLink ab t) \<Rightarrow>
                (case n of
                   0 \<Rightarrow> Failed ELOOP
                 | Suc k \<Rightarrow> namei h k (if ab then [] else cur) (t @ todo))
            | Some _ \<Rightarrow> if todo = [] then Found (cur @ [c]) n else Failed ENOTDIR))"
  by pat_completeness auto

termination
  by (relation "measures [\<lambda>(h, n, cur, todo). n, \<lambda>(h, n, cur, todo). length todo]") auto

definition max_links :: nat where "max_links = 40"

text \<open>The last element is not followed: the directory and name that a path denotes.\<close>

definition strip_slash :: "fs_path \<Rightarrow> fs_path" where
  "strip_slash p = (if p \<noteq> [] \<and> last p = '''' then butlast p else p)"

definition place :: "host \<Rightarrow> fs_path \<Rightarrow> fs_path expected" where
  "place h p =
     (if p = [] then Inl EBUSY
      else case namei h max_links [] (butlast p) of
        Missing _ _ _ \<Rightarrow> Inl ENOENT
      | Failed e \<Rightarrow> Inl e
      | Found d _ \<Rightarrow>
          if kind_at h d \<noteq> Some HDir then Inl ENOTDIR
          else if \<not> plain (last p) then Inl EINVAL
          else Inr (d @ [last p]))"

section \<open>Queries of std::filesystem\<close>

text \<open>\<open>status\<close> reports the type and, for anything but a hit, the error code.\<close>

record fstatus =
  fs_type :: file_type
  fs_perms :: u32

definition status_of :: "hentry \<Rightarrow> fstatus" where
  "status_of e = \<lparr>fs_type = type_of_kind (he_kind e), fs_perms = he_perms e\<rparr>"

fun not_found :: "errno \<Rightarrow> fstatus" where
  "not_found e = \<lparr>fs_type = (if e = ENOENT \<or> e = ENOTDIR then Ft_not_found else Ft_none), fs_perms = 0\<rparr>"

definition fs_canonical :: "host \<Rightarrow> fs_path \<Rightarrow> fs_path expected" where
  "fs_canonical h p =
     (case namei h max_links [] p of
        Found q _ \<Rightarrow> Inr q
      | Missing _ _ _ \<Rightarrow> Inl ENOENT
      | Failed e \<Rightarrow> Inl e)"

definition fs_status :: "host \<Rightarrow> fs_path \<Rightarrow> fstatus \<times> errno option" where
  "fs_status h p =
     (case fs_canonical h p of
        Inl e \<Rightarrow> (not_found e, Some e)
      | Inr q \<Rightarrow>
          (case hlook h q of
             None \<Rightarrow> (not_found ENOENT, Some ENOENT)
           | Some e \<Rightarrow> (status_of e, None)))"

definition fs_symlink_status :: "host \<Rightarrow> fs_path \<Rightarrow> fstatus \<times> errno option" where
  "fs_symlink_status h p =
     (if p = [] \<or> \<not> plain (last p) then fs_status h p
      else case place h p of
        Inl e \<Rightarrow> (not_found e, Some e)
      | Inr q \<Rightarrow>
          (case hlook h q of
             None \<Rightarrow> (not_found ENOENT, Some ENOENT)
           | Some e \<Rightarrow> (status_of e, None)))"

definition st_exists :: "fstatus \<Rightarrow> bool" where
  "st_exists s \<longleftrightarrow> fs_type s \<noteq> Ft_none \<and> fs_type s \<noteq> Ft_not_found"

definition status_known :: "fstatus \<Rightarrow> bool" where
  "status_known s \<longleftrightarrow> fs_type s \<noteq> Ft_none"

definition is_symlink :: "fstatus \<Rightarrow> bool" where "is_symlink s \<longleftrightarrow> fs_type s = Ft_symlink"
definition is_directory :: "fstatus \<Rightarrow> bool" where "is_directory s \<longleftrightarrow> fs_type s = Ft_directory"

definition fs_read_symlink :: "host \<Rightarrow> fs_path \<Rightarrow> (bool \<times> fs_path) expected" where
  "fs_read_symlink h p =
     (case place h p of
        Inl e \<Rightarrow> Inl e
      | Inr q \<Rightarrow>
          (case kind_at h q of
             None \<Rightarrow> Inl ENOENT
           | Some (HLink ab t) \<Rightarrow> Inr (ab, t)
           | Some _ \<Rightarrow> Inl EINVAL))"

definition lexically_normal :: "fs_path \<Rightarrow> fs_path" where
  "lexically_normal p =
     (let q = foldl push_part [] p
      in if q \<noteq> [] \<and> p \<noteq> [] \<and> \<not> plain (last p) then q @ [''''] else q)"

fun strip_common :: "'a list \<Rightarrow> 'a list \<Rightarrow> 'a list \<times> 'a list" where
  "strip_common (x # xs) (y # ys) = (if x = y then strip_common xs ys else (x # xs, y # ys))"
| "strip_common xs ys = (xs, ys)"

definition lexically_relative :: "fs_path \<Rightarrow> fs_path \<Rightarrow> fs_path" where
  "lexically_relative p base =
     (let (a, b) = strip_common p base
      in if a = [] \<and> b = [] then [''.'']
         else
           let n = int (length (filter plain b)) - int (length (filter (\<lambda>c. c = ''..'') b))
           in if n = 0 \<and> (a = [] \<or> hd a = '''') then [''.'']
              else if n < 0 then []
              else replicate (nat n) ''..'' @ a)"

text \<open>The leading elements that exist, as \<open>weakly_canonical\<close> looks for them.\<close>

fun leading :: "host \<Rightarrow> fs_path \<Rightarrow> fs_path \<Rightarrow> (fs_path \<times> fs_path) expected" where
  "leading h acc [] = Inr (acc, [])"
| "leading h acc (c # cs) =
     (case fs_status h (acc @ [c]) of
        (st, ec) \<Rightarrow>
          if st_exists st then leading h (acc @ [c]) cs
          else if status_known st then Inr (acc, c # cs)
          else Inl (the ec))"

definition fs_weakly_canonical :: "host \<Rightarrow> fs_path \<Rightarrow> fs_path expected" where
  "fs_weakly_canonical h p =
     (case fs_status h p of
        (st, ec) \<Rightarrow>
          if st_exists st then fs_canonical h p
          else if \<not> status_known st then Inl (the ec)
          else
            (case leading h [] p of
               Inl e \<Rightarrow> Inl e
             | Inr (pre, rest) \<Rightarrow>
                 (case fs_canonical h pre of
                    Inl e \<Rightarrow> Inl e
                  | Inr r \<Rightarrow> Inr (lexically_normal (r @ rest)))))"

definition fs_file_size :: "host \<Rightarrow> fs_path \<Rightarrow> nat expected" where
  "fs_file_size h p =
     (case fs_canonical h p of
        Inl e \<Rightarrow> Inl e
      | Inr q \<Rightarrow>
          (case kind_at h q of
             None \<Rightarrow> Inl ENOENT
           | Some (HFile d) \<Rightarrow> Inr (length d)
           | Some HDir \<Rightarrow> Inl EISDIR
           | Some _ \<Rightarrow> Inl ENOTSUP))"

definition fs_entry :: "host \<Rightarrow> fs_path \<Rightarrow> hentry expected" where
  "fs_entry h p =
     (case fs_canonical h p of
        Inl e \<Rightarrow> Inl e
      | Inr q \<Rightarrow> (case hlook h q of None \<Rightarrow> Inl ENOENT | Some e \<Rightarrow> Inr e))"

text \<open>\<open>directory_iterator\<close>: the names in the order of the table.\<close>

definition h_children :: "host \<Rightarrow> fs_path \<Rightarrow> string list" where
  "h_children h q =
     map last (filter (\<lambda>p. p \<noteq> [] \<and> butlast p = q) (map fst (h_tree h)))"

definition fs_directory :: "host \<Rightarrow> fs_path \<Rightarrow> string list expected" where
  "fs_directory h p =
     (case fs_canonical h p of
        Inl e \<Rightarrow> Inl e
      | Inr q \<Rightarrow> if kind_at h q = Some HDir then Inr (h_children h q) else Inl ENOTDIR)"

section \<open>Changes through std::filesystem\<close>

definition new_entry :: "hkind \<Rightarrow> u32 \<Rightarrow> host \<Rightarrow> hentry" where
  "new_entry k perms h =
     \<lparr>he_kind = k, he_perms = perms AND NOT (h_umask h), he_nlink = 1, he_mtime = h_now h\<rparr>"

definition fs_remove :: "host \<Rightarrow> fs_path \<Rightarrow> errno option \<times> host" where
  "fs_remove h p =
     (case place h p of
        Inl e \<Rightarrow> (if e = ENOENT then None else Some e, h)
      | Inr q \<Rightarrow>
          (case kind_at h q of
             None \<Rightarrow> (None, h)
           | Some HDir \<Rightarrow> if h_children h q \<noteq> [] then (Some ENOTEMPTY, h) else (None, hdel q h)
           | Some _ \<Rightarrow> (None, hdel q h)))"

definition fs_create_directory :: "host \<Rightarrow> fs_path \<Rightarrow> errno option \<times> host" where
  "fs_create_directory h p =
     (case place h (strip_slash p) of
        Inl e \<Rightarrow>
          (if e = EBUSY then None else Some e, h)   \<comment> \<open>mkdir of the root: EEXIST, a directory\<close>
      | Inr q \<Rightarrow>
          (case hlook h q of
             None \<Rightarrow> (None, hset q (new_entry HDir 0x1FF h) h)
           | Some _ \<Rightarrow>
               if is_directory (fst (fs_status h p)) then (None, h) else (Some EEXIST, h)))"

text \<open>The directories to make, from the deepest existing one downwards.\<close>

fun missing_dirs :: "host \<Rightarrow> fs_path \<Rightarrow> nat \<Rightarrow> fs_path list expected" where
  "missing_dirs h p 0 = Inr []"
| "missing_dirs h p (Suc n) =
     (case fs_status h (take n p) of
        (st, ec) \<Rightarrow>
          if st_exists st then
            (if is_directory st then Inr [take (Suc n) p] else Inl ENOTDIR)
          else if \<not> status_known st then Inl (the ec)
          else (case missing_dirs h p n of
                  Inl e \<Rightarrow> Inl e
                | Inr ps \<Rightarrow> Inr (ps @ [take (Suc n) p])))"

fun create_all :: "fs_path list \<Rightarrow> host \<Rightarrow> errno option \<times> host" where
  "create_all [] h = (None, h)"
| "create_all (p # ps) h =
     (case fs_create_directory h p of
        (Some e, h') \<Rightarrow> (Some e, h')
      | (None, h') \<Rightarrow> create_all ps h')"

definition fs_create_directories :: "host \<Rightarrow> fs_path \<Rightarrow> errno option \<times> host" where
  "fs_create_directories h p =
     (case fs_status h p of
        (st, ec) \<Rightarrow>
          if is_directory st then (None, h)
          else if \<not> status_known st then (ec, h)
          else if st_exists st then (Some ENOTDIR, h)
          else
            (case missing_dirs h (strip_slash p) (length (strip_slash p)) of
               Inl e \<Rightarrow> (Some e, h)
             | Inr ps \<Rightarrow> create_all ps h))"

definition fs_permissions :: "host \<Rightarrow> fs_path \<Rightarrow> u32 \<Rightarrow> errno option \<times> host" where
  "fs_permissions h p perms =
     (case fs_canonical h p of
        Inl e \<Rightarrow> (Some e, h)
      | Inr q \<Rightarrow>
          (case hlook h q of
             None \<Rightarrow> (Some ENOENT, h)
           | Some e \<Rightarrow> (None, hset q (e\<lparr>he_perms := perms\<rparr>) h)))"

text \<open>The entries at and below \<open>old\<close> get names below \<open>new\<close>; those at and below \<open>new\<close> are gone.\<close>

definition move_tree :: "fs_path \<Rightarrow> fs_path \<Rightarrow> host \<Rightarrow> host" where
  "move_tree old new h = h\<lparr>h_tree :=
     map (\<lambda>(p, e). if prefix old p then (new @ drop (length old) p, e) else (p, e))
       (filter (\<lambda>(p, e). \<not> prefix new p) (h_tree h))\<rparr>"

definition fs_rename :: "host \<Rightarrow> fs_path \<Rightarrow> fs_path \<Rightarrow> errno option \<times> host" where
  "fs_rename h old new =
     (case (place h (strip_slash old), place h (strip_slash new)) of
        (Inl e, _) \<Rightarrow> (Some e, h)
      | (_, Inl e) \<Rightarrow> (Some e, h)
      | (Inr a, Inr b) \<Rightarrow>
          (case kind_at h a of
             None \<Rightarrow> (Some ENOENT, h)
           | Some k \<Rightarrow>
               if a = b then (None, h)
               else if prefix a b then (Some EINVAL, h)
               else if prefix b a then (Some ENOTEMPTY, h)
               else if k = HDir then
                 (case kind_at h b of
                    None \<Rightarrow> (None, move_tree a b h)
                  | Some HDir \<Rightarrow>
                      if h_children h b \<noteq> [] then (Some ENOTEMPTY, h) else (None, move_tree a b h)
                  | Some _ \<Rightarrow> (Some ENOTDIR, h))
               else if strip_slash new \<noteq> new then (Some ENOTDIR, h)
               else if kind_at h b = Some HDir then (Some EISDIR, h)
               else (None, move_tree a b h)))"

definition fs_copy_file :: "host \<Rightarrow> fs_path \<Rightarrow> fs_path \<Rightarrow> errno option \<times> host" where
  "fs_copy_file h src dst =
     (case fs_status h dst of
        (t, ec) \<Rightarrow>
          if \<not> status_known t then (ec, h)
          else
            (case fs_entry h src of
               Inl e \<Rightarrow> (Some e, h)
             | Inr e \<Rightarrow>
                 if st_exists t then (Some EEXIST, h)
                 else
                   (case he_kind e of
                      HFile d \<Rightarrow>
                        (case place h dst of
                           Inl x \<Rightarrow> (Some x, h)
                         | Inr q \<Rightarrow>
                             if hlook h q \<noteq> None then (Some EEXIST, h)
                             else (None, hset q ((new_entry (HFile d) 0x1FF h)\<lparr>he_perms := he_perms e\<rparr>) h))
                    | _ \<Rightarrow> (Some ENOTSUP, h))))"

definition resize_data :: "nat \<Rightarrow> bytes \<Rightarrow> bytes" where
  "resize_data n d = take n d @ replicate (n - length d) 0"

definition fs_resize_file :: "host \<Rightarrow> fs_path \<Rightarrow> nat \<Rightarrow> errno option \<times> host" where
  "fs_resize_file h p n =
     (case fs_canonical h p of
        Inl e \<Rightarrow> (Some e, h)
      | Inr q \<Rightarrow>
          (case hlook h q of
             None \<Rightarrow> (Some ENOENT, h)
           | Some e \<Rightarrow>
               (case he_kind e of
                  HFile d \<Rightarrow>
                    (None, hset q (e\<lparr>he_kind := HFile (resize_data n d), he_mtime := h_now h\<rparr>) h)
                | HDir \<Rightarrow> (Some EISDIR, h)
                | _ \<Rightarrow> (Some EINVAL, h))))"

text \<open>The argument counts from the zero of the file clock.\<close>

definition fs_set_last_write_time :: "host \<Rightarrow> fs_path \<Rightarrow> int \<Rightarrow> errno option \<times> host" where
  "fs_set_last_write_time h p t =
     (case fs_canonical h p of
        Inl e \<Rightarrow> (Some e, h)
      | Inr q \<Rightarrow>
          (case hlook h q of
             None \<Rightarrow> (Some ENOENT, h)
           | Some e \<Rightarrow> (None, hset q (e\<lparr>he_mtime := t + h_epoch h\<rparr>) h)))"

definition fs_last_write_time :: "host \<Rightarrow> fs_path \<Rightarrow> int expected" where
  "fs_last_write_time h p = map_sum id (\<lambda>e. he_mtime e - h_epoch h) (fs_entry h p)"

section \<open>File streams\<close>

text \<open>
  Opening for input with the position at the end succeeds on a regular file. A directory and a
  special file do not open: some platforms open them, and some file systems can seek their end,
  but that is left out.
\<close>

definition open_in :: "host \<Rightarrow> fs_path \<Rightarrow> (fs_path \<times> bytes) option" where
  "open_in h p =
     (case fs_canonical h p of
        Inl _ \<Rightarrow> None
      | Inr q \<Rightarrow> (case kind_at h q of Some (HFile d) \<Rightarrow> Some (q, d) | _ \<Rightarrow> None))"

text \<open>Opening for output: an existing file is kept or cut, a missing last element is created.\<close>

definition open_out :: "bool \<Rightarrow> host \<Rightarrow> fs_path \<Rightarrow> (fs_path \<times> host) option" where
  "open_out trunc h p =
     (case namei h max_links [] p of
        Failed _ \<Rightarrow> None
      | Missing d c todo \<Rightarrow>
          if todo = [] then Some (d @ [c], hset (d @ [c]) (new_entry (HFile []) 0x1B6 h) h) else None
      | Found q _ \<Rightarrow>
          (case hlook h q of
             Some e \<Rightarrow>
               (case he_kind e of
                  HFile d \<Rightarrow>
                    Some (q, if trunc then hset q (e\<lparr>he_kind := HFile [], he_mtime := h_now h\<rparr>) h else h)
                | _ \<Rightarrow> None)
           | None \<Rightarrow> None))"

text \<open>
  Writing at the end of the open file and closing it: the device takes what it has space for.
  A small write stays in the buffer, so the stream still looks good; what is lost when the
  buffer is flushed on closing is not reported.
\<close>

definition stream_write :: "fs_path \<Rightarrow> bytes \<Rightarrow> host \<Rightarrow> bool \<times> host" where
  "stream_write q data h =
     (case hlook h q of
        Some e \<Rightarrow>
          (case he_kind e of
             HFile d \<Rightarrow>
               (length data < h_bufsz h \<or> length data \<le> h_space h,
                (hset q (e\<lparr>he_kind := HFile (d @ take (h_space h) data), he_mtime := h_now h\<rparr>) h)
                  \<lparr>h_space := h_space h - length data\<rparr>)
           | _ \<Rightarrow> (False, h))
      | None \<Rightarrow> (False, h))"

end
