(* ===== verification/RealFS.thy ===== *)
theory RealFS
  imports HostFS VfsBackend
begin

text \<open>
  The disk backend \<open>RealFSBackend\<close> of \<^verbatim>\<open>sandboxed-fs/src/vfs_real.cpp\<close>: the conversion of
  permissions and file types, the gate \<open>resolve\<close> with its two modes, and the sixteen operations
  on the host of \<^verbatim>\<open>HostFS\<close>. The object's only field is the canonical root.
\<close>

unbundle bit_operations_syntax

section \<open>Modes\<close>

definition kTypeFifo :: u32 where "kTypeFifo = 0x1000"
definition kTypeChr :: u32 where "kTypeChr = 0x2000"
definition kTypeDir :: u32 where "kTypeDir = 0x4000"
definition kTypeBlk :: u32 where "kTypeBlk = 0x6000"
definition kTypeReg :: u32 where "kTypeReg = 0x8000"
definition kTypeLink :: u32 where "kTypeLink = 0xA000"
definition kTypeSock :: u32 where "kTypeSock = 0xC000"

lemmas kType_defs = kTypeFifo_def kTypeChr_def kTypeDir_def kTypeBlk_def kTypeReg_def kTypeLink_def
  kTypeSock_def

text \<open>
  The standard fixes the values of \<open>fs::perms\<close>: owner_read is 0400 and so on down to others_exec.
  Both functions test one bit at a time and set the bit of the same value.
\<close>

definition copy_bit :: "u32 \<Rightarrow> u32 \<Rightarrow> u32 \<Rightarrow> u32" where
  "copy_bit p b m = (if p AND b \<noteq> 0 then m OR b else m)"

definition permsToMode :: "u32 \<Rightarrow> u32" where
  "permsToMode p =
     (let m = 0;
          m = copy_bit p 0x100 m; m = copy_bit p 0x80 m; m = copy_bit p 0x40 m;
          m = copy_bit p 0x20 m; m = copy_bit p 0x10 m; m = copy_bit p 8 m;
          m = copy_bit p 4 m; m = copy_bit p 2 m; m = copy_bit p 1 m
      in m)"

definition modeToPerms :: "u32 \<Rightarrow> u32" where
  "modeToPerms mode =
     (let p = 0;
          p = copy_bit mode 0x100 p; p = copy_bit mode 0x80 p; p = copy_bit mode 0x40 p;
          p = copy_bit mode 0x20 p; p = copy_bit mode 0x10 p; p = copy_bit mode 8 p;
          p = copy_bit mode 4 p; p = copy_bit mode 2 p; p = copy_bit mode 1 p
      in p)"

fun fileTypeToMode :: "file_type \<Rightarrow> u32" where
  "fileTypeToMode Ft_regular = kTypeReg"
| "fileTypeToMode Ft_directory = kTypeDir"
| "fileTypeToMode Ft_symlink = kTypeLink"
| "fileTypeToMode Ft_character = kTypeChr"
| "fileTypeToMode Ft_block = kTypeBlk"
| "fileTypeToMode Ft_fifo = kTypeFifo"
| "fileTypeToMode Ft_socket = kTypeSock"
| "fileTypeToMode _ = 0"

section \<open>Path helpers\<close>

definition isWithinRoot :: "fs_path \<Rightarrow> fs_path \<Rightarrow> bool" where
  "isWithinRoot path root =
     (let rel = lexically_relative path root
      in if rel = [] then True else hd rel \<noteq> ''..'')"

definition stripLeadingSlash :: "string \<Rightarrow> string" where
  "stripLeadingSlash path = dropWhile (\<lambda>c. c = slash) path"

text \<open>The elements of a relative \<open>fs::path\<close>: repeated slashes count once, a final one is an
  empty element.\<close>

definition fs_elems :: "string \<Rightarrow> fs_path" where
  "fs_elems s =
     (let ts = filter (\<lambda>t. t \<noteq> []) (getlines s)
      in if ts \<noteq> [] \<and> last s = slash then ts @ [''''] else ts)"

definition makePath :: "fs_path \<Rightarrow> string \<Rightarrow> fs_path" where
  "makePath m_root path =
     (if path = [] \<or> path = ''/'' then m_root
      else
        let rel = stripLeadingSlash path
        in if rel = [] then m_root else m_root @ fs_elems rel)"

datatype resolve_mode = Existing | Creating

definition real_resolve :: "fs_path \<Rightarrow> string \<Rightarrow> resolve_mode \<Rightarrow> host \<Rightarrow> fs_path expected" where
  "real_resolve m_root path mode h =
     (let fullPath = makePath m_root path
      in if mode = Existing then
           (case fs_canonical h fullPath of
              Inr canonical \<Rightarrow>
                if \<not> isWithinRoot canonical m_root then Inl EACCES else Inr canonical
            | Inl savedEc \<Rightarrow>
                (case fs_weakly_canonical h fullPath of
                   Inr resolved \<Rightarrow> if \<not> isWithinRoot resolved m_root then Inl EACCES else Inl savedEc
                 | Inl _ \<Rightarrow> Inl savedEc))
         else
           (case fs_canonical h fullPath of
              Inr canonical \<Rightarrow>
                if \<not> isWithinRoot canonical m_root then Inl EACCES else Inr canonical
            | Inl _ \<Rightarrow>
                (case fs_weakly_canonical h fullPath of
                   Inl ec \<Rightarrow> Inl ec
                 | Inr resolved \<Rightarrow>
                     if \<not> isWithinRoot resolved m_root then Inl EACCES
                     else
                       (case fs_symlink_status h resolved of
                          (linkSt, ec) \<Rightarrow>
                            if ec = None \<and> is_symlink linkSt then
                              (case fs_read_symlink h resolved of
                                 Inl e \<Rightarrow> Inl e
                               | Inr (is_absolute, target) \<Rightarrow>
                                   let absTarget =
                                     (if is_absolute then target else butlast resolved @ target)
                                   in (case fs_weakly_canonical h absTarget of
                                         Inl _ \<Rightarrow> Inl EACCES
                                       | Inr canonTarget \<Rightarrow>
                                           if \<not> isWithinRoot canonTarget m_root then Inl EACCES
                                           else Inr resolved))
                            else Inr resolved))))"

text \<open>The constructor throws when the root cannot be canonicalised.\<close>

definition RealFSBackend_ctor :: "fs_path \<Rightarrow> host \<Rightarrow> fs_path expected" where
  "RealFSBackend_ctor realRoot h = fs_canonical h realRoot"

section \<open>Operations\<close>

definition real_readFileBytes :: "fs_path \<Rightarrow> string \<Rightarrow> host \<Rightarrow> bytes expected \<times> host" where
  "real_readFileBytes m_root path h =
     (case real_resolve m_root path Existing h of
        Inl e \<Rightarrow> (Inl e, h)
      | Inr r \<Rightarrow>
          (case open_in h r of
             None \<Rightarrow> (Inl EACCES, h)
           | Some (q, result) \<Rightarrow>
               if q \<in> set (h_badread h) then (Inl EIO, h) else (Inr result, h)))"

definition real_readFile :: "fs_path \<Rightarrow> string \<Rightarrow> host \<Rightarrow> string expected \<times> host" where
  "real_readFile m_root path h =
     (case real_resolve m_root path Existing h of
        Inl e \<Rightarrow> (Inl e, h)
      | Inr r \<Rightarrow>
          (case open_in h r of
             None \<Rightarrow> (Inl EACCES, h)
           | Some (q, result) \<Rightarrow>
               if q \<in> set (h_badread h) then (Inl EIO, h) else (Inr (string_of_bytes result), h)))"

definition real_writeFile :: "fs_path \<Rightarrow> string \<Rightarrow> bytes \<Rightarrow> host \<Rightarrow> unit expected \<times> host" where
  "real_writeFile m_root path data h =
     (case real_resolve m_root path Creating h of
        Inl e \<Rightarrow> (Inl e, h)
      | Inr r \<Rightarrow>
          (case open_out True h r of
             None \<Rightarrow> (Inl EACCES, h)
           | Some (q, h) \<Rightarrow>
               (case stream_write q data h of
                  (out, h) \<Rightarrow> if \<not> out then (Inl EIO, h) else (Inr (), h))))"

definition real_appendFile :: "fs_path \<Rightarrow> string \<Rightarrow> bytes \<Rightarrow> host \<Rightarrow> unit expected \<times> host" where
  "real_appendFile m_root path data h =
     (case real_resolve m_root path Creating h of
        Inl e \<Rightarrow> (Inl e, h)
      | Inr r \<Rightarrow>
          (case open_out False h r of
             None \<Rightarrow> (Inl EACCES, h)
           | Some (q, h) \<Rightarrow>
               (case stream_write q data h of
                  (out, h) \<Rightarrow> if \<not> out then (Inl EIO, h) else (Inr (), h))))"

text \<open>\<open>if (ec) return std::unexpected(ec.value()); return {};\<close>\<close>

fun ec_result :: "errno option \<times> host \<Rightarrow> unit expected \<times> host" where
  "ec_result (Some e, h) = (Inl e, h)"
| "ec_result (None, h) = (Inr (), h)"

definition real_unlink :: "fs_path \<Rightarrow> string \<Rightarrow> host \<Rightarrow> unit expected \<times> host" where
  "real_unlink m_root path h =
     (case real_resolve m_root path Existing h of
        Inl e \<Rightarrow> (Inl e, h)
      | Inr r \<Rightarrow> ec_result (fs_remove h r))"

definition real_mkdir :: "fs_path \<Rightarrow> string \<Rightarrow> bool \<Rightarrow> u32 \<Rightarrow> host \<Rightarrow> unit expected \<times> host" where
  "real_mkdir m_root path recursive mode h =
     (case real_resolve m_root path Creating h of
        Inl e \<Rightarrow> (Inl e, h)
      | Inr r \<Rightarrow>
          (case (if recursive then fs_create_directories h r else fs_create_directory h r) of
             (Some e, h) \<Rightarrow> (Inl e, h)
           | (None, h) \<Rightarrow>
               if mode \<noteq> 0x1FF then ec_result (fs_permissions h r (modeToPerms mode))
               else (Inr (), h)))"

definition real_rmdir :: "fs_path \<Rightarrow> string \<Rightarrow> host \<Rightarrow> unit expected \<times> host" where
  "real_rmdir m_root path h =
     (case real_resolve m_root path Existing h of
        Inl e \<Rightarrow> (Inl e, h)
      | Inr r \<Rightarrow> ec_result (fs_remove h r))"

definition real_readdir :: "fs_path \<Rightarrow> string \<Rightarrow> host \<Rightarrow> string list expected \<times> host" where
  "real_readdir m_root path h =
     (case real_resolve m_root path Existing h of
        Inl e \<Rightarrow> (Inl e, h)
      | Inr r \<Rightarrow> (fs_directory h r, h))"

text \<open>
  The size is asked for first and its error is final; a failing link count counts as one, a
  failing time leaves zero.
\<close>

definition buildStat :: "host \<Rightarrow> fs_path \<Rightarrow> fstatus \<Rightarrow> stat expected" where
  "buildStat h resolved st =
     (let s = stat_init\<lparr>st_mode := fileTypeToMode (fs_type st) OR permsToMode (fs_perms st)\<rparr>
      in case fs_file_size h resolved of
           Inl szEc \<Rightarrow> Inl szEc
         | Inr sz \<Rightarrow>
             let s = s\<lparr>st_size := of_nat sz\<rparr>;
                 s = s\<lparr>st_nlink := (case fs_entry h resolved of
                                    Inl _ \<Rightarrow> 1 | Inr e \<Rightarrow> of_nat (he_nlink e))\<rparr>;
                 s = (case fs_last_write_time h resolved of
                        Inl _ \<Rightarrow> s
                      | Inr ftime \<Rightarrow> s\<lparr>st_mtimeMs := of_int (ftime + h_epoch h)\<rparr>)
             in Inr s)"

definition real_stat :: "fs_path \<Rightarrow> string \<Rightarrow> host \<Rightarrow> stat expected \<times> host" where
  "real_stat m_root path h =
     (case real_resolve m_root path Existing h of
        Inl e \<Rightarrow> (Inl e, h)
      | Inr r \<Rightarrow>
          (case fs_status h r of
             (st, Some e) \<Rightarrow> (Inl e, h)
           | (st, None) \<Rightarrow> (buildStat h r st, h)))"

definition real_lstat :: "fs_path \<Rightarrow> string \<Rightarrow> host \<Rightarrow> stat expected \<times> host" where
  "real_lstat m_root path h =
     (case real_resolve m_root path Existing h of
        Inl e \<Rightarrow> (Inl e, h)
      | Inr r \<Rightarrow>
          (case fs_symlink_status h r of
             (st, Some e) \<Rightarrow> (Inl e, h)
           | (st, None) \<Rightarrow> (buildStat h r st, h)))"

definition real_exists :: "fs_path \<Rightarrow> string \<Rightarrow> host \<Rightarrow> bool \<times> host" where
  "real_exists m_root path h =
     ((case real_resolve m_root path Existing h of Inl _ \<Rightarrow> False | Inr _ \<Rightarrow> True), h)"

definition real_rename :: "fs_path \<Rightarrow> string \<Rightarrow> string \<Rightarrow> host \<Rightarrow> unit expected \<times> host" where
  "real_rename m_root oldPath newPath h =
     (case real_resolve m_root oldPath Existing h of
        Inl e \<Rightarrow> (Inl e, h)
      | Inr oldR \<Rightarrow>
          (case real_resolve m_root newPath Creating h of
             Inl e \<Rightarrow> (Inl e, h)
           | Inr newR \<Rightarrow> ec_result (fs_rename h oldR newR)))"

definition real_copyFile :: "fs_path \<Rightarrow> string \<Rightarrow> string \<Rightarrow> host \<Rightarrow> unit expected \<times> host" where
  "real_copyFile m_root src dst h =
     (case real_resolve m_root src Existing h of
        Inl e \<Rightarrow> (Inl e, h)
      | Inr srcR \<Rightarrow>
          (case real_resolve m_root dst Creating h of
             Inl e \<Rightarrow> (Inl e, h)
           | Inr dstR \<Rightarrow> ec_result (fs_copy_file h srcR dstR)))"

definition real_truncate :: "fs_path \<Rightarrow> string \<Rightarrow> i64 \<Rightarrow> host \<Rightarrow> unit expected \<times> host" where
  "real_truncate m_root path sz h =
     (if sint sz < 0 then (Inl EINVAL, h)
      else
        (case real_resolve m_root path Existing h of
           Inl e \<Rightarrow> (Inl e, h)
         | Inr r \<Rightarrow> ec_result (fs_resize_file h r (unat sz))))"

text \<open>
  The milliseconds are taken as a time of the file clock, here an integer: in its 64-bit ticks very
  large ones overflow. The access time is ignored.
\<close>

definition real_utimes :: "fs_path \<Rightarrow> string \<Rightarrow> i64 \<Rightarrow> i64 \<Rightarrow> host \<Rightarrow> unit expected \<times> host" where
  "real_utimes m_root path atimeMs mtimeMs h =
     (case real_resolve m_root path Existing h of
        Inl e \<Rightarrow> (Inl e, h)
      | Inr r \<Rightarrow> ec_result (fs_set_last_write_time h r (sint mtimeMs)))"

definition real_access :: "fs_path \<Rightarrow> string \<Rightarrow> u32 \<Rightarrow> host \<Rightarrow> errno option \<times> host" where
  "real_access m_root path mode h =
     (case real_resolve m_root path Existing h of
        Inl e \<Rightarrow> (Some e, h)
      | Inr r \<Rightarrow>
          (case fs_status h r of
             (st, Some e) \<Rightarrow> (Some ENOENT, h)
           | (st, None) \<Rightarrow>
               if mode = kExist then (None, h)
               else
                 let perms = fs_perms st
                 in if mode AND kRead \<noteq> 0 \<and> perms AND 0x100 = 0 then (Some EACCES, h)
                    else if mode AND kWrite \<noteq> 0 \<and> perms AND 0x80 = 0 then (Some EACCES, h)
                    else if mode AND kExec \<noteq> 0 \<and> perms AND 0x40 = 0 then (Some EACCES, h)
                    else (None, h)))"

definition RealFSBackend :: "fs_path \<Rightarrow> host vfs_backend" where
  "RealFSBackend m_root = \<lparr>
     be_readFile = real_readFile m_root,
     be_readFileBytes = real_readFileBytes m_root,
     be_writeFile = real_writeFile m_root,
     be_appendFile = real_appendFile m_root,
     be_unlink = real_unlink m_root,
     be_mkdir = real_mkdir m_root,
     be_rmdir = real_rmdir m_root,
     be_readdir = real_readdir m_root,
     be_stat = real_stat m_root,
     be_lstat = real_lstat m_root,
     be_exists = real_exists m_root,
     be_rename = real_rename m_root,
     be_copyFile = real_copyFile m_root,
     be_truncate = real_truncate m_root,
     be_utimes = real_utimes m_root,
     be_access = real_access m_root \<rparr>"

end
