(* ===== verification/HostLemmas.thy ===== *)
theory HostLemmas
  imports RealFS
begin

text \<open>
  Facts on path resolution of the host: where a walk can arrive, that walks compose, that an
  arrival resolves to itself, and what the library's existence tests mean in these terms.
\<close>

section \<open>Link-free paths\<close>

definition real_dir :: "host \<Rightarrow> fs_path \<Rightarrow> bool" where
  "real_dir h p \<longleftrightarrow> (\<forall>q. prefix q p \<longrightarrow> kind_at h q = Some HDir) \<and> list_all plain p"

definition is_link :: "hkind \<Rightarrow> bool" where
  "is_link k \<longleftrightarrow> (\<exists>ab t. k = HLink ab t)"

definition real_path :: "host \<Rightarrow> fs_path \<Rightarrow> bool" where
  "real_path h p \<longleftrightarrow> real_dir h p \<or>
     (p \<noteq> [] \<and> real_dir h (butlast p) \<and> plain (last p) \<and>
      (\<exists>k. kind_at h p = Some k \<and> k \<noteq> HDir \<and> \<not> is_link k))"

lemma kind_at_Nil [simp]: "kind_at h [] = Some HDir"
  by (simp add: kind_at_def hlook_def root_entry_def)

lemma real_dir_Nil [simp]: "real_dir h []"
  by (simp add: real_dir_def)

lemma real_dir_snoc [simp]:
  "real_dir h (p @ [c]) \<longleftrightarrow> real_dir h p \<and> plain c \<and> kind_at h (p @ [c]) = Some HDir"
  by (auto simp: real_dir_def)

lemma real_dir_prefix: "real_dir h p \<Longrightarrow> prefix q p \<Longrightarrow> real_dir h q"
  by (auto simp: real_dir_def prefix_def list_all_iff)

lemma real_dir_HDir: "real_dir h p \<Longrightarrow> kind_at h p = Some HDir"
  by (simp add: real_dir_def)

lemma real_dir_path: "real_dir h p \<Longrightarrow> real_path h p"
  by (simp add: real_path_def)

lemma real_path_kind: "real_path h p \<Longrightarrow> \<exists>k. kind_at h p = Some k \<and> \<not> is_link k"
  by (auto simp: real_path_def is_link_def dest: real_dir_HDir)

lemma real_path_dir: "real_path h p \<Longrightarrow> kind_at h p = Some HDir \<Longrightarrow> real_dir h p"
  by (auto simp: real_path_def)

lemma real_path_plain: "real_path h p \<Longrightarrow> list_all plain p"
proof (cases p rule: rev_cases)
  case (snoc q c)
  then show "real_path h p \<Longrightarrow> ?thesis" by (auto simp: real_path_def real_dir_def)
qed simp

lemma real_path_parent: "real_path h p \<Longrightarrow> p \<noteq> [] \<Longrightarrow> real_dir h (butlast p) \<and> plain (last p)"
proof (cases p rule: rev_cases)
  case (snoc q c)
  then show "real_path h p \<Longrightarrow> ?thesis" by (auto simp: real_path_def)
qed simp

lemma real_path_hlook: "real_path h p \<Longrightarrow> \<exists>e. hlook h p = Some e"
  using real_path_kind by (fastforce simp: kind_at_def)

section \<open>Walks\<close>

declare namei.simps(2) [simp del]

lemma namei_plain:
  "plain c \<Longrightarrow> namei h n cur (c # todo) =
     (case kind_at h (cur @ [c]) of
        None \<Rightarrow> Missing cur c todo
      | Some HDir \<Rightarrow> namei h n (cur @ [c]) todo
      | Some (HLink ab t) \<Rightarrow>
          (case n of 0 \<Rightarrow> Failed ELOOP | Suc k \<Rightarrow> namei h k (if ab then [] else cur) (t @ todo))
      | Some _ \<Rightarrow> if todo = [] then Found (cur @ [c]) n else Failed ENOTDIR)"
  by (simp add: namei.simps(2) plain_def)

text \<open>Where a walk that starts in a link-free directory ends.\<close>

lemma namei_result:
  assumes "real_dir h cur"
  shows "case namei h n cur todo of
      Found q m \<Rightarrow> real_path h q \<and> m \<le> n
    | Missing d c rest \<Rightarrow> real_dir h d \<and> plain c \<and> kind_at h (d @ [c]) = None
    | Failed e \<Rightarrow> e = ELOOP \<or> e = ENOTDIR"
  using assms
proof (induction h n cur todo rule: namei.induct)
  case (1 h n cur)
  then show ?case by (simp add: real_dir_path)
next
  case (2 h n cur c todo)
  show ?case
  proof (cases "plain c")
    case False
    have "real_dir h (butlast cur)" using "2.prems" real_dir_prefix prefixeq_butlast by blast
    with False 2 show ?thesis
      by (cases "c = ''..''") (simp_all add: namei.simps(2) plain_def)
  next
    case True
    then have sp: "\<not> (c = '''' \<or> c = ''.'')" "c \<noteq> ''..''" by (auto simp: plain_def)
    show ?thesis
    proof (cases "kind_at h (cur @ [c])")
      case None
      with True "2.prems" show ?thesis by (simp add: namei_plain)
    next
      case (Some k)
      show ?thesis
      proof (cases k)
        case HDir
        with "2.IH"(3) [OF sp Some] True Some "2.prems" show ?thesis by (simp add: namei_plain)
      next
        case (HLink ab t)
        then show ?thesis
        proof (cases n)
          case (Suc m)
          have "real_dir h (if ab then [] else cur)" using "2.prems" by simp
          with "2.IH"(4) [OF sp Some HLink Suc] have
            "case namei h m (if ab then [] else cur) (t @ todo) of
               Found q k \<Rightarrow> real_path h q \<and> k \<le> m
             | Missing d c rest \<Rightarrow> real_dir h d \<and> plain c \<and> kind_at h (d @ [c]) = None
             | Failed e \<Rightarrow> e = ELOOP \<or> e = ENOTDIR" by blast
          with True Some HLink Suc show ?thesis
            by (cases ab) (auto simp: namei_plain split: walked.splits)
        qed (use True Some HLink in \<open>simp add: namei_plain\<close>)
      qed (use True Some "2.prems" in \<open>simp_all add: namei_plain real_path_def is_link_def\<close>)
    qed
  qed
qed

lemma namei_Found: "real_dir h cur \<Longrightarrow> namei h n cur todo = Found q m \<Longrightarrow> real_path h q \<and> m \<le> n"
  using namei_result [of h cur n todo] by simp

lemma namei_Missing:
  "real_dir h cur \<Longrightarrow> namei h n cur todo = Missing d c rest \<Longrightarrow>
     real_dir h d \<and> plain c \<and> kind_at h (d @ [c]) = None"
  using namei_result [of h cur n todo] by simp

lemma namei_Failed: "real_dir h cur \<Longrightarrow> namei h n cur todo = Failed e \<Longrightarrow> e = ELOOP \<or> e = ENOTDIR"
  using namei_result [of h cur n todo] by simp

text \<open>Walking along a link-free directory path, and along a link-free path.\<close>

lemma namei_real_dir: "real_dir h (a @ p) \<Longrightarrow> namei h n a (p @ todo) = namei h n (a @ p) todo"
proof (induction p arbitrary: a)
  case (Cons c p)
  have "real_dir h (a @ [c])" using Cons.prems real_dir_prefix by (metis append.assoc append_Cons
      append_Nil prefixI)
  with Cons.IH [of "a @ [c]"] Cons.prems show ?case by (simp add: namei_plain)
qed simp

lemma namei_real_path: "real_path h p \<Longrightarrow> namei h n [] p = Found p n"
proof (cases "real_dir h p")
  case True
  then show ?thesis using namei_real_dir [of h "[]" p n "[]"] by simp
next
  case False
  assume "real_path h p"
  with False obtain q c k where p: "p = q @ [c]" and q: "real_dir h q" "plain c"
    and k: "kind_at h p = Some k" "k \<noteq> HDir" "\<not> is_link k"
    by (metis append_butlast_last_id real_path_def)
  from q have "namei h n [] p = namei h n q [c]"
    using namei_real_dir [of h "[]" q n "[c]"] by (simp add: p)
  with q k show ?thesis by (cases k) (auto simp: namei_plain p is_link_def)
qed

text \<open>More links allowed change the outcome only when they were exhausted.\<close>

fun bump :: "nat \<Rightarrow> walked \<Rightarrow> walked" where
  "bump k (Found q m) = Found q (m + k)"
| "bump k w = w"

lemma namei_mono:
  "namei h n cur todo \<noteq> Failed ELOOP \<Longrightarrow> namei h (n + k) cur todo = bump k (namei h n cur todo)"
proof (induction h n cur todo rule: namei.induct)
  case (2 h n cur c todo)
  show ?case
  proof (cases "plain c")
    case False
    with 2 show ?thesis
      by (cases "c = ''..''") (simp_all add: namei.simps(2) plain_def)
  next
    case True
    then have sp: "\<not> (c = '''' \<or> c = ''.'')" "c \<noteq> ''..''" by (auto simp: plain_def)
    show ?thesis
    proof (cases "kind_at h (cur @ [c])")
      case (Some ki)
      show ?thesis
      proof (cases ki)
        case HDir
        with 2 True Some sp show ?thesis by (simp add: namei_plain)
      next
        case (HLink ab t)
        with 2 True Some sp show ?thesis by (cases n) (simp_all add: namei_plain)
      qed (use True Some in \<open>simp_all add: namei_plain\<close>)
    qed (use True in \<open>simp add: namei_plain\<close>)
  qed
qed simp

text \<open>Walking \<open>xs\<close> then \<open>ys\<close>.\<close>

lemma namei_append:
  assumes "real_dir h cur"
  shows "namei h n cur (xs @ ys) =
    (case namei h n cur xs of
       Found q m \<Rightarrow>
         if kind_at h q = Some HDir then namei h m q ys
         else if ys = [] then Found q m else Failed ENOTDIR
     | Missing d c rest \<Rightarrow> Missing d c (rest @ ys)
     | Failed e \<Rightarrow> Failed e)"
  using assms
proof (induction h n cur xs rule: namei.induct)
  case (1 h n cur)
  then show ?case by (simp add: real_dir_HDir)
next
  case (2 h n cur c todo)
  show ?case
  proof (cases "plain c")
    case False
    have "real_dir h (butlast cur)" using "2.prems" real_dir_prefix prefixeq_butlast by blast
    with False 2 show ?thesis
      by (cases "c = ''..''") (simp_all add: namei.simps(2) plain_def)
  next
    case True
    then have sp: "\<not> (c = '''' \<or> c = ''.'')" "c \<noteq> ''..''" by (auto simp: plain_def)
    show ?thesis
    proof (cases "kind_at h (cur @ [c])")
      case (Some ki)
      show ?thesis
      proof (cases ki)
        case HDir
        with 2 True Some sp show ?thesis by (simp add: namei_plain)
      next
        case (HLink ab t)
        have "real_dir h (if ab then [] else cur)" using "2.prems" by simp
        with 2 HLink True Some sp show ?thesis by (cases n) (simp_all add: namei_plain)
      qed (use True Some in \<open>simp_all add: namei_plain\<close>)
    qed (use True in \<open>simp add: namei_plain\<close>)
  qed
qed

text \<open>The two walks of a path whose first part exists.\<close>

lemma namei_from:
  assumes "namei h n [] pre = Found r m" and "namei h n [] (pre @ [c]) \<noteq> Failed ELOOP"
    and "real_dir h r"
  shows "namei h n [] (r @ [c]) = bump (n - m) (namei h n [] (pre @ [c]))"
proof -
  have r: "real_path h r \<and> m \<le> n" using namei_Found [OF real_dir_Nil assms(1)] .
  have a: "namei h n [] (pre @ [c]) = namei h m r [c]"
    using assms(1,3) by (simp add: namei_append real_dir_HDir)
  have "namei h n [] (r @ [c]) = namei h (m + (n - m)) r [c]"
    using namei_real_dir [of h "[]" r n "[c]"] assms(3) r by simp
  also have "\<dots> = bump (n - m) (namei h m r [c])"
    using namei_mono assms(2) a by simp
  finally show ?thesis by (simp add: a)
qed

section \<open>The library's tests\<close>

lemma canonical_real: "fs_canonical h p = Inr q \<Longrightarrow> real_path h q"
  using namei_Found [OF real_dir_Nil] by (fastforce simp: fs_canonical_def split: walked.splits)

lemma canonical_real_path [simp]: "real_path h p \<Longrightarrow> fs_canonical h p = Inr p"
  by (simp add: fs_canonical_def namei_real_path)

lemma type_of_kind_exists: "type_of_kind k \<noteq> Ft_none \<and> type_of_kind k \<noteq> Ft_not_found"
  by (cases k rule: type_of_kind.cases) simp_all

lemma status_exists: "st_exists (fst (fs_status h p)) \<longleftrightarrow> (\<exists>q. fs_canonical h p = Inr q)"
proof (cases "fs_canonical h p")
  case (Inr q)
  then obtain e where "hlook h q = Some e" using canonical_real real_path_hlook by blast
  with Inr show ?thesis
    by (simp add: fs_status_def st_exists_def status_of_def type_of_kind_exists)
qed (simp add: fs_status_def st_exists_def)

lemma status_known:
  "status_known (fst (fs_status h p)) \<longleftrightarrow> fs_canonical h p \<noteq> Inl ELOOP"
proof (cases "fs_canonical h p")
  case (Inr q)
  then obtain e where "hlook h q = Some e" using canonical_real real_path_hlook by blast
  with Inr show ?thesis
    by (simp add: fs_status_def status_known_def status_of_def type_of_kind_exists)
next
  case (Inl e)
  then have "e = ENOENT \<or> e = ELOOP \<or> e = ENOTDIR"
    using namei_Failed [OF real_dir_Nil] by (auto simp: fs_canonical_def split: walked.splits)
  with Inl show ?thesis by (auto simp: fs_status_def status_known_def)
qed

lemma status_directory:
  "is_directory (fst (fs_status h p)) \<longleftrightarrow> (\<exists>q. fs_canonical h p = Inr q \<and> real_dir h q)"
proof (cases "fs_canonical h p")
  case (Inr q)
  then have q: "real_path h q" by (rule canonical_real)
  then obtain e where e: "hlook h q = Some e" using real_path_hlook by blast
  have "type_of_kind k = Ft_directory \<longleftrightarrow> k = HDir" for k
    by (cases k rule: type_of_kind.cases) simp_all
  moreover have "he_kind e = HDir \<longleftrightarrow> real_dir h q"
    using real_path_dir [OF q] real_dir_HDir [of h q] e by (auto simp: kind_at_def)
  ultimately show ?thesis
    using Inr e by (simp add: fs_status_def is_directory_def status_of_def)
qed (simp add: fs_status_def is_directory_def)

lemma canonical_Inr: "fs_canonical h p = Inr q \<longleftrightarrow> (\<exists>m. namei h max_links [] p = Found q m)"
  by (auto simp: fs_canonical_def split: walked.splits)

text \<open>A path that is not found and the longest part of it that is.\<close>

lemma leading_spec:
  "leading h acc cs = Inr (pre, rest) \<Longrightarrow>
     pre @ rest = acc @ cs \<and> (pre = acc \<or> (\<exists>q. fs_canonical h pre = Inr q)) \<and> prefix acc pre \<and>
     (rest = [] \<or> (\<nexists>q. fs_canonical h (pre @ [hd rest]) = Inr q) \<and>
        fs_canonical h (pre @ [hd rest]) \<noteq> Inl ELOOP)"
proof (induction cs arbitrary: acc)
  case (Cons c cs)
  show ?case
  proof (cases "st_exists (fst (fs_status h (acc @ [c])))")
    case True
    with Cons.prems have "leading h (acc @ [c]) cs = Inr (pre, rest)"
      by (simp add: split_beta)
    from Cons.IH [OF this] True show ?thesis
      by (auto simp: status_exists dest: append_prefixD)
  next
    case False
    then have "pre = acc" "rest = c # cs" "status_known (fst (fs_status h (acc @ [c])))"
      using Cons.prems by (auto simp: split_beta split: if_splits)
    with False show ?thesis by (simp add: status_exists status_known)
  qed
qed simp

text \<open>
  What \<open>weakly_canonical\<close> returns for a path that does not exist: a link-free path, an element
  that the walk from there does not find, and the elements after it, in normal form.
\<close>

definition stuck :: "host \<Rightarrow> fs_path \<Rightarrow> string \<Rightarrow> bool" where
  "stuck h r c \<longleftrightarrow> real_path h r \<and>
     (real_dir h r \<longrightarrow>
        (\<exists>d x rest. namei h max_links [] (r @ [c]) = Missing d x rest) \<or>
        namei h max_links [] (r @ [c]) = Failed ENOTDIR)"

lemma not_found_cases:
  assumes "\<nexists>q. fs_canonical h p = Inr q" and "fs_canonical h p \<noteq> Inl ELOOP"
  shows "(\<exists>d x rest. namei h max_links [] p = Missing d x rest) \<or> namei h max_links [] p = Failed ENOTDIR"
  using assms namei_Failed [OF real_dir_Nil]
  by (fastforce simp: fs_canonical_def split: walked.splits)

lemma weakly_missing:
  assumes "fs_weakly_canonical h p = Inr w" and "\<nexists>q. fs_canonical h p = Inr q"
  shows "\<exists>pre r c rest. p = pre @ c # rest \<and> fs_canonical h pre = Inr r \<and> stuck h r c \<and>
    fs_canonical h (pre @ [c]) \<noteq> Inl ELOOP \<and> w = lexically_normal (r @ c # rest)"
proof -
  from assms obtain pre rest r where lead: "leading h [] p = Inr (pre, rest)"
    and r: "fs_canonical h pre = Inr r" and w: "w = lexically_normal (r @ rest)"
    using assms(2) status_exists [of h p]
    by (auto simp: fs_weakly_canonical_def split_beta split: if_splits sum.splits)
  from leading_spec [OF lead] have l: "pre @ rest = p"
    "rest = [] \<or> (\<nexists>q. fs_canonical h (pre @ [hd rest]) = Inr q) \<and>
        fs_canonical h (pre @ [hd rest]) \<noteq> Inl ELOOP" by auto
  with r assms(2) obtain c cs where rest: "rest = c # cs" by (cases rest) auto
  with l have nf: "\<nexists>q. fs_canonical h (pre @ [c]) = Inr q" "fs_canonical h (pre @ [c]) \<noteq> Inl ELOOP"
    by auto
  from r obtain m where m: "namei h max_links [] pre = Found r m" by (auto simp: canonical_Inr)
  have "stuck h r c"
    unfolding stuck_def
  proof (intro conjI impI)
    show "real_path h r" using r by (rule canonical_real)
    assume "real_dir h r"
    from namei_from [OF m _ this, of c] not_found_cases [OF nf]
    show "(\<exists>d x rest. namei h max_links [] (r @ [c]) = Missing d x rest) \<or>
        namei h max_links [] (r @ [c]) = Failed ENOTDIR" by auto
  qed
  with l(1) r w rest nf show ?thesis by blast
qed

lemma weakly_existing: "fs_canonical h p = Inr q \<Longrightarrow> fs_weakly_canonical h p = Inr q"
  using status_exists [of h p] by (auto simp: fs_weakly_canonical_def split_beta)

section \<open>Lexical operations\<close>

lemma push_plain: "list_all plain p \<Longrightarrow> foldl push_part acc p = acc @ p"
  by (induction p arbitrary: acc) (auto simp: push_part_def plain_def)

lemma lexically_normal_plain:
  assumes "list_all plain p"
  shows "lexically_normal p = p"
proof -
  have "p \<noteq> [] \<Longrightarrow> plain (last p)" using assms last_in_set by (auto simp: list_all_iff)
  with push_plain [OF assms, of "[]"] show ?thesis by (auto simp: lexically_normal_def)
qed

lemma strip_common_spec:
  "strip_common p b = (x, y) \<Longrightarrow>
     \<exists>c. p = c @ x \<and> b = c @ y \<and> (x = [] \<or> y = [] \<or> hd x \<noteq> hd y)"
proof (induction p b rule: strip_common.induct)
  case (1 a as b bs)
  then show ?case by (cases "a = b") (auto intro: exI [of _ "a # _"])
qed auto

text \<open>The containment test is the prefix relation on elements.\<close>

lemma isWithinRoot_iff:
  assumes "list_all plain p" and "list_all plain root"
  shows "isWithinRoot p root \<longleftrightarrow> prefix root p"
proof -
  obtain x y where xy: "strip_common p root = (x, y)" by fastforce
  from strip_common_spec [OF this] obtain c where
    c: "p = c @ x" "root = c @ y" "x = [] \<or> y = [] \<or> hd x \<noteq> hd y" by blast
  have px: "list_all plain x" and py: "list_all plain y" using assms c by auto
  have f: "filter plain y = y" "filter (\<lambda>c. c = ''..'') y = []"
    using py by (auto simp: filter_id_conv filter_empty_conv list_all_iff plain_def)
  have pre: "prefix root p \<longleftrightarrow> y = []"
    using c by (cases y; cases x) (auto simp: prefix_def)
  show ?thesis
  proof (cases "y = []")
    case True
    then show ?thesis
      using xy pre px by (cases x) (auto simp: isWithinRoot_def lexically_relative_def plain_def)
  next
    case False
    then show ?thesis
      using xy pre f by (cases y) (auto simp: isWithinRoot_def lexically_relative_def Let_def)
  qed
qed

end
