(* ===== verification/RealSafe.thy ===== *)
theory RealSafe
  imports HostLemmas
begin

text \<open>
  Confinement of \<open>RealFSBackend\<close>: what the gate \<open>resolve\<close> lets through in each mode, and that the
  operations behind it change entries at and below the root only.
\<close>

section \<open>The gate\<close>

lemma flat_no_slash_last:
  assumes "list_all seg_ok (segs @ [s])"
  shows "last (flat (segs @ [s])) \<noteq> slash"
proof -
  from assms have s: "s \<noteq> []" "slash \<notin> set s" by (auto simp: seg_ok_def)
  then have "last s \<noteq> slash" by (metis last_in_set)
  with s show ?thesis by (simp add: last_append)
qed

lemma getlines_flat_names: "list_all seg_ok segs \<Longrightarrow> filter (\<lambda>t. t \<noteq> []) (getlines (flat segs)) = segs"
proof (induction segs)
  case (Cons s ss)
  then have s: "s \<noteq> []" "slash \<notin> set s" by (auto simp: seg_ok_def)
  show ?case
  proof (cases ss)
    case Nil
    with s show ?thesis by (simp add: getlines_single)
  next
    case (Cons t ts)
    with Cons.IH Cons.prems s show ?thesis by (simp add: getlines_split)
  qed
qed simp

lemma makePath_canonical:
  assumes "canonical_path path"
  shows "makePath root path = root @ comps path"
proof -
  from assms obtain segs where segs: "list_all seg_ok segs" "path = render segs"
    by (auto simp: canonical_path_def)
  show ?thesis
  proof (cases segs rule: rev_cases)
    case Nil
    with segs show ?thesis by (simp add: makePath_def render_def comps_flat [of "[]", simplified])
  next
    case (snoc ss s)
    let ?p = "flat segs"
    have p: "path = ?p" using segs snoc by (simp add: render_def)
    have "segs \<noteq> []" using snoc by simp
    then obtain u us where segs': "segs = u # us" by (meson neq_Nil_conv)
    then have u: "u \<noteq> []" "slash \<notin> set u" using segs(1) by (auto simp: seg_ok_def)
    let ?rel = "u @ flat us"
    have f: "?p = slash # ?rel" by (simp add: segs')
    have strip: "stripLeadingSlash ?p = ?rel"
      using u by (cases u) (auto simp: stripLeadingSlash_def f)
    have "filter (\<lambda>t. t \<noteq> []) (getlines ?rel) = segs"
      using getlines_flat_names [OF segs(1)] by (simp add: f)
    moreover have "last ?rel \<noteq> slash"
      using flat_no_slash_last [of ss s] segs(1) snoc f u by (simp del: flat_simps flat_append)
    ultimately have "fs_elems ?rel = segs" by (simp add: fs_elems_def)
    moreover have "?p \<noteq> ''/''" using f u by simp
    ultimately show ?thesis
      using strip u f comps_flat [OF segs(1)] by (simp add: makePath_def p)
  qed
qed

lemma seg_ok_plain: "list_all seg_ok segs \<Longrightarrow> list_all plain segs"
  by (auto simp: list_all_iff seg_ok_def plain_def)

lemma comps_plain: "list_all plain (comps path)"
  by (rule seg_ok_plain [OF comps_ok])

text \<open>The full behaviour of the mode \<open>Existing\<close>.\<close>

lemma resolve_Existing:
  assumes "real_dir h root"
  shows "real_resolve root path Existing h =
    (case fs_canonical h (makePath root path) of
       Inr p \<Rightarrow> if prefix root p then Inr p else Inl EACCES
     | Inl e \<Rightarrow>
         (case fs_weakly_canonical h (makePath root path) of
            Inr p \<Rightarrow> if isWithinRoot p root then Inl e else Inl EACCES
          | Inl _ \<Rightarrow> Inl e))"
proof (cases "fs_canonical h (makePath root path)")
  case (Inr p)
  have "isWithinRoot p root \<longleftrightarrow> prefix root p"
    using canonical_real [OF Inr] real_path_plain assms
    by (intro isWithinRoot_iff) (auto simp: real_dir_def)
  with Inr show ?thesis by (simp add: real_resolve_def Let_def)
qed (auto simp: real_resolve_def Let_def split: sum.split)

lemma resolve_Existing_Inr:
  assumes "real_dir h root" and "real_resolve root path Existing h = Inr p"
  shows "real_path h p \<and> prefix root p"
  using assms canonical_real
  by (auto simp: resolve_Existing split: sum.splits if_splits)

text \<open>
  In the mode \<open>Creating\<close>, for a path as the router hands it on: an existing link-free path, or a
  link-free path inside the root followed by an element that leads nowhere.
\<close>

definition guarded :: "host \<Rightarrow> fs_path \<Rightarrow> fs_path \<Rightarrow> bool" where
  "guarded h root p \<longleftrightarrow> (\<forall>ab t. kind_at h p = Some (HLink ab t) \<longrightarrow>
     (\<exists>w. fs_weakly_canonical h (if ab then t else butlast p @ t) = Inr w \<and> isWithinRoot w root))"

definition creatable :: "host \<Rightarrow> fs_path \<Rightarrow> fs_path \<Rightarrow> bool" where
  "creatable h root p \<longleftrightarrow> (\<exists>r c rest. p = r @ c # rest \<and> stuck h r c \<and> prefix root r \<and>
     list_all plain (c # rest) \<and> (rest = [] \<and> real_dir h r \<longrightarrow> guarded h root p))"

lemma place_snoc:
  assumes "real_dir h r" and "plain c"
  shows "place h (r @ [c]) = Inr (r @ [c])"
  using assms namei_real_path [OF real_dir_path [OF assms(1)], of max_links] real_dir_HDir
  by (simp add: place_def)

lemma stuck_inside:
  assumes "stuck h r c" and "real_dir h root" and "prefix root (r @ c # rest)"
  shows "prefix root r"
proof (rule ccontr)
  assume no: "\<not> prefix root r"
  from assms(3) obtain t where t: "r @ c # rest = root @ t" by (auto elim: prefixE)
  have "length r < length root"
  proof (rule ccontr)
    assume "\<not> length r < length root"
    then have "prefix root r" using t by (metis append_eq_append_conv_if append_take_drop_id
        not_less prefixI)
    with no show False by simp
  qed
  then have "prefix (r @ [c]) root"
    using t by (metis append.assoc append_Cons append_Nil prefixI prefix_length_prefix length_append_singleton Suc_leI)
  with assms(2) have d: "real_dir h (r @ [c])" using real_dir_prefix by blast
  then have "namei h max_links [] (r @ [c]) = Found (r @ [c]) max_links"
    using namei_real_path real_dir_path by blast
  with assms(1) d show False by (auto simp: stuck_def)
qed

text \<open>How a resolved path to create comes from the full path.\<close>

definition created_from :: "host \<Rightarrow> fs_path \<Rightarrow> fs_path \<Rightarrow> bool" where
  "created_from h full p \<longleftrightarrow> (\<exists>pre r c rest. full = pre @ c # rest \<and> fs_canonical h pre = Inr r \<and>
     stuck h r c \<and> fs_canonical h (pre @ [c]) \<noteq> Inl ELOOP \<and> p = r @ c # rest)"

lemma resolve_Creating_full:
  assumes "real_dir h root" and "canonical_path path"
    and "real_resolve root path Creating h = Inr p"
  shows "prefix root p \<and> (fs_canonical h (makePath root path) = Inr p \<or>
    creatable h root p \<and> created_from h (makePath root path) p)"
proof (cases "fs_canonical h (makePath root path)")
  case (Inr q)
  have "isWithinRoot q root \<longleftrightarrow> prefix root q"
    using canonical_real [OF Inr] real_path_plain assms(1)
    by (intro isWithinRoot_iff) (auto simp: real_dir_def)
  with Inr assms(3) canonical_real [OF Inr] show ?thesis
    by (auto simp: real_resolve_def Let_def split: if_splits)
next
  case (Inl e)
  have full: "makePath root path = root @ comps path" using assms(2) by (rule makePath_canonical)
  obtain w where w: "fs_weakly_canonical h (makePath root path) = Inr w" "isWithinRoot w root"
    using assms(3) Inl by (auto simp: real_resolve_def Let_def split: sum.splits if_splits)
  from weakly_missing [OF w(1)] Inl obtain pre r c rest where
    split: "makePath root path = pre @ c # rest" "stuck h r c" "w = lexically_normal (r @ c # rest)"
      "fs_canonical h pre = Inr r" "fs_canonical h (pre @ [c]) \<noteq> Inl ELOOP"
    by auto
  have "list_all plain (root @ comps path)"
    using assms(1) comps_plain by (simp add: real_dir_def)
  then have cr: "list_all plain (c # rest)" using split(1) full by (metis list_all_append)
  have "list_all plain r" using split(2) real_path_plain [of h r] by (simp add: stuck_def)
  with cr split(3) have weq: "w = r @ c # rest" and wp: "list_all plain w"
    by (simp_all add: lexically_normal_plain)
  have pw: "prefix root w" using w(2) wp assms(1) isWithinRoot_iff by (auto simp: real_dir_def)
  have pr: "prefix root r" using stuck_inside split(2) assms(1) pw weq by blast
  have "p = w \<and> (rest = [] \<and> real_dir h r \<longrightarrow> guarded h root w)"
  proof (cases "rest = [] \<and> real_dir h r")
    case False
    with assms(3) Inl w show ?thesis
      by (auto simp: real_resolve_def Let_def split: prod.splits sum.splits if_splits)
  next
    case True
    then have pl: "place h w = Inr w" using place_snoc cr weq by simp
    have lw: "w \<noteq> []" "plain (last w)" using weq cr True by auto
    show ?thesis
    proof (cases "\<exists>ab t. kind_at h w = Some (HLink ab t)")
      case True
      then obtain ab t where k: "kind_at h w = Some (HLink ab t)" by blast
      then obtain en where "hlook h w = Some en" "he_kind en = HLink ab t"
        by (auto simp: kind_at_def)
      then have "fs_symlink_status h w = (status_of en, None)" "is_symlink (status_of en)"
        "fs_read_symlink h w = Inr (ab, t)"
        using pl lw k by (simp_all add: fs_symlink_status_def is_symlink_def status_of_def
            fs_read_symlink_def)
      with assms(3) Inl w k show ?thesis
        by (auto simp: real_resolve_def Let_def guarded_def split: sum.splits if_splits)
    next
      case False
      with assms(3) Inl w show ?thesis
        by (auto simp: real_resolve_def Let_def guarded_def split: prod.splits sum.splits if_splits)
    qed
  qed
  moreover from this have "creatable h root p"
    using pr split(2) cr weq by (auto simp: creatable_def)
  moreover have "created_from h (makePath root path) w"
    unfolding created_from_def using split(1,2,4,5) weq by blast
  ultimately show ?thesis using pw by simp
qed

lemma resolve_Creating:
  assumes "real_dir h root" and "canonical_path path"
    and "real_resolve root path Creating h = Inr p"
  shows "prefix root p \<and> (real_path h p \<or> creatable h root p)"
  using resolve_Creating_full [OF assms] canonical_real by blast

end
