(* ===== verification/RealConfine.thy ===== *)
theory RealConfine
  imports RealSafe
begin

text \<open>
  The operations of \<open>RealFSBackend\<close> change entries at and below the root only, given paths as the
  router hands them on and no link below the root that points to another dangling link.
\<close>

section \<open>Changes inside the root\<close>

definition only_below :: "fs_path \<Rightarrow> host \<Rightarrow> host \<Rightarrow> bool" where
  "only_below root h h' \<longleftrightarrow> (\<forall>q. \<not> prefix root q \<longrightarrow> hlook h' q = hlook h q)"

lemma only_below_refl [simp, intro]: "only_below root h h"
  by (simp add: only_below_def)

lemma only_below_trans: "only_below root h h' \<Longrightarrow> only_below root h' h'' \<Longrightarrow> only_below root h h''"
  by (simp add: only_below_def)

lemma hlook_Nil [simp]: "hlook h [] = Some root_entry"
  by (simp add: hlook_def)

lemma hlook_hset: "hlook (hset p e h) q = (if q = [] then Some root_entry else if q = p then Some e else hlook h q)"
  by (simp add: hlook_def hset_def update_conv')

lemma hlook_hdel: "hlook (hdel p h) q = (if q = [] then Some root_entry else if q = p then None else hlook h q)"
  by (simp add: hlook_def hdel_def delete_conv')

lemma only_below_hset [intro]: "prefix root p \<Longrightarrow> only_below root h (hset p e h)"
  by (auto simp: only_below_def hlook_hset)

lemma only_below_hdel [intro]: "prefix root p \<Longrightarrow> only_below root h (hdel p h)"
  by (auto simp: only_below_def hlook_hdel)

lemma only_below_space [intro]: "only_below root h h' \<Longrightarrow> only_below root h (h'\<lparr>h_space := n\<rparr>)"
proof -
  have "hlook (h'\<lparr>h_space := n\<rparr>) q = hlook h' q" for q by (simp add: hlook_def)
  then show "only_below root h h' \<Longrightarrow> ?thesis" by (simp add: only_below_def)
qed

lemma only_below_move:
  assumes "prefix root old" and "prefix root new"
  shows "only_below root h (move_tree old new h)"
  unfolding only_below_def
proof (intro allI impI)
  fix q
  assume q: "\<not> prefix root q"
  have "map_of (map (\<lambda>(p, e). if prefix old p then (new @ drop (length old) p, e) else (p, e))
      (filter (\<lambda>(p, e). \<not> prefix new p) t)) q = map_of t q" for t :: "(fs_path \<times> hentry) list"
  proof (induction t)
    case (Cons x t)
    obtain p e where x: "x = (p, e)" by fastforce
    have "\<not> prefix new q" "\<not> prefix old q" "new @ drop (length old) p \<noteq> q"
      using q assms by (auto intro: prefix_order.trans)
    with Cons show ?case by (auto simp: x)
  qed simp
  then show "hlook (move_tree old new h) q = hlook h q"
    by (simp add: hlook_def move_tree_def)
qed

section \<open>Host calls on resolved paths\<close>

definition resolved_path :: "host \<Rightarrow> fs_path \<Rightarrow> fs_path \<Rightarrow> bool" where
  "resolved_path h root p \<longleftrightarrow> prefix root p \<and> (real_path h p \<or> creatable h root p)"

lemma place_real:
  assumes "real_path h p" and "place h p = Inr q"
  shows "q = p"
proof (cases p rule: rev_cases)
  case (snoc r c)
  with real_path_parent [OF assms(1)] have "real_dir h r" "plain c" by auto
  with place_snoc [OF this] assms(2) snoc show ?thesis by simp
qed (use assms in \<open>simp add: place_def\<close>)

lemma stuck_walk:
  assumes "stuck h r c"
  shows "namei h max_links [] (r @ c # cs) =
    (if real_dir h r then
       (case namei h max_links [] (r @ [c]) of
          Missing d x rest \<Rightarrow> Missing d x (rest @ cs)
        | w \<Rightarrow> w)
     else Failed ENOTDIR)"
proof -
  have r: "real_path h r" using assms by (simp add: stuck_def)
  show ?thesis
  proof (cases "real_dir h r")
    case True
    then show ?thesis
      using assms namei_append [OF real_dir_Nil, of h max_links "r @ [c]" cs]
      by (auto simp: stuck_def)
  next
    case False
    then have "kind_at h r \<noteq> Some HDir" using r real_path_dir by blast
    with False show ?thesis
      using namei_append [OF real_dir_Nil, of h max_links r "c # cs"] namei_real_path [OF r, of max_links]
      by simp
  qed
qed

lemma place_creatable:
  assumes "creatable h root p" and "place h p = Inr q"
  shows "q = p \<and> (\<exists>r c. p = r @ [c] \<and> stuck h r c \<and> plain c \<and> prefix root r \<and> real_dir h r)"
proof -
  from assms(1) obtain r c rest where p: "p = r @ c # rest" and s: "stuck h r c"
    and pl: "list_all plain (c # rest)" and pre: "prefix root r" by (auto simp: creatable_def)
  show ?thesis
  proof (cases rest rule: rev_cases)
    case Nil
    have r: "real_path h r" using s by (simp add: stuck_def)
    have "real_dir h r"
      using assms(2) namei_real_path [OF r, of max_links] real_path_dir [OF r]
      by (auto simp: place_def p Nil split: if_splits)
    with place_snoc [OF this, of c] assms(2) s pl pre p Nil show ?thesis by auto
  next
    case (snoc xs x)
    then have b: "butlast p = r @ c # xs" and "p \<noteq> []" by (simp_all add: p butlast_append)
    have "\<exists>e. place h p = Inl e"
    proof (cases "real_dir h r")
      case True
      with s consider d x cs where "namei h max_links [] (r @ [c]) = Missing d x cs"
        | "namei h max_links [] (r @ [c]) = Failed ENOTDIR" by (auto simp: stuck_def)
      then show ?thesis
        using True \<open>p \<noteq> []\<close> by cases (simp_all add: place_def b stuck_walk [OF s, of xs])
    qed (simp add: place_def b stuck_walk [OF s, of xs] \<open>p \<noteq> []\<close>)
    with assms(2) show ?thesis by simp
  qed
qed

lemma place_resolved: "resolved_path h root p \<Longrightarrow> place h p = Inr q \<Longrightarrow> q = p"
  using place_real place_creatable by (auto simp: resolved_path_def)

lemma creatable_plain: "creatable h root p \<Longrightarrow> list_all plain p"
  using real_path_plain by (auto simp: creatable_def stuck_def)

lemma strip_slash_plain: "list_all plain p \<Longrightarrow> strip_slash p = p"
  using last_in_set [of p] by (cases "p = []") (auto simp: strip_slash_def list_all_iff plain_def)

lemma resolved_strip [simp]: "resolved_path h root p \<Longrightarrow> strip_slash p = p"
  using creatable_plain real_path_plain strip_slash_plain by (auto simp: resolved_path_def)

lemma resolved_prefix: "resolved_path h root p \<Longrightarrow> prefix root p"
  by (simp add: resolved_path_def)

lemma real_resolved: "real_path h p \<Longrightarrow> prefix root p \<Longrightarrow> resolved_path h root p"
  by (simp add: resolved_path_def)

lemma remove_below:
  assumes "resolved_path h root p"
  shows "only_below root h (snd (fs_remove h p))"
  using place_resolved [OF assms] resolved_prefix [OF assms]
  by (auto simp: fs_remove_def split: sum.split option.split hkind.split)

lemma fs_rename_cases:
  "snd (fs_rename h old new) = h \<or>
   (\<exists>a b. place h (strip_slash old) = Inr a \<and> place h (strip_slash new) = Inr b \<and>
      snd (fs_rename h old new) = move_tree a b h)"
proof (cases "place h (strip_slash old)")
  case (Inr a)
  show ?thesis
  proof (cases "place h (strip_slash new)")
    case b: (Inr b)
    with Inr show ?thesis
      by (cases "kind_at h a"; cases "kind_at h b") (simp_all add: fs_rename_def split: hkind.split)
  qed (simp add: fs_rename_def Inr)
qed (simp add: fs_rename_def)

lemma rename_below:
  assumes "resolved_path h root p" and "resolved_path h root q"
  shows "only_below root h (snd (fs_rename h p q))"
  using fs_rename_cases [of h p q] place_resolved [OF assms(1)] place_resolved [OF assms(2)]
    resolved_strip [OF assms(1)] resolved_strip [OF assms(2)]
    only_below_move [OF resolved_prefix [OF assms(1)] resolved_prefix [OF assms(2)], of h]
  by auto

lemma copy_below:
  assumes "resolved_path h root q"
  shows "only_below root h (snd (fs_copy_file h p q))"
  using place_resolved [OF assms] resolved_prefix [OF assms]
  by (auto simp: fs_copy_file_def split: prod.split sum.split hkind.split)

lemma existing_below:
  assumes "real_path h p" and "prefix root p"
  shows "only_below root h (snd (fs_resize_file h p n))"
    "only_below root h (snd (fs_set_last_write_time h p t))"
    "only_below root h (snd (fs_permissions h p m))"
  using assms
  by (auto simp: fs_resize_file_def fs_set_last_write_time_def fs_permissions_def
      split: option.split hkind.split)

lemma stream_below: "prefix root q \<Longrightarrow> only_below root h (snd (stream_write q d h))"
  by (auto simp: stream_write_def split: option.split hkind.split)

section \<open>Opening a file for writing\<close>

text \<open>A link at or below the root whose target, not existing, is again a link.\<close>

definition chained :: "host \<Rightarrow> fs_path \<Rightarrow> bool" where
  "chained h root \<longleftrightarrow> (\<exists>p ab t w ab' t'. prefix root p \<and> kind_at h p = Some (HLink ab t) \<and>
     fs_weakly_canonical h (if ab then t else butlast p @ t) = Inr w \<and>
     kind_at h w = Some (HLink ab' t'))"

text \<open>What the guard checks is where the creation goes, unless there is a chain.\<close>

lemma missing_leaf_place:
  assumes "namei h max_links [] p = Missing d x []" and "fs_weakly_canonical h p = Inr w"
    and "\<nexists>ab t. kind_at h w = Some (HLink ab t)"
  shows "w = d @ [x] \<and> list_all plain w"
proof -
  have "\<nexists>q. fs_canonical h p = Inr q" using assms(1) by (simp add: fs_canonical_def)
  from weakly_missing [OF assms(2) this] obtain pre r c rest where
    p: "p = pre @ c # rest" and r: "fs_canonical h pre = Inr r" and s: "stuck h r c"
    and w: "w = lexically_normal (r @ c # rest)" by blast
  from r obtain m where m: "namei h max_links [] pre = Found r m" by (auto simp: canonical_Inr)
  have rr: "real_path h r" "m \<le> max_links" using namei_Found [OF real_dir_Nil m] by auto
  have walk: "namei h max_links [] p = (if kind_at h r = Some HDir then namei h m r (c # rest)
      else Failed ENOTDIR)"
    using namei_append [OF real_dir_Nil, of h max_links pre "c # rest"] m by (simp add: p)
  with assms(1) have "kind_at h r = Some HDir" by (auto split: if_splits)
  with rr have rd: "real_dir h r" by (blast intro: real_path_dir)
  have miss: "namei h m r (c # rest) = Missing d x []" using walk assms(1) rd real_dir_HDir by auto
  then have "case namei h m r [c] of
      Found q k \<Rightarrow> True | Missing d' c' z \<Rightarrow> z @ rest = [] | Failed e \<Rightarrow> False"
    using namei_append [OF rd, of m "[c]" rest] by (auto split: walked.splits)
  moreover have nf: "namei h m r [c] \<noteq> Found q k" for q k
  proof
    assume f: "namei h m r [c] = Found q k"
    have "namei h max_links [] (r @ [c]) = namei h (m + (max_links - m)) r [c]"
      using namei_real_dir [of h "[]" r max_links "[c]"] rd rr by simp
    also have "\<dots> = Found q (k + (max_links - m))" using namei_mono [of h m r "[c]"] f by simp
    finally show False using s rd by (simp add: stuck_def)
  qed
  ultimately have rest: "rest = []" by (cases "namei h m r [c]") auto
  have pc: "plain c"
  proof (rule ccontr)
    assume "\<not> plain c"
    then have "\<exists>q. namei h m r [c] = Found q m"
      by (cases "c = ''..''") (simp_all add: namei.simps(2) plain_def)
    with nf show False by blast
  qed
  have "list_all plain (r @ [c])" using rr(1) real_path_plain pc by simp
  then have weq: "w = r @ [c]" using w rest by (simp add: lexically_normal_plain)
  have "kind_at h (r @ [c]) = None"
  proof (cases "kind_at h (r @ [c])")
    case (Some k)
    then show ?thesis
      using nf assms(3) weq namei_plain [OF pc, of h m r "[]"] by (cases k) auto
  qed
  with miss rest pc have "d = r \<and> x = c" by (simp add: namei_plain)
  with weq \<open>list_all plain (r @ [c])\<close> show ?thesis by simp
qed

lemma open_out_below:
  assumes "resolved_path h root p" and "\<not> chained h root" and "real_dir h root"
    and "open_out tr h p = Some (q, h')"
  shows "prefix root q \<and> only_below root h h'"
proof (cases "real_path h p")
  case True
  with assms(1,4) namei_real_path [OF True, of max_links] show ?thesis
    by (auto simp: open_out_def resolved_path_def split: option.splits hkind.splits if_splits)
next
  case False
  with assms(1) obtain r c rest where p: "p = r @ c # rest" and s: "stuck h r c"
    and pre: "prefix root r" and pl: "list_all plain (c # rest)"
    and g: "rest = [] \<and> real_dir h r \<longrightarrow> guarded h root p"
    by (auto simp: resolved_path_def creatable_def)
  from assms(4) have rd: "real_dir h r"
    using stuck_walk [OF s, of rest] by (auto simp: open_out_def p split: if_splits)
  then obtain d x z where m: "namei h max_links [] (r @ [c]) = Missing d x z"
    using assms(4) s stuck_walk [OF s, of rest] by (auto simp: open_out_def p stuck_def)
  then have z: "z = []" "rest = []" and q: "q = d @ [x]"
    and h': "h' = hset q (new_entry (HFile []) 0x1B6 h) h"
    using assms(4) stuck_walk [OF s, of rest] rd by (auto simp: open_out_def p split: if_splits)
  have walk: "namei h max_links [] (r @ [c]) = namei h max_links r [c]"
    using namei_real_dir [of h "[]" r max_links "[c]"] rd by simp
  have pc: "plain c" using pl by simp
  have "prefix root q"
  proof (cases "kind_at h p")
    case None
    with m walk pc show ?thesis using pre by (simp add: namei_plain p z q)
  next
    case (Some k)
    with m walk pc have "is_link k"
      by (cases k) (auto simp: namei_plain p z is_link_def)
    then obtain ab t where k: "kind_at h p = Some (HLink ab t)" using Some by (auto simp: is_link_def)
    then obtain n where n: "max_links = Suc n" by (auto simp: max_links_def numeral_eq_Suc)
    have "namei h n (if ab then [] else r) t = Missing d x []"
      using m walk pc k z by (simp add: namei_plain p n)
    moreover have "namei h max_links [] (if ab then t else r @ t) =
        namei h (n + 1) (if ab then [] else r) t"
      using namei_real_dir [of h "[]" r max_links t] rd by (simp add: n)
    ultimately have tgt: "namei h max_links [] (if ab then t else r @ t) = Missing d x []"
      using namei_mono [of h n "if ab then [] else r" t 1] by simp
    from g k rd z obtain w where w: "fs_weakly_canonical h (if ab then t else r @ t) = Inr w"
      "isWithinRoot w root" by (cases ab) (auto simp: guarded_def p)
    have b: "butlast p = r" using z p by simp
    have w1: "fs_weakly_canonical h (if ab then t else butlast p @ t) = Inr w"
      using w(1) by (simp only: b)
    have pp: "prefix root p" using assms(1) by (simp add: resolved_path_def)
    have "\<nexists>ab t. kind_at h w = Some (HLink ab t)"
      using assms(2) k w1 pp unfolding chained_def by blast
    from missing_leaf_place [OF tgt w(1) this] w(2) assms(3) show ?thesis
      by (auto simp: q isWithinRoot_iff real_dir_def)
  qed
  with h' show ?thesis by auto
qed

section \<open>Making directories\<close>

text \<open>Every entry of the host's table lies in a directory.\<close>

definition host_ok :: "host \<Rightarrow> bool" where
  "host_ok h \<longleftrightarrow> (\<forall>p c. kind_at h (p @ [c]) \<noteq> None \<longrightarrow> kind_at h p = Some HDir)"

lemma nothing_below:
  assumes "host_ok h" and "kind_at h p \<noteq> Some HDir"
  shows "kind_at h (p @ x # xs) = None"
proof (induction xs rule: rev_induct)
  case Nil
  show ?case using assms unfolding host_ok_def by blast
next
  case (snoc y ys)
  show ?case
  proof (rule ccontr)
    assume "kind_at h (p @ x # ys @ [y]) \<noteq> None"
    then have "kind_at h (p @ x # ys) = Some HDir"
      using assms(1) unfolding host_ok_def by (metis append.assoc append_Cons)
    with snoc.IH show False by simp
  qed
qed

lemma kind_at_hset:
  "kind_at (hset p e h) q = (if q = [] then Some HDir else if q = p then Some (he_kind e) else kind_at h q)"
  by (simp add: kind_at_def hlook_hset root_entry_def)

lemma real_dir_new:
  assumes "real_dir h r" and "plain c" and "he_kind e = HDir"
  shows "real_dir (hset (r @ [c]) e h) (r @ [c])"
  using assms by (auto simp: real_dir_def kind_at_hset)

lemma new_entry_kind [simp]: "he_kind (new_entry k m h) = k"
  by (simp add: new_entry_def)

lemma canonical_stuck: "stuck h r c \<Longrightarrow> \<nexists>q. fs_canonical h (r @ c # cs) = Inr q"
  using stuck_walk [of h r c cs]
  by (auto simp: canonical_Inr stuck_def split: if_splits walked.splits)

lemma create_one:
  assumes "real_dir h r" and "plain c" and "fs_create_directory h (r @ [c]) = (ec, h')"
  shows "hlook h (r @ [c]) = None \<and> ec = None \<and> h' = hset (r @ [c]) (new_entry HDir 0x1FF h) h \<or>
    hlook h (r @ [c]) \<noteq> None \<and> h' = h \<and> (ec = None \<longleftrightarrow> is_directory (fst (fs_status h (r @ [c]))))"
proof -
  have "strip_slash (r @ [c]) = r @ [c]" using assms(2) by (simp add: strip_slash_def plain_def)
  with place_snoc [OF assms(1,2)] assms(3) show ?thesis
    by (auto simp: fs_create_directory_def split: option.splits if_splits)
qed

fun chain :: "fs_path \<Rightarrow> fs_path \<Rightarrow> fs_path list" where
  "chain r [] = []"
| "chain r (c # cs) = (r @ [c]) # chain (r @ [c]) cs"

lemma chain_take: "map (\<lambda>i. take i (r @ cs)) [Suc (length r)..<Suc (length (r @ cs))] = chain r cs"
proof (induction cs arbitrary: r)
  case (Cons c cs)
  have "[Suc (length r)..<Suc (length (r @ c # cs))] =
      Suc (length r) # [Suc (length (r @ [c]))..<Suc (length ((r @ [c]) @ cs))]"
    by (subst upt_conv_Cons) (simp_all del: upt.simps)
  with Cons [of "r @ [c]"] show ?case by (simp del: upt.simps)
qed simp

lemma create_chain:
  assumes "real_dir h r" and "prefix root r" and "list_all plain (c # cs)"
    and "kind_at h (r @ [c]) = None \<and> (\<forall>x xs. kind_at h (r @ c # x # xs) = None) \<or>
      kind_at h (r @ [c]) \<noteq> None \<and> \<not> is_directory (fst (fs_status h (r @ [c])))"
    and "create_all (chain r (c # cs)) h = (ec, h')"
  shows "only_below root h h' \<and> (ec = None \<longrightarrow> real_dir h' (r @ c # cs))"
  using assms
proof (induction cs arbitrary: h r c)
  case Nil
  obtain ec1 h1 where one: "fs_create_directory h (r @ [c]) = (ec1, h1)" by fastforce
  with Nil have "ec = ec1 \<and> h' = h1" by (cases ec1) auto
  moreover have "only_below root h (hset (r @ [c]) e h)" for e using Nil(2) by auto
  ultimately show ?case
    using create_one [OF Nil(1) _ one] Nil real_dir_new [OF Nil(1)]
    by (auto simp: kind_at_def)
next
  case (Cons x xs)
  from Cons.prems(3) have pc: "plain c" and pxs: "list_all plain (x # xs)" by auto
  obtain ec1 h1 where one: "fs_create_directory h (r @ [c]) = (ec1, h1)" by fastforce
  show ?case
  proof (cases "hlook h (r @ [c]) = None")
    case False
    with create_one [OF Cons.prems(1) pc one] have old: "h1 = h"
      "ec1 = None \<longleftrightarrow> is_directory (fst (fs_status h (r @ [c])))" by auto
    with False have "ec1 \<noteq> None" using Cons.prems(4) by (auto simp: kind_at_def)
    with one old Cons.prems(5) show ?thesis by auto
  next
    case True
    with create_one [OF Cons.prems(1) pc one] have new: "hlook h (r @ [c]) = None" "ec1 = None"
      "h1 = hset (r @ [c]) (new_entry HDir 0x1FF h) h" by auto
    have rd: "real_dir h1 (r @ [c])"
      unfolding new(3) by (rule real_dir_new [OF Cons.prems(1) pc]) simp
    have b: "only_below root h h1" using new Cons.prems(2) by auto
    have none: "kind_at h (r @ c # y # ys) = None" for y ys
      using Cons.prems(4) new(1) by (auto simp: kind_at_def)
    have n1: "kind_at h1 ((r @ [c]) @ [x]) = None \<and>
        (\<forall>y ys. kind_at h1 ((r @ [c]) @ x # y # ys) = None)"
      using none by (simp add: new(3) kind_at_hset)
    have rest: "create_all (chain (r @ [c]) (x # xs)) h1 = (ec, h')"
      using Cons.prems(5) one new(2) by simp
    have "prefix root (r @ [c])" using Cons.prems(2) by simp
    from Cons.IH [OF rd this pxs disjI1 [OF n1] rest] b show ?thesis
      using only_below_trans by auto
  qed
qed

lemma missing_dirs_spec:
  "missing_dirs h p (Suc n) = Inr ps \<Longrightarrow>
     \<exists>m\<le>n. ps = map (\<lambda>i. take i p) [Suc m..<Suc (Suc n)] \<and>
       is_directory (fst (fs_status h (take m p))) \<and>
       (\<forall>i. m < i \<and> i \<le> n \<longrightarrow> (\<nexists>q. fs_canonical h (take i p) = Inr q))"
proof (induction n arbitrary: ps)
  case 0
  have "real_path h []" by (simp add: real_dir_path)
  then have "is_directory (fst (fs_status h []))" "st_exists (fst (fs_status h []))"
    by (auto simp: status_directory status_exists)
  with 0 show ?case by (auto simp: split_beta)
next
  case (Suc n)
  show ?case
  proof (cases "st_exists (fst (fs_status h (take (Suc n) p)))")
    case True
    with Suc.prems show ?thesis
      by (intro exI [of _ "Suc n"]) (auto simp: split_beta simp del: missing_dirs.simps
          simp add: missing_dirs.simps(2) [of h p "Suc n"] split: if_splits)
  next
    case False
    then obtain qs where qs: "missing_dirs h p (Suc n) = Inr qs" "ps = qs @ [take (Suc (Suc n)) p]"
      using Suc.prems missing_dirs.simps(2) [of h p "Suc n"]
      by (auto simp del: missing_dirs.simps simp: split_beta split: if_splits sum.splits)
    from Suc.IH [OF qs(1)] obtain m where m: "m \<le> n" "qs = map (\<lambda>i. take i p) [Suc m..<Suc (Suc n)]"
      "is_directory (fst (fs_status h (take m p)))"
      "\<And>i. m < i \<and> i \<le> n \<Longrightarrow> \<nexists>q. fs_canonical h (take i p) = Inr q" by blast
    have "ps = map (\<lambda>i. take i p) [Suc m..<Suc (Suc (Suc n))]" using m qs(2) by simp
    moreover have "\<nexists>q. fs_canonical h (take i p) = Inr q" if "m < i \<and> i \<le> Suc n" for i
      using that m(4) [of i] False by (cases "i = Suc n") (auto simp: status_exists)
    ultimately show ?thesis using m(1,3) by (intro exI [of _ m]) auto
  qed
qed

lemma create_directories_below:
  assumes "resolved_path h root p" and "host_ok h" and "fs_create_directories h p = (ec, h')"
  shows "only_below root h h' \<and> (ec = None \<longrightarrow> real_dir h' p)"
proof (cases "\<exists>q. fs_canonical h p = Inr q")
  case True
  then have "\<not> creatable h root p" using canonical_stuck by (auto simp: creatable_def)
  with assms(1) have r: "real_path h p" by (simp add: resolved_path_def)
  then have "st_exists (fst (fs_status h p))" "status_known (fst (fs_status h p))"
    "is_directory (fst (fs_status h p)) \<longleftrightarrow> real_dir h p"
    by (auto simp: status_exists status_known status_directory)
  with assms(3) show ?thesis
    by (auto simp: fs_create_directories_def split_beta split: if_splits)
next
  case False
  then have "\<not> real_path h p" by auto
  with assms(1) obtain r c cs where p: "p = r @ c # cs" and s: "stuck h r c"
    and pre: "prefix root r" and pl: "list_all plain (c # cs)"
    by (auto simp: resolved_path_def creatable_def)
  have nd: "\<not> is_directory (fst (fs_status h p))" "\<not> st_exists (fst (fs_status h p))"
    using False by (auto simp: status_directory status_exists)
  have len: "length p = Suc (length r + length cs)" by (simp add: p)
  show ?thesis
  proof (cases "status_known (fst (fs_status h p)) \<and> (\<exists>ps. missing_dirs h p (length p) = Inr ps)")
    case True
    then obtain ps where ps: "missing_dirs h p (Suc (length r + length cs)) = Inr ps" using len by auto
    from missing_dirs_spec [OF ps] obtain m where m: "m \<le> length r + length cs"
      "ps = map (\<lambda>i. take i p) [Suc m..<Suc (length p)]" "is_directory (fst (fs_status h (take m p)))"
      "\<And>i. m < i \<and> i \<le> length r + length cs \<Longrightarrow> \<nexists>q. fs_canonical h (take i p) = Inr q"
      by (auto simp: len)
    have rp: "real_path h r" using s by (simp add: stuck_def)
    have "m \<le> length r"
    proof (rule ccontr)
      assume "\<not> m \<le> length r"
      then obtain k where "m = Suc (length r + k)" by (metis less_iff_Suc_add not_le)
      then have "take m p = r @ c # take k cs" by (simp add: p)
      with m(3) canonical_stuck [OF s, of "take k cs"] show False by (auto simp: status_directory)
    qed
    moreover have "\<not> m < length r"
      using m(4) [of "length r"] rp by (auto simp: p)
    ultimately have mr: "m = length r" by simp
    with m(3) rp have rd: "real_dir h r" by (auto simp: p status_directory)
    have "ps = chain r (c # cs)" using m(2) mr chain_take [of r "c # cs"] by (simp add: p)
    then have run: "create_all (chain r (c # cs)) h = (ec, h')"
      using assms(3) nd True ps len resolved_strip [OF assms(1)]
      by (simp add: fs_create_directories_def split_beta)
    have "kind_at h (r @ [c]) = None \<and> (\<forall>x xs. kind_at h (r @ c # x # xs) = None) \<or>
      kind_at h (r @ [c]) \<noteq> None \<and> \<not> is_directory (fst (fs_status h (r @ [c])))"
      using nothing_below [OF assms(2), of "r @ [c]"] canonical_stuck [OF s, of "[]"]
      by (cases "kind_at h (r @ [c])") (auto simp: status_directory)
    from create_chain [OF rd pre pl this run] show ?thesis by (simp add: p)
  next
    case no: False
    have "ec \<noteq> None \<and> h' = h"
    proof (cases "status_known (fst (fs_status h p))")
      case True
      with no obtain e where "missing_dirs h p (length p) = Inl e" by (cases "missing_dirs h p (length p)") auto
      with True assms(3) nd resolved_strip [OF assms(1)] show ?thesis
        by (auto simp: fs_create_directories_def split_beta)
    next
      case False
      then have "snd (fs_status h p) \<noteq> None"
        using False status_known [of h p] by (auto simp: fs_status_def)
      with False assms(3) nd show ?thesis
        by (auto simp: fs_create_directories_def split_beta)
    qed
    then show ?thesis by auto
  qed
qed

lemma create_directory_below:
  assumes "resolved_path h root p" and "fs_create_directory h p = (ec, h')"
  shows "only_below root h h' \<and> (ec = None \<longrightarrow> real_dir h' p)"
proof (cases "place h p")
  case (Inl e)
  with assms resolved_strip [OF assms(1)] show ?thesis
    by (auto simp: fs_create_directory_def place_def split: if_splits walked.splits
        dest!: namei_Failed [OF real_dir_Nil])
next
  case (Inr q)
  then have q: "q = p" using place_resolved [OF assms(1)] by simp
  have "p \<noteq> []" using Inr by (auto simp: place_def)
  moreover have "real_dir h (butlast p) \<and> plain (last p)"
    using assms(1) place_creatable [of h root p q] Inr real_path_parent [of h p] \<open>p \<noteq> []\<close>
    by (auto simp: resolved_path_def)
  ultimately obtain r c where p: "p = r @ [c]" "real_dir h r" "plain c"
    by (metis append_butlast_last_id)
  have "real_dir h p" if "is_directory (fst (fs_status h p))"
  proof -
    from that obtain x where x: "fs_canonical h p = Inr x" "real_dir h x" by (auto simp: status_directory)
    then have "\<not> creatable h root p" using canonical_stuck by (auto simp: creatable_def)
    with assms(1) x show ?thesis by (auto simp: resolved_path_def)
  qed
  with create_one [of h r c ec h'] assms p real_dir_new [of h r c] resolved_prefix [OF assms(1)]
  show ?thesis by auto
qed

section \<open>Every operation\<close>

fun op_paths :: "vfs_op \<Rightarrow> string list" where
  "op_paths (OpReadFile p) = [p]"
| "op_paths (OpReadFileBytes p) = [p]"
| "op_paths (OpWriteFile p d) = [p]"
| "op_paths (OpAppendFile p d) = [p]"
| "op_paths (OpUnlink p) = [p]"
| "op_paths (OpMkdir p r m) = [p]"
| "op_paths (OpRmdir p) = [p]"
| "op_paths (OpReaddir p) = [p]"
| "op_paths (OpStat p) = [p]"
| "op_paths (OpLstat p) = [p]"
| "op_paths (OpExists p) = [p]"
| "op_paths (OpRename p q) = [p, q]"
| "op_paths (OpCopyFile p q) = [p, q]"
| "op_paths (OpTruncate p n) = [p]"
| "op_paths (OpUtimes p a m) = [p]"
| "op_paths (OpAccess p m) = [p]"

lemma real_query_keeps: "is_query x \<Longrightarrow> be_effect (RealFSBackend root) x h = h"
  by (cases x) (auto simp: RealFSBackend_def real_readFile_def real_readFileBytes_def
      real_readdir_def real_stat_def real_lstat_def real_exists_def real_access_def Let_def
      split: sum.split option.split prod.split)

lemma snd_ec_result [simp]: "snd (ec_result x) = snd x"
  by (cases x rule: ec_result.cases) simp_all

end
