(* ===== verification/RealProps.thy ===== *)
theory RealProps
  imports RealConfine VirtualFS
begin

text \<open>
  The properties of the disk backend: the gate, confinement of reads and writes, what \<open>stat\<close>
  reports, and the cases in which the code does less than it promises.
\<close>

unbundle bit_operations_syntax

section \<open>Effects of the operations\<close>

lemma resolved_Existing:
  "real_dir h root \<Longrightarrow> real_resolve root path Existing h = Inr p \<Longrightarrow>
     resolved_path h root p \<and> real_path h p \<and> prefix root p"
  using resolve_Existing_Inr real_resolved by blast

lemma resolved_Creating:
  "real_dir h root \<Longrightarrow> canonical_path path \<Longrightarrow> real_resolve root path Creating h = Inr p \<Longrightarrow>
     resolved_path h root p"
  using resolve_Creating by (simp add: resolved_path_def)

lemma write_below:
  assumes "real_dir h root" and "canonical_path path" and "\<not> chained h root"
  shows "only_below root h (snd (real_writeFile root path d h))"
    and "only_below root h (snd (real_appendFile root path d h))"
proof -
  have "only_below root h (snd (case open_out tr h p of
      None \<Rightarrow> (Inl EACCES, h)
    | Some (q, h) \<Rightarrow>
        (case stream_write q d h of (out, h) \<Rightarrow> if \<not> out then (Inl EIO, h) else (Inr (), h))))"
    if r: "real_resolve root path Creating h = Inr p" for tr p
  proof (cases "open_out tr h p")
    case (Some x)
    obtain q h' where x: "x = (q, h')" by fastforce
    from open_out_below [OF resolved_Creating [OF assms(1,2) r] assms(3,1)] Some x
    have "prefix root q" "only_below root h h'" by blast+
    then have "only_below root h (snd (stream_write q d h'))"
      using stream_below only_below_trans by blast
    with Some x show ?thesis by (simp add: split_beta)
  qed simp
  then show "only_below root h (snd (real_writeFile root path d h))"
    and "only_below root h (snd (real_appendFile root path d h))"
    by (auto simp: real_writeFile_def real_appendFile_def split: sum.split)
qed

lemma mkdir_below:
  assumes "real_dir h root" and "canonical_path path" and "host_ok h"
  shows "only_below root h (snd (real_mkdir root path rec mode h))"
proof (cases "real_resolve root path Creating h")
  case (Inr p)
  have r: "resolved_path h root p" by (rule resolved_Creating [OF assms(1,2) Inr])
  obtain ec h' where call: "(if rec then fs_create_directories h p else fs_create_directory h p) = (ec, h')"
    by fastforce
  have b: "only_below root h h' \<and> (ec = None \<longrightarrow> real_dir h' p)"
    using create_directories_below [OF r assms(3)] create_directory_below [OF r] call
    by (auto split: if_splits)
  have "only_below root h' (snd (fs_permissions h' p m))" if "ec = None" for m
    using existing_below(3) b that real_dir_path resolved_prefix [OF r] by blast
  with b call Inr show ?thesis
    by (cases ec) (auto simp: real_mkdir_def intro: only_below_trans)
qed (simp add: real_mkdir_def)

lemma real_effect_below:
  assumes "real_dir h root" and "host_ok h" and "\<not> chained h root"
    and "list_all canonical_path (op_paths x)"
  shows "only_below root h (be_effect (RealFSBackend root) x h)"
proof (cases "is_query x")
  case True
  then show ?thesis by (simp add: real_query_keeps)
next
  case False
  note defs = RealFSBackend_def real_unlink_def real_rmdir_def real_rename_def real_copyFile_def
    real_truncate_def real_utimes_def
  note E = resolved_Existing [OF assms(1)] and C = resolved_Creating [OF assms(1)]
  from False assms(4) show ?thesis
    using write_below [OF assms(1) _ assms(3)] mkdir_below [OF assms(1) _ assms(2)]
    by (cases x) (auto simp: defs split: sum.split intro: existing_below remove_below rename_below
        copy_below dest: E C)
qed

section \<open>A host for the examples\<close>

definition demo_file :: "bytes \<Rightarrow> hentry" where
  "demo_file b = \<lparr>he_kind = HFile b, he_perms = 0x1A4, he_nlink = 1, he_mtime = 5\<rparr>"

definition demo_dir :: hentry where
  "demo_dir = \<lparr>he_kind = HDir, he_perms = 0x1FF, he_nlink = 2, he_mtime = 5\<rparr>"

definition demo_link :: "bool \<Rightarrow> fs_path \<Rightarrow> hentry" where
  "demo_link ab t = \<lparr>he_kind = HLink ab t, he_perms = 0x1FF, he_nlink = 1, he_mtime = 5\<rparr>"

text \<open>A sandbox \<open>/s\<close> with a file, a directory and the given links; outside it \<open>/o\<close> with a file.\<close>

definition demo_host :: "(fs_path \<times> hentry) list \<Rightarrow> host" where
  "demo_host links = \<lparr>h_tree =
     [([''s''], demo_dir), ([''s'', ''f''], demo_file [7]), ([''s'', ''d''], demo_dir),
      ([''o''], demo_dir), ([''o'', ''x''], demo_file [1, 2])] @ links,
     h_now = 100, h_umask = 0x12, h_epoch = 6437664000000, h_space = 1000, h_bufsz = 1024,
     h_badread = []\<rparr>"

lemma demo_root: "real_dir (demo_host links) [''s'']"
  using real_dir_snoc [of "demo_host links" "[]" "''s''"]
  by (simp add: kind_at_def hlook_def demo_host_def demo_dir_def plain_def)

lemma demo_ok: "host_ok (demo_host [])"
  by (auto simp: host_ok_def kind_at_def hlook_def demo_host_def demo_dir_def root_entry_def
      split: if_splits)

lemma demo_unchained: "\<not> chained (demo_host []) root"
  by (auto simp: chained_def kind_at_def hlook_def demo_host_def demo_dir_def demo_file_def
      root_entry_def split: if_splits)

section \<open>The gate\<close>

text \<open>
  C14. The gate of the disk backend. For a path that must exist, any string whatever: it opens
  exactly when the path resolves, links and dot-dots followed, to an entry at or below the root,
  and then hands on that link-free entry; a path that resolves outside is EACCES. For a path to
  create, as the router hands it on: what passes lies at or below the root, and it is the
  resolved entry whenever the path exists.
\<close>

theorem real_gate:
  assumes "real_dir h root"
  shows "(real_resolve root path Existing h = Inr p \<longleftrightarrow>
        fs_canonical h (makePath root path) = Inr p \<and> prefix root p) \<and>
     (fs_canonical h (makePath root path) = Inr p \<and> \<not> prefix root p \<longrightarrow>
        real_resolve root path Existing h = Inl EACCES) \<and>
     (real_resolve root path Existing h = Inr p \<longrightarrow> real_path h p) \<and>
     (canonical_path path \<and> real_resolve root path Creating h = Inr p \<longrightarrow>
        prefix root p \<and>
        (\<forall>q. fs_canonical h (makePath root path) = Inr q \<longrightarrow> p = q))"
proof (intro conjI impI allI)
  show "real_resolve root path Existing h = Inr p \<longleftrightarrow>
      fs_canonical h (makePath root path) = Inr p \<and> prefix root p"
    using resolve_Existing [OF assms, of path] by (auto split: sum.splits if_splits)
  show "real_resolve root path Existing h = Inl EACCES"
    if "fs_canonical h (makePath root path) = Inr p \<and> \<not> prefix root p"
    using resolve_Existing [OF assms, of path] that by simp
  show "real_path h p" if "real_resolve root path Existing h = Inr p"
    using resolve_Existing_Inr [OF assms that] by simp
  show "prefix root p" if "canonical_path path \<and> real_resolve root path Creating h = Inr p"
    using resolve_Creating [OF assms, of path p] that by simp
  show "p = q" if "canonical_path path \<and> real_resolve root path Creating h = Inr p"
    "fs_canonical h (makePath root path) = Inr q" for q
    using that by (auto simp: real_resolve_def Let_def split: if_splits)
qed

theorem real_gate_witness:
  "real_resolve [''s''] ''/d/../l/x'' Existing (demo_host [([''s'', ''l''], demo_link True [''o''])]) = Inl EACCES"
proof -
  let ?h = "demo_host [([''s'', ''l''], demo_link True [''o''])]"
  have "fs_canonical ?h (makePath [''s''] ''/d/../l/x'') = Inr [''o'', ''x'']" by code_simp
  then show ?thesis
    using real_gate [OF demo_root, where path = "''/d/../l/x''" and p = "[''o'', ''x'']"] by simp
qed

text \<open>
  C15. A read never returns anything from outside the root: the bytes are those of the regular
  file, at or below the root, that the path resolves to, and the host is unchanged.
\<close>

theorem real_read_confined:
  assumes "real_dir h root" and "real_readFileBytes root path h = (Inr data, h')"
  shows "h' = h \<and> real_readFile root path h = (Inr (string_of_bytes data), h) \<and>
     (\<exists>p. prefix root p \<and> fs_canonical h (makePath root path) = Inr p \<and>
        kind_at h p = Some (HFile data))"
proof -
  obtain p where r: "real_resolve root path Existing h = Inr p"
    using assms(2) by (cases "real_resolve root path Existing h") (simp_all add: real_readFileBytes_def)
  obtain q where o: "open_in h p = Some (q, data)" "q \<notin> set (h_badread h)" "h' = h"
  proof (cases "open_in h p")
    case (Some x)
    with assms(2) r that [of "fst x"] show ?thesis
      by (cases x) (simp add: real_readFileBytes_def split: if_splits)
  qed (use assms(2) r in \<open>simp add: real_readFileBytes_def\<close>)
  from resolve_Existing_Inr [OF assms(1) r] have p: "real_path h p" "prefix root p" by auto
  have "fs_canonical h p = Inr p" using p(1) by simp
  then have k: "kind_at h p = Some (HFile data)"
  proof (cases "kind_at h p")
    case (Some k)
    with \<open>fs_canonical h p = Inr p\<close> o(1) show ?thesis by (cases k) (simp_all add: open_in_def)
  qed (use o(1) in \<open>simp add: open_in_def\<close>)
  have c: "fs_canonical h (makePath root path) = Inr p"
    using resolve_Existing [OF assms(1), of path] r by (auto split: sum.splits if_splits)
  have "real_readFile root path h = (Inr (string_of_bytes data), h)"
    using r o(1,2) by (simp add: real_readFile_def)
  with o(3) k c p(2) show ?thesis by blast
qed

theorem real_read_confined_witness:
  "real_readFile [''s''] ''/d/../f'' (demo_host []) = (Inr (string_of_bytes [7]), demo_host [])"
proof -
  have "real_readFileBytes [''s''] ''/d/../f'' (demo_host []) = (Inr [7], demo_host [])" by code_simp
  from real_read_confined [OF demo_root this] show ?thesis by blast
qed

text \<open>
  C16. Confinement of changes: for paths as the router hands them on, no operation of the backend
  changes, creates or removes an entry outside the root, whatever links there are, as long as no
  link at or below the root points to a further link that leads nowhere.
\<close>

theorem real_confined:
  assumes "real_dir h root" and "host_ok h" and "\<not> chained h root"
    and "list_all canonical_path (op_paths x)" and "\<not> prefix root q"
  shows "hlook (be_effect (RealFSBackend root) x h) q = hlook h q"
  using real_effect_below [OF assms(1-4)] assms(5) by (simp add: only_below_def)

theorem real_confined_witness:
  "hlook (be_effect (RealFSBackend [''s'']) (OpMkdir ''/a/b/c'' True 0) (demo_host [])) [''o'', ''x''] =
     Some (demo_file [1, 2])"
proof -
  have "normalize ''/a/b/c'' = ''/a/b/c''" by code_simp
  then have "list_all canonical_path (op_paths (OpMkdir ''/a/b/c'' True 0))"
    by (simp add: canonical_iff)
  from real_confined [OF demo_root demo_ok demo_unchained this, of "[''o'', ''x'']"] show ?thesis
    by (simp add: hlook_def demo_host_def)
qed

text \<open>
  A host of disk backends, each on a disk of its own, is a family as the router expects it, so
  the queries of the disk backend are read-only and so are its read-only mounts.
\<close>

interpretation real_family: backend_family "object_family (RealFSBackend root)" "\<lambda>i w. w i" for root
  by unfold_locales (simp_all add: object_family_effect real_query_keeps)

section \<open>Modes and Stat\<close>

lemma bits9: "(0x1FF :: u32) = 0x100 OR 0x80 OR 0x40 OR 0x20 OR 0x10 OR 8 OR 4 OR 2 OR 1"
  by simp

lemma copy_bit_eq: "copy_bit p (2 ^ k) m = m OR (p AND 2 ^ k)"
  by (rule bit_word_eqI)
    (auto simp: copy_bit_def bit_or_iff bit_and_iff bit_exp_iff and_exp_eq_0_iff_not_bit)

lemma permsToMode_eq: "permsToMode p = p AND 0x1FF"
proof -
  have "permsToMode p = 0 OR (p AND 0x100) OR (p AND 0x80) OR (p AND 0x40) OR (p AND 0x20) OR
      (p AND 0x10) OR (p AND 8) OR (p AND 4) OR (p AND 2) OR (p AND 1)"
    using copy_bit_eq [of p 8] copy_bit_eq [of p 7] copy_bit_eq [of p 6] copy_bit_eq [of p 5]
      copy_bit_eq [of p 4] copy_bit_eq [of p 3] copy_bit_eq [of p 2] copy_bit_eq [of p 1]
      copy_bit_eq [of p 0]
    by (simp add: permsToMode_def Let_def or.assoc)
  also have "\<dots> = p AND 0x1FF"
    by (simp only: bits9 bit.conj_disj_distrib or.left_neutral)
  finally show ?thesis .
qed


lemma modeToPerms_eq: "modeToPerms m = m AND 0x1FF"
  using permsToMode_eq [of m] by (simp add: modeToPerms_def permsToMode_def)

text \<open>
  C17. The two permission conversions keep exactly the nine permission bits, so they are inverse to
  each other on permissions; together with the type bits they make a mode from which both can
  be read back, for each of the seven file types.
\<close>

theorem real_modes:
  "permsToMode p = p AND 0x1FF \<and> modeToPerms m = m AND 0x1FF \<and>
   modeToPerms (permsToMode p) = p AND 0x1FF \<and>
   permsToMode (fileTypeToMode t OR permsToMode p) = permsToMode p \<and>
   (let s = stat_init\<lparr>st_mode := fileTypeToMode t OR permsToMode p\<rparr>
    in (isFile s \<longleftrightarrow> t = Ft_regular) \<and> (isDir s \<longleftrightarrow> t = Ft_directory) \<and>
       (isSymlink s \<longleftrightarrow> t = Ft_symlink) \<and> (isChr s \<longleftrightarrow> t = Ft_character) \<and>
       (isBlk s \<longleftrightarrow> t = Ft_block) \<and> (isFifo s \<longleftrightarrow> t = Ft_fifo) \<and>
       (isSock s \<longleftrightarrow> t = Ft_socket))"
proof -
  have lo: "fileTypeToMode t AND 0x1FF = 0" by (cases t) (simp_all add: kType_defs)
  have hi: "fileTypeToMode t AND 0xF000 = fileTypeToMode t" by (cases t) (simp_all add: kType_defs)
  have "(p AND 0x1FF) AND 0xF000 = 0" by (simp add: and.assoc)
  with hi have "(fileTypeToMode t OR (p AND 0x1FF)) AND 0xF000 = fileTypeToMode t"
    by (simp only: bit.conj_disj_distrib2 or.right_neutral)
  moreover have "(fileTypeToMode t OR (p AND 0x1FF)) AND 0x1FF = p AND 0x1FF"
    using lo by (simp only: bit.conj_disj_distrib2 or.left_neutral and.assoc and.idem)
  moreover have "(p AND 0x1FF) AND 0x1FF = p AND 0x1FF" by (simp add: and.assoc)
  ultimately show ?thesis
    by (cases t) (simp_all add: permsToMode_eq modeToPerms_eq stat_kind_defs stat_init_def Let_def
        kType_defs)
qed

lemma buildStat_file:
  assumes "real_path h p" and "kind_at h p = Some (HFile d)" and "hlook h p = Some e"
  shows "buildStat h p st = Inr (stat_init\<lparr>st_mode := fileTypeToMode (fs_type st) OR permsToMode (fs_perms st),
    st_nlink := of_nat (he_nlink e), st_size := of_nat (length d), st_mtimeMs := of_int (he_mtime e)\<rparr>)"
  using assms
  by (simp add: buildStat_def fs_file_size_def fs_entry_def fs_last_write_time_def stat_init_def)

text \<open>
  What the code says of an entry by kind. Only a regular file has a \<open>Stat\<close>, because the size is asked
  for first, and \<open>lstat\<close> is \<open>stat\<close>, because the gate has followed the links: neither is what the
  README promises, a \<open>Stat\<close> for directories and an \<open>lstat\<close> that does not follow links.
\<close>

lemma real_stat_kinds:
  assumes "real_dir h root" and "real_resolve root path Existing h = Inr p" and "hlook h p = Some e"
  shows "real_stat root path h =
     (case he_kind e of
        HFile d \<Rightarrow> Inr (stat_init\<lparr>st_mode := kTypeReg OR (he_perms e AND 0x1FF),
          st_nlink := of_nat (he_nlink e), st_size := of_nat (length d),
          st_mtimeMs := of_int (he_mtime e)\<rparr>)
      | HDir \<Rightarrow> Inl EISDIR
      | _ \<Rightarrow> Inl ENOTSUP, h) \<and>
   real_lstat root path h = real_stat root path h"
proof -
  from resolve_Existing_Inr [OF assms(1,2)] have p: "real_path h p" "prefix root p" by auto
  have k: "kind_at h p = Some (he_kind e)" using assms(3) by (simp add: kind_at_def)
  have nl: "\<not> is_link (he_kind e)" using real_path_kind [OF p(1)] k by auto
  have st: "fs_status h p = (status_of e, None)" using p(1) assms(3) by (simp add: fs_status_def)
  have "fs_symlink_status h p = (status_of e, None)"
  proof (cases "p = []")
    case False
    then have par: "real_dir h (butlast p)" "plain (last p)" using real_path_parent [OF p(1)] by auto
    have "place h p = Inr p" using place_snoc [OF par] False by simp
    with par assms(3) False show ?thesis by (simp add: fs_symlink_status_def)
  qed (use st in \<open>simp add: fs_symlink_status_def\<close>)
  then have l: "real_lstat root path h = real_stat root path h"
    using st assms(2) by (simp add: real_lstat_def real_stat_def)
  have "real_stat root path h = (buildStat h p (status_of e), h)"
    using st assms(2) by (simp add: real_stat_def)
  moreover have "buildStat h p (status_of e) = (case he_kind e of
        HFile d \<Rightarrow> Inr (stat_init\<lparr>st_mode := kTypeReg OR (he_perms e AND 0x1FF),
          st_nlink := of_nat (he_nlink e), st_size := of_nat (length d),
          st_mtimeMs := of_int (he_mtime e)\<rparr>)
      | HDir \<Rightarrow> Inl EISDIR
      | _ \<Rightarrow> Inl ENOTSUP)"
  proof (cases "he_kind e")
    case (HFile d)
    with buildStat_file [OF p(1) _ assms(3), of d] k show ?thesis
      by (simp add: status_of_def permsToMode_eq)
  next
    case HDir
    with p(1) k show ?thesis by (simp add: buildStat_def fs_file_size_def)
  next
    case (HSpecial s)
    with p(1) k show ?thesis by (simp add: buildStat_def fs_file_size_def)
  qed (use nl in \<open>simp add: is_link_def\<close>)
  ultimately show ?thesis using l by simp
qed

lemma directory_stat_fails:
  "fst (real_stat [''s''] ''/d'' (demo_host [])) = Inl EISDIR"
proof -
  have "real_resolve [''s''] ''/d'' Existing (demo_host []) = Inr [''s'', ''d'']" by code_simp
  moreover have "hlook (demo_host []) [''s'', ''d''] = Some demo_dir" by code_simp
  ultimately show ?thesis using real_stat_kinds [OF demo_root] by (simp add: demo_dir_def)
qed

lemma lstat_follows_links:
  "fst (real_lstat [''s''] ''/l'' (demo_host [([''s'', ''l''], demo_link False [''f''])])) =
   fst (real_stat [''s''] ''/f'' (demo_host [([''s'', ''l''], demo_link False [''f''])]))"
  by code_simp

text \<open>
  C18. \<open>stat\<close> tells the truth about entries inside the root and leaves the host alone. If the gate
  refuses the path, \<open>stat\<close> fails with its error. If the gate opens, on an entry at or below the root,
  then a regular file gets its type, its nine permission bits, its link count, its size and its
  modification time; and whatever \<open>Stat\<close> is returned, for an entry of any kind, has the type,
  permissions, link count and modification time of that entry.
\<close>

theorem real_stat_spec:
  assumes "real_dir h root"
  shows "snd (real_stat root path h) = h \<and>
    (case real_resolve root path Existing h of
       Inl e \<Rightarrow> fst (real_stat root path h) = Inl e
     | Inr p \<Rightarrow> prefix root p \<and> fs_canonical h (makePath root path) = Inr p \<and>
         (\<forall>e d. hlook h p = Some e \<longrightarrow> he_kind e = HFile d \<longrightarrow>
            fst (real_stat root path h) = Inr (stat_init\<lparr>st_mode := kTypeReg OR (he_perms e AND 0x1FF),
              st_nlink := of_nat (he_nlink e), st_size := of_nat (length d), st_mtimeMs := of_int (he_mtime e)\<rparr>)) \<and>
         (\<forall>st. fst (real_stat root path h) = Inr st \<longrightarrow>
            (\<exists>e. hlook h p = Some e \<and>
               st_mode st = fileTypeToMode (type_of_kind (he_kind e)) OR (he_perms e AND 0x1FF) \<and>
               st_nlink st = of_nat (he_nlink e) \<and> st_mtimeMs st = of_int (he_mtime e))))"
proof -
  have h: "snd (real_stat root path h) = h" by (simp add: real_stat_def split: sum.split prod.split option.split)
  show ?thesis
  proof (cases "real_resolve root path Existing h")
    case (Inl e)
    then show ?thesis using h by (simp add: real_stat_def)
  next
    case (Inr p)
    from resolve_Existing_Inr [OF assms Inr] have p: "real_path h p" "prefix root p" by auto
    have c: "fs_canonical h (makePath root path) = Inr p"
      using resolve_Existing [OF assms, of path] Inr by (auto split: sum.splits if_splits)
    note kinds = real_stat_kinds [OF assms Inr]
    have some: "\<exists>e. hlook h p = Some e" if "fst (real_stat root path h) = Inr st" for st
    proof (rule ccontr)
      assume "\<not> ?thesis"
      then have "hlook h p = None" by simp
      then have "kind_at h p = None" by (simp add: kind_at_def)
      with p(1) real_path_kind [OF p(1)] show False by auto
    qed
    show ?thesis
      using h p(2) c kinds some Inr
      by (auto split: hkind.splits)
  qed
qed

text \<open>A file seen through a link inside the root\<close>

theorem real_stat_spec_witness:
  "\<exists>st. fst (real_stat [''s''] ''/l'' (demo_host [([''s'', ''l''], demo_link False [''f''])])) = Inr st \<and>
     isFile st \<and> st_size st = 1"
proof -
  let ?h = "demo_host [([''s'', ''l''], demo_link False [''f''])]"
  have r: "real_resolve [''s''] ''/l'' Existing ?h = Inr [''s'', ''f'']" by code_simp
  have e: "hlook ?h [''s'', ''f''] = Some (demo_file [7])" by code_simp
  have "he_kind (demo_file [7]) = HFile [7]" by (simp add: demo_file_def)
  with real_stat_spec [OF demo_root, of "''/l''" "[([''s'', ''l''], demo_link False [''f''])]"] r e show ?thesis
    by (simp add: demo_file_def isFile_def kType_defs)
qed

end
