(* ===== verification/RealCases.thy ===== *)
theory RealCases
  imports RealProps MemProps
begin

text \<open>
  Runs of the disk backend on small hosts where it does less than its documentation says, or
  differs from the in-memory backend. The sandbox root is \<open>/s\<close> throughout.
\<close>

text \<open>
  A dot-dot behind a missing element cancels it lexically, so the rest of the path is not
  canonicalised: with a link to an outside directory, a write lands outside. (The router
  normalises dot-dots away, so this needs a direct caller of the backend.)
\<close>

lemma dotdot_behind_missing_escapes:
  "let h = demo_host [([''s'', ''l''], demo_link True [''o''])];
       (r, h') = real_writeFile [''s''] ''/missing/../l/x'' [9] h
   in r = Inr () \<and> kind_at h [''o'', ''x''] = Some (HFile [1, 2]) \<and>
      kind_at h' [''o'', ''x''] = Some (HFile [9])"
  by code_simp

text \<open>
  The guard against dangling links follows one link only: a link inside the root to a second one
  that dangles outside passes it, and opening the file follows both.
\<close>

lemma dangling_chain_escapes:
  "let h = demo_host [([''s'', ''a''], demo_link False [''b'']), ([''s'', ''b''], demo_link True [''o'', ''new''])];
       (r, h') = real_writeFile [''s''] ''/a'' [9] h
   in r = Inr () \<and> kind_at h [''o'', ''new''] = None \<and>
      kind_at h' [''o'', ''new''] = Some (HFile [9])"
  by code_simp

text \<open>
  A link to the outside tells whether its target exists: ENOENT when it does not, EACCES when it
  does.
\<close>

lemma dangling_link_tells:
  "fst (real_readFile [''s''] ''/b'' (demo_host [([''s'', ''b''], demo_link True [''o'', ''new''])])) = Inl ENOENT \<and>
   fst (real_readFile [''s''] ''/b'' (demo_host [([''s'', ''b''], demo_link True [''o'', ''x''])])) = Inl EACCES"
  by code_simp

text \<open>
  \<open>utimes\<close> hands its milliseconds to the file clock without converting them, so \<open>stat\<close> reads them
  back shifted by the difference of the two clocks' zeros.
\<close>

lemma utimes_shifts:
  "let h = demo_host [];
       (r, h') = real_utimes [''s''] ''/f'' 1000 2000 h
   in r = Inr () \<and> map_sum id (sint \<circ> st_mtimeMs) (fst (real_stat [''s''] ''/f'' h')) = Inr (2000 + h_epoch h)"
  by code_simp

text \<open>\<open>rmdir\<close> and \<open>unlink\<close> remove files and empty directories alike, an empty root included.\<close>

lemma rmdir_removes_file:
  "let (r, h') = real_rmdir [''s''] ''/f'' (demo_host []) in r = Inr () \<and> kind_at h' [''s'', ''f''] = None"
  by code_simp

lemma unlink_removes_root:
  "let h = snd (real_unlink [''s''] ''/f'' (snd (real_rmdir [''s''] ''/d'' (demo_host []))));
       (r, h') = real_unlink [''s''] ''/'' h
   in r = Inr () \<and> kind_at h [''s''] = Some HDir \<and> kind_at h' [''s''] = None"
  by code_simp

text \<open>\<open>unlink\<close> of a link removes what it points to and leaves the link behind, dangling.\<close>

lemma unlink_follows_link:
  "let h = demo_host [([''s'', ''k''], demo_link False [''f''])];
       (r, h') = real_unlink [''s''] ''/k'' h
   in r = Inr () \<and> kind_at h' [''s'', ''k''] = Some (HLink False [''f'']) \<and> kind_at h' [''s'', ''f''] = None"
  by code_simp

text \<open>The two backends disagree on targets that exist.\<close>

lemma backends_disagree:
  "fst (real_mkdir [''s''] ''/d'' False 0x1FF (demo_host [])) = Inr () \<and>
   (let m = snd (mem_mkdir ''/d'' False 0x1FF (MemFSBackend_ctor (\<lambda>i. 7)))
    in fst (mem_mkdir ''/d'' False 0x1FF m) = Inl EEXIST) \<and>
   fst (real_copyFile [''s''] ''/f'' ''/f2'' (demo_host [([''s'', ''f2''], demo_file [3])])) = Inl EEXIST \<and>
   (let m = snd (mem_writeFile ''/f2'' [3] (snd (mem_writeFile ''/f'' [7] (MemFSBackend_ctor (\<lambda>i. 7)))))
    in fst (mem_copyFile ''/f'' ''/f2'' m) = Inr ())"
  by code_simp

text \<open>
  A write that fits the stream buffer reports success even when the device takes none of it: the
  buffer is flushed by the destructor, whose failure nobody sees.
\<close>

lemma small_write_lost:
  "let (r, h') = real_writeFile [''s''] ''/f'' [1, 2, 3] ((demo_host [])\<lparr>h_space := 0\<rparr>)
   in r = Inr () \<and> kind_at h' [''s'', ''f''] = Some (HFile [])"
  by code_simp

section \<open>Read-only mounts\<close>

text \<open>
  C19. Read-only mounts are read-only: a backend in memory, or a disk, for which no mount of the router
  grants writing keeps its state through every sequence of calls of the router, whatever the paths
  and whatever links there are on the disk.
\<close>

theorem mounted_read_only:
  assumes "\<not> grants_write v j"
  shows "be_run (VirtualFS mem_objects v) xs w j = w j \<and>
    be_run (VirtualFS (object_family (RealFSBackend root)) v) xs h j = h j"
  using mem_family.vfs_run_keeps [OF assms] real_family.vfs_run_keeps [OF assms] by simp

theorem mounted_read_only_witness:
  "be_run (VirtualFS mem_objects \<lparr>m_mounts = [MountEntry ''/ro'' 1 0, MountEntry ''/'' 3 1]\<rparr>)
     [OpWriteFile ''/ro/f'' [1], OpCopyFile ''/x'' ''/ro/y'', OpMkdir ''/../ro/d'' True 0]
     (\<lambda>i. MemFSBackend_ctor (\<lambda>k. 7)) 0 = MemFSBackend_ctor (\<lambda>k. 7)"
proof -
  have "\<not> grants_write \<lparr>m_mounts = [MountEntry ''/ro'' 1 0, MountEntry ''/'' 3 1]\<rparr> 0"
    by (simp add: grants_write_def MountEntry_def perm_defs)
  from conjunct1 [OF mounted_read_only [OF this]] show ?thesis by (rule trans) (rule refl)
qed

end
