(* ===== verification/RealRoundtrip.thy ===== *)
theory RealRoundtrip
  imports RealProps
begin

text \<open>
  Reading back what was written through the disk backend: path resolution depends only on the
  shape of the host, and a new file is found where its creation walked.
\<close>

section \<open>Resolution after a change\<close>

fun shape :: "hkind \<Rightarrow> hkind" where
  "shape (HFile _) = HFile []"
| "shape k = k"

definition same_shape :: "host \<Rightarrow> host \<Rightarrow> bool" where
  "same_shape h h' \<longleftrightarrow> (\<forall>p. map_option shape (kind_at h p) = map_option shape (kind_at h' p))"

lemma shape_simps [simp]:
  "shape k = HDir \<longleftrightarrow> k = HDir" "shape k = HLink ab t \<longleftrightarrow> k = HLink ab t"
  "shape k = HSpecial s \<longleftrightarrow> k = HSpecial s" "shape k = HFile b \<longleftrightarrow> b = [] \<and> (\<exists>d. k = HFile d)"
  by (cases k; auto)+

lemma namei_shape: "same_shape h h' \<Longrightarrow> namei h n cur todo = namei h' n cur todo"
proof (induction h n cur todo rule: namei.induct)
  case (2 h n cur c todo)
  show ?case
  proof (cases "plain c")
    case False
    with 2 show ?thesis by (cases "c = ''..''") (simp_all add: namei.simps(2) plain_def)
  next
    case True
    then have sp: "\<not> (c = '''' \<or> c = ''.'')" "c \<noteq> ''..''" by (auto simp: plain_def)
    have k: "map_option shape (kind_at h (cur @ [c])) = map_option shape (kind_at h' (cur @ [c]))"
      using "2.prems" by (simp add: same_shape_def)
    show ?thesis
    proof (cases "kind_at h (cur @ [c])")
      case None
      with k True show ?thesis by (simp add: namei_plain)
    next
      case (Some ki)
      with k obtain ki' where k': "kind_at h' (cur @ [c]) = Some ki'" "shape ki' = shape ki"
        by (cases "kind_at h' (cur @ [c])") auto
      show ?thesis
      proof (cases ki)
        case HDir
        with 2 True Some k' sp show ?thesis by (simp add: namei_plain)
      next
        case (HLink ab t)
        with k' have "ki' = HLink ab t" by simp
        with 2 True Some HLink k' sp show ?thesis by (cases n) (simp_all add: namei_plain)
      next
        case (HFile d)
        with k' obtain d' where "ki' = HFile d'" by auto
        with True Some HFile k' show ?thesis by (simp add: namei_plain)
      next
        case (HSpecial s)
        with k' have "ki' = HSpecial s" by simp
        with True Some HSpecial k' show ?thesis by (simp add: namei_plain)
      qed
    qed
  qed
qed simp

lemma canonical_shape: "same_shape h h' \<Longrightarrow> fs_canonical h p = fs_canonical h' p"
  by (simp add: fs_canonical_def namei_shape)

text \<open>One more file: where a walk missed exactly this name, it now arrives.\<close>

definition one_file_more :: "fs_path \<Rightarrow> host \<Rightarrow> host \<Rightarrow> bool" where
  "one_file_more q h h' \<longleftrightarrow> kind_at h q = None \<and> (\<exists>b. kind_at h' q = Some (HFile b)) \<and>
     (\<forall>p. p \<noteq> q \<longrightarrow> kind_at h' p = kind_at h p)"

lemma namei_new_file:
  "one_file_more (d @ [x]) h h' \<Longrightarrow> real_dir h cur \<Longrightarrow> namei h n cur todo = Missing d x [] \<Longrightarrow>
     \<exists>k. namei h' n cur todo = Found (d @ [x]) k"
proof (induction h n cur todo rule: namei.induct)
  case (2 h n cur c todo)
  show ?case
  proof (cases "plain c")
    case False
    have "real_dir h (butlast cur)" using "2.prems"(2) real_dir_prefix prefixeq_butlast by blast
    with False 2 show ?thesis by (cases "c = ''..''") (simp_all add: namei.simps(2) plain_def)
  next
    case True
    then have sp: "\<not> (c = '''' \<or> c = ''.'')" "c \<noteq> ''..''" by (auto simp: plain_def)
    show ?thesis
    proof (cases "kind_at h (cur @ [c])")
      case None
      with "2.prems" True have "cur = d" "c = x" "todo = []" by (simp_all add: namei_plain)
      with "2.prems"(1) True show ?thesis by (auto simp: namei_plain one_file_more_def)
    next
      case (Some ki)
      with "2.prems"(1) have k': "kind_at h' (cur @ [c]) = Some ki"
        by (metis one_file_more_def option.distinct(1))
      show ?thesis
      proof (cases ki)
        case HDir
        with 2 True Some k' sp show ?thesis by (simp add: namei_plain)
      next
        case (HLink ab t)
        have "real_dir h (if ab then [] else cur)" using "2.prems"(2) by simp
        with 2 True Some HLink k' sp show ?thesis by (cases n) (simp_all add: namei_plain)
      qed (use 2 True Some in \<open>auto simp: namei_plain split: if_splits\<close>)
    qed
  qed
qed simp

section \<open>The round trip\<close>

lemma kind_at_space [simp]: "kind_at (h\<lparr>h_space := n\<rparr>) p = kind_at h p"
  by (simp add: kind_at_def hlook_def)

lemma stream_write_kind:
  assumes "kind_at h q = Some (HFile b)" and "length d \<le> h_space h" and "q \<noteq> []"
  shows "kind_at (snd (stream_write q d h)) p = (if p = q then Some (HFile (b @ d)) else kind_at h p)"
proof -
  from assms(1) obtain e where "hlook h q = Some e" "he_kind e = HFile b" by (auto simp: kind_at_def)
  with assms(2,3) show ?thesis
    by (auto simp: stream_write_def kind_at_hset)
qed

lemma stream_write_badread: "h_badread (snd (stream_write q d h)) = h_badread h"
  by (auto simp: stream_write_def hset_def split: option.split hkind.split)

lemma real_dir_mono: "real_dir h p \<Longrightarrow> (\<And>q. kind_at h q = Some HDir \<Longrightarrow> kind_at h' q = Some HDir) \<Longrightarrow> real_dir h' p"
  by (simp add: real_dir_def)

lemma read_at:
  assumes "real_dir h root" and "fs_canonical h (makePath root path) = Inr q" and "prefix root q"
    and "kind_at h q = Some (HFile d)" and "h_badread h = []"
  shows "real_readFileBytes root path h = (Inr d, h)"
proof -
  have "real_resolve root path Existing h = Inr q"
    using assms(2,3) by (simp add: resolve_Existing [OF assms(1)])
  moreover have "fs_canonical h q = Inr q" using canonical_real [OF assms(2)] by simp
  ultimately show ?thesis using assms(4,5) by (simp add: real_readFileBytes_def open_in_def)
qed

text \<open>What opening for writing leaves: an empty file at the place, found under the full path.\<close>

lemma open_trunc:
  assumes "real_dir h root" and "canonical_path path" and "\<not> chained h root"
    and "real_resolve root path Creating h = Inr p" and "open_out True h p = Some (q, h1)"
  shows "prefix root q \<and> q \<noteq> [] \<and> kind_at h1 q = Some (HFile []) \<and> h_space h1 = h_space h \<and>
    h_badread h1 = h_badread h \<and>
    (fs_canonical h (makePath root path) = Inr q \<and> (\<forall>p. p \<noteq> q \<longrightarrow> kind_at h1 p = kind_at h p) \<and>
       (\<exists>b. kind_at h q = Some (HFile b)) \<or>
     (\<exists>d x. q = d @ [x] \<and> namei h max_links [] (makePath root path) = Missing d x [] \<and>
       one_file_more q h h1))"
proof -
  have r: "resolved_path h root p" by (rule resolved_Creating [OF assms(1,2,4)])
  have pre: "prefix root q" using open_out_below [OF r assms(3,1,5)] by simp
  have q0: "q \<noteq> [] \<Longrightarrow> kind_at (hset q e h) x = (if x = q then Some (he_kind e) else kind_at h x)" for e x
    by (auto simp: kind_at_hset)
  show ?thesis
  proof (cases "fs_canonical h (makePath root path) = Inr p")
    case True
    then have rp: "real_path h p" by (rule canonical_real)
    then have w: "namei h max_links [] p = Found p max_links" by (rule namei_real_path)
    obtain e where e: "hlook h p = Some e" using real_path_hlook [OF rp] by blast
    obtain b where b: "he_kind e = HFile b"
      using assms(5) w e by (cases "he_kind e") (auto simp: open_out_def)
    have o: "q = p" "h1 = hset p (e\<lparr>he_kind := HFile [], he_mtime := h_now h\<rparr>) h"
      using assms(5) w e b by (auto simp: open_out_def)
    have "p \<noteq> []" using e b by (auto simp: root_entry_def)
    with o b e True pre q0 show ?thesis by (auto simp: kind_at_def hset_def)
  next
    case False
    with resolve_Creating_full [OF assms(1,2,4)] obtain pr r0 c0 rest where f:
      "makePath root path = pr @ c0 # rest" "fs_canonical h pr = Inr r0" "stuck h r0 c0"
      "fs_canonical h (pr @ [c0]) \<noteq> Inl ELOOP" "p = r0 @ c0 # rest"
      by (auto simp: created_from_def)
    have rd: "real_dir h r0"
      using assms(5) stuck_walk [OF f(3), of rest] by (auto simp: open_out_def f(5) split: if_splits)
    then obtain d x z where m: "namei h max_links [] (r0 @ [c0]) = Missing d x z"
      using assms(5) f(3) stuck_walk [OF f(3), of rest] by (auto simp: open_out_def f(5) stuck_def)
    then have z: "z = []" "rest = []" and q: "q = d @ [x]"
      and h1: "h1 = hset q (new_entry (HFile []) 0x1B6 h) h"
      using assms(5) stuck_walk [OF f(3), of rest] rd by (auto simp: open_out_def f(5) split: if_splits)
    from f(2) obtain k where k: "namei h max_links [] pr = Found r0 k" by (auto simp: canonical_Inr)
    have "namei h max_links [] (pr @ [c0]) \<noteq> Failed ELOOP" using f(4) by (auto simp: fs_canonical_def)
    from namei_from [OF k this rd] m z have full: "namei h max_links [] (makePath root path) = Missing d x []"
      by (cases "namei h max_links [] (pr @ [c0])") (simp_all add: f(1))
    have none: "kind_at h q = None" using namei_Missing [OF real_dir_Nil m] q by simp
    have "one_file_more q h h1" using none q q0 by (simp add: one_file_more_def h1)
    with full q pre h1 q0 show ?thesis by (auto simp: hset_def)
  qed
qed

text \<open>
  C20. Reading after writing, on the disk: when \<open>writeFile\<close> reports success on a path of the router,
  the device had space for the data, no file of the host is unreadable, and no link at or below the
  root points to a further link that leads nowhere, then \<open>readFileBytes\<close> of the same path returns
  exactly the data, whether the file was there, was new, or is reached through links.
\<close>

theorem real_write_then_read:
  assumes "real_dir h root" and "canonical_path path" and "\<not> chained h root"
    and "real_writeFile root path data h = (Inr (), h')"
    and "length data \<le> h_space h" and "h_badread h = []"
  shows "real_readFileBytes root path h' = (Inr data, h')"
proof -
  obtain p where p: "real_resolve root path Creating h = Inr p"
    using assms(4) by (cases "real_resolve root path Creating h") (simp_all add: real_writeFile_def)
  obtain q h1 where o: "open_out True h p = Some (q, h1)"
    using assms(4) p by (cases "open_out True h p") (auto simp: real_writeFile_def)
  have h': "h' = snd (stream_write q data h1)"
    using assms(4) p o by (simp add: real_writeFile_def split_beta split: if_splits)
  note ot = open_trunc [OF assms(1-3) p o]
  then have q: "prefix root q" "q \<noteq> []" "kind_at h1 q = Some (HFile [])" by auto
  have k: "kind_at h' x = (if x = q then Some (HFile data) else kind_at h1 x)" for x
    using stream_write_kind [OF q(3) _ q(2), of data x] ot assms(5) h' by simp
  have bad: "h_badread h' = []" using h' ot assms(6) stream_write_badread by simp
  from ot consider
      (old) b where "fs_canonical h (makePath root path) = Inr q" "kind_at h q = Some (HFile b)"
        "\<And>p. p \<noteq> q \<Longrightarrow> kind_at h1 p = kind_at h p"
    | (new) d x where "q = d @ [x]" "namei h max_links [] (makePath root path) = Missing d x []"
        "one_file_more q h h1" by auto
  then have "fs_canonical h' (makePath root path) = Inr q \<and> real_dir h' root"
  proof cases
    case old
    then have "same_shape h h'" using k by (auto simp: same_shape_def)
    with old canonical_shape have "fs_canonical h' (makePath root path) = Inr q" by metis
    moreover have "real_dir h' root" using assms(1) k old by (auto elim!: real_dir_mono)
    ultimately show ?thesis by simp
  next
    case new
    then have "one_file_more q h h'" using k by (auto simp: one_file_more_def)
    moreover from this have "real_dir h' root"
      by (intro real_dir_mono [OF assms(1)]) (metis one_file_more_def option.distinct(1))
    ultimately show ?thesis
      using namei_new_file [of d x h h' "[]" max_links "makePath root path"] new
      by (auto simp: canonical_Inr)
  qed
  then show ?thesis using read_at [of h' root path q data] q(1) k bad by simp
qed

theorem real_write_then_read_witness:
  "fst (real_readFileBytes [''s''] ''/d/new'' (snd (real_writeFile [''s''] ''/d/new'' [4, 5] (demo_host [])))) =
     Inr [4, 5]"
proof -
  have "normalize ''/d/new'' = ''/d/new''" by code_simp
  then have c: "canonical_path ''/d/new''" by (simp add: canonical_iff)
  have "fst (real_writeFile [''s''] ''/d/new'' [4, 5] (demo_host [])) = Inr ()" by code_simp
  then have w: "real_writeFile [''s''] ''/d/new'' [4, 5] (demo_host []) =
      (Inr (), snd (real_writeFile [''s''] ''/d/new'' [4, 5] (demo_host [])))"
    by (metis prod.collapse)
  have "length [4, 5 :: u8] \<le> h_space (demo_host [])" "h_badread (demo_host []) = []"
    by (simp_all add: demo_host_def)
  from real_write_then_read [OF demo_root c demo_unchained w this] show ?thesis by simp
qed

end
