(* ===== verification/EventLoop.thy ===== *)
theory EventLoop
  imports MemTree "HOL-Library.Multiset"
begin

text \<open>
  Timers, promise rejections and the event loop of \<open>SandboxContext\<close>
  (\<^verbatim>\<open>src/context.cpp\<close>, \<^verbatim>\<open>include/context_state.hpp\<close>, \<^verbatim>\<open>src/bindings/timers.cpp\<close>).

  QuickJS and asio are not part of the repository. What JavaScript code does when it is called is
  a parameter \<open>js\<close>: for a function value and the state it gives the calls it makes into the
  bindings and whether it throws. asio is the state of one timer (is it there, is a wait pending),
  the queue of handlers that are ready, and whether the \<open>io_context\<close> is stopped: it stops when it runs
  out of work, and then calls no handler until somebody restarts it, which no code does. Sockets,
  which have work on the same \<open>io_context\<close>, come in the theory \<open>Host\<close>. The clock readings to come are part of the state.
  The references that the context holds on JavaScript values are counted.
\<close>

type_synonym jsval = nat

section \<open>ContextState\<close>

record timer_entry =
  te_id :: int
  te_func :: jsval
  te_expiry :: int
  te_repeating :: bool
  te_interval_ms :: int
  te_cancelled :: bool

record heap_entry =
  hp_expiry :: int
  hp_id :: int

datatype handler = WaitAborted | Posted

text \<open>A call of a timer function by the loop, for the history of the state.\<close>

record firing =
  fi_id :: int
  fi_expiry :: int
  fi_repeating :: bool
  fi_func :: jsval

text \<open>\<open>c_wait\<close> is the expiry of the pending wait on \<open>next_timer\<close>.\<close>

record cstate =
  timer_heap :: "heap_entry list"
  timer_entries :: "(int \<times> timer_entry) list"
  next_timer :: bool
  c_wait :: "int option"
  next_timer_id :: int
  pending_rejections :: "(jsval \<times> jsval) list"
  stopping :: bool
  c_ready :: "handler list"
  c_stopped :: bool             \<comment> \<open>\<open>io_ctx_\<close> is stopped\<close>
  c_jobs :: "jsval list"
  c_clock :: "nat \<Rightarrow> int"
  c_refs :: "jsval \<Rightarrow> int"
  c_called :: "firing list"     \<comment> \<open>timer functions called so far, oldest first\<close>
  c_fatal :: "string option"    \<comment> \<open>what \<open>reportFatal\<close> printed\<close>

definition SandboxContext_init :: "(nat \<Rightarrow> int) \<Rightarrow> cstate" where
  "SandboxContext_init clock = \<lparr>timer_heap = [], timer_entries = [], next_timer = False,
     c_wait = None, next_timer_id = 1, pending_rejections = [], stopping = False, c_ready = [],
     c_stopped = False, c_jobs = [], c_clock = clock, c_refs = (\<lambda>_. 0), c_called = [], c_fatal = None\<rparr>"

definition allocTimerId :: "cstate \<Rightarrow> int \<times> cstate" where
  "allocTimerId c = (next_timer_id c, c\<lparr>next_timer_id := next_timer_id c + 1\<rparr>)"

text \<open>Time points and durations are nanoseconds; \<open>milliseconds(ms)\<close> is a duration.\<close>

definition milliseconds :: "int \<Rightarrow> int" where
  "milliseconds ms = ms * 1000000"

lemma milliseconds_sign [simp]: "0 \<le> milliseconds ms \<longleftrightarrow> 0 \<le> ms" "0 < milliseconds ms \<longleftrightarrow> 0 < ms"
  "milliseconds ms \<le> 0 \<longleftrightarrow> ms \<le> 0"
  by (simp_all add: milliseconds_def)

definition steady_now :: "cstate \<Rightarrow> int \<times> cstate" where
  "steady_now c = (c_clock c 0, c\<lparr>c_clock := (\<lambda>i. c_clock c (Suc i))\<rparr>)"

definition JS_DupValue :: "jsval \<Rightarrow> cstate \<Rightarrow> cstate" where
  "JS_DupValue v c = c\<lparr>c_refs := (c_refs c)(v := c_refs c v + 1)\<rparr>"

definition JS_FreeValue :: "jsval \<Rightarrow> cstate \<Rightarrow> cstate" where
  "JS_FreeValue v c = c\<lparr>c_refs := (c_refs c)(v := c_refs c v - 1)\<rparr>"

section \<open>The timer heap\<close>

text \<open>
  A \<open>std::priority_queue\<close> whose top has the least expiry. The standard does not say which of
  several equal ones comes first; here it is the oldest.
\<close>

definition heap_push :: "heap_entry \<Rightarrow> heap_entry list \<Rightarrow> heap_entry list" where
  "heap_push h hs = takeWhile (\<lambda>x. hp_expiry x \<le> hp_expiry h) hs @ h #
     dropWhile (\<lambda>x. hp_expiry x \<le> hp_expiry h) hs"

definition heap_sorted :: "heap_entry list \<Rightarrow> bool" where
  "heap_sorted hs \<longleftrightarrow> sorted_wrt (\<lambda>a b. hp_expiry a \<le> hp_expiry b) hs"

text \<open>What the timer code relies on.\<close>

locale min_queue =
  fixes push :: "'e \<Rightarrow> 'q \<Rightarrow> 'q" and top :: "'q \<Rightarrow> 'e" and pop :: "'q \<Rightarrow> 'q"
    and elems :: "'q \<Rightarrow> 'e multiset" and key :: "'e \<Rightarrow> 'k::linorder" and inv :: "'q \<Rightarrow> bool"
  assumes elems_push: "inv q \<Longrightarrow> elems (push e q) = add_mset e (elems q)"
    and top_least: "inv q \<Longrightarrow> e \<in># elems q \<Longrightarrow> key (top q) \<le> key e"
    and top_in: "inv q \<Longrightarrow> elems q \<noteq> {#} \<Longrightarrow> top q \<in># elems q"
    and elems_pop: "inv q \<Longrightarrow> elems q \<noteq> {#} \<Longrightarrow> elems (pop q) = elems q - {#top q#}"
    and inv_push: "inv q \<Longrightarrow> inv (push e q)"
    and inv_pop: "inv q \<Longrightarrow> elems q \<noteq> {#} \<Longrightarrow> inv (pop q)"
begin

lemma add_top: "inv q \<Longrightarrow> elems q \<noteq> {#} \<Longrightarrow> add_mset (top q) (elems (pop q)) = elems q"
  by (simp add: elems_pop top_in)

lemma pop_later: "inv q \<Longrightarrow> elems q \<noteq> {#} \<Longrightarrow> e \<in># elems (pop q) \<Longrightarrow> key (top q) \<le> key e"
  by (metis add_top top_least union_single_eq_member insert_noteq_member add_mset_remove_trivial
      in_diffD elems_pop)

lemma push_top: "inv q \<Longrightarrow> key (top (push e q)) \<le> key e"
  using top_least [OF inv_push, of q e e] by (simp add: elems_push)

end

lemma heap_push_mset: "mset (heap_push h hs) = add_mset h (mset hs)"
proof -
  let ?P = "\<lambda>x. hp_expiry x \<le> hp_expiry h"
  have "mset (takeWhile ?P hs) + mset (dropWhile ?P hs) = mset hs"
    by (metis mset_append takeWhile_dropWhile_id)
  then show ?thesis by (simp add: heap_push_def)
qed

lemma heap_push_set: "set (heap_push h hs) = insert h (set hs)"
  by (metis heap_push_mset set_mset_add_mset_insert set_mset_mset)

lemma heap_push_Cons:
  "heap_push h (x # hs) = (if hp_expiry x \<le> hp_expiry h then x # heap_push h hs else h # x # hs)"
  by (simp add: heap_push_def)

lemma heap_push_sorted: "heap_sorted hs \<Longrightarrow> heap_sorted (heap_push h hs)"
proof (induction hs)
  case Nil
  show ?case by (simp add: heap_sorted_def heap_push_def)
next
  case (Cons x hs)
  then show ?case by (auto simp: heap_sorted_def heap_push_Cons heap_push_set intro: order_trans)
qed

interpretation timers: min_queue heap_push hd tl mset hp_expiry heap_sorted
proof unfold_locales
  fix q :: "heap_entry list" and e
  assume s: "heap_sorted q"
  show "hp_expiry (hd q) \<le> hp_expiry e" if "e \<in># mset q"
    using s that by (cases q) (auto simp: heap_sorted_def)
  show "hd q \<in># mset q" if "mset q \<noteq> {#}" using that by simp
  show "mset (tl q) = mset q - {#hd q#}" if "mset q \<noteq> {#}" using that by (cases q) simp_all
  show "heap_sorted (tl q)" if "mset q \<noteq> {#}" using s by (cases q) (simp_all add: heap_sorted_def)
qed (simp_all add: heap_push_mset heap_push_sorted)

section \<open>armNextTimer\<close>

definition dead_or_cancelled :: "(int \<times> timer_entry) list \<Rightarrow> heap_entry \<Rightarrow> bool" where
  "dead_or_cancelled es h =
     (case map_find es (hp_id h) of None \<Rightarrow> True | Some e \<Rightarrow> te_cancelled e)"

text \<open>The loop that pops them; their entries stay in \<open>timer_entries\<close>.\<close>

fun prune :: "(int \<times> timer_entry) list \<Rightarrow> heap_entry list \<Rightarrow> heap_entry list" where
  "prune es [] = []"
| "prune es (tp # rest) = (if dead_or_cancelled es tp then prune es rest else tp # rest)"

text \<open>
  Cancelling or destroying the timer makes a pending wait complete with an error. A wait is pending
  until its handler runs: that asio may have queued the handler of a wait that has expired, which
  then cannot be cancelled any more, is left out.
\<close>

definition abort_wait :: "cstate \<Rightarrow> cstate" where
  "abort_wait c =
     (case c_wait c of
        None \<Rightarrow> c
      | Some _ \<Rightarrow> c\<lparr>c_wait := None, c_ready := c_ready c @ [WaitAborted]\<rparr>)"

definition armNextTimer :: "cstate \<Rightarrow> cstate" where
  "armNextTimer c =
     (let c = c\<lparr>timer_heap := prune (timer_entries c) (timer_heap c)\<rparr>
      in case timer_heap c of
           [] \<Rightarrow> (abort_wait c)\<lparr>next_timer := False\<rparr>
         | tp # _ \<Rightarrow>
             (case map_find (timer_entries c) (hp_id tp) of
                None \<Rightarrow> c
              | Some entry \<Rightarrow>
                  (abort_wait (c\<lparr>next_timer := True\<rparr>))\<lparr>c_wait := Some (te_expiry entry)\<rparr>))"

section \<open>scheduleTimer and cancelTimer\<close>

definition scheduleTimer :: "jsval \<Rightarrow> int \<Rightarrow> bool \<Rightarrow> cstate \<Rightarrow> int \<times> cstate" where
  "scheduleTimer func ms repeating c =
     (let (tid, c) = allocTimerId c;
          c = JS_DupValue func c;
          (now, c) = steady_now c;
          entry = \<lparr>te_id = tid, te_func = func, te_expiry = now + milliseconds ms, te_repeating = repeating,
                   te_interval_ms = ms, te_cancelled = False\<rparr>;
          c = c\<lparr>timer_entries := map_put tid entry (timer_entries c)\<rparr>;
          c = c\<lparr>timer_heap := heap_push \<lparr>hp_expiry = te_expiry entry, hp_id = tid\<rparr> (timer_heap c)\<rparr>;
          c = (if hp_id (hd (timer_heap c)) = tid then armNextTimer c else c)
      in (tid, c))"

definition cancelTimer :: "int \<Rightarrow> cstate \<Rightarrow> cstate" where
  "cancelTimer tid c =
     (case map_find (timer_entries c) tid of
        None \<Rightarrow> c
      | Some e \<Rightarrow> c\<lparr>timer_entries := map_put tid (e\<lparr>te_cancelled := True\<rparr>) (timer_entries c)\<rparr>)"

section \<open>The bindings\<close>

datatype jsarg = JFun jsval | JOther nat

text \<open>\<open>JS_ToInt64\<close> of an argument is a parameter; it leaves 0 when the conversion throws.\<close>

definition js_setTimer ::
  "(jsarg \<Rightarrow> int) \<Rightarrow> bool \<Rightarrow> jsarg list \<Rightarrow> cstate \<Rightarrow> int \<times> cstate" where
  "js_setTimer toInt64 repeating argv c =
     (case argv of
        JFun f # a # _ \<Rightarrow> scheduleTimer f (toInt64 a) repeating c
      | _ \<Rightarrow> (-1, c))"

definition js_setTimeout :: "(jsarg \<Rightarrow> int) \<Rightarrow> jsarg list \<Rightarrow> cstate \<Rightarrow> int \<times> cstate" where
  "js_setTimeout toInt64 argv c = js_setTimer toInt64 False argv c"

definition js_setInterval :: "(jsarg \<Rightarrow> int) \<Rightarrow> jsarg list \<Rightarrow> cstate \<Rightarrow> int \<times> cstate" where
  "js_setInterval toInt64 argv c = js_setTimer toInt64 True argv c"

definition js_clearTimeout :: "(jsarg \<Rightarrow> int) \<Rightarrow> jsarg list \<Rightarrow> cstate \<Rightarrow> cstate" where
  "js_clearTimeout toInt64 argv c =
     (case argv of [] \<Rightarrow> c | a # _ \<Rightarrow> cancelTimer (toInt64 a) c)"

definition js_clearInterval :: "(jsarg \<Rightarrow> int) \<Rightarrow> jsarg list \<Rightarrow> cstate \<Rightarrow> cstate" where
  "js_clearInterval toInt64 argv c = js_clearTimeout toInt64 argv c"

section \<open>Promise rejections\<close>

definition promiseRejectionTracker :: "jsval \<Rightarrow> jsval \<Rightarrow> bool \<Rightarrow> cstate \<Rightarrow> cstate" where
  "promiseRejectionTracker promise reason is_handled c =
     (if is_handled then
        c\<lparr>pending_rejections := filter (\<lambda>(p, r). p \<noteq> promise) (pending_rejections c)\<rparr>
      else
        let c = JS_DupValue reason (JS_DupValue promise c)
        in c\<lparr>pending_rejections := pending_rejections c @ [(promise, reason)]\<rparr>)"

text \<open>\<open>jsValueToString\<close> is QuickJS's conversion, a parameter.\<close>

fun free_rejections :: "(jsval \<Rightarrow> string) \<Rightarrow> (jsval \<times> jsval) list \<Rightarrow> string \<Rightarrow> cstate \<Rightarrow> string \<times> cstate" where
  "free_rejections str [] msgs c = (msgs, c)"
| "free_rejections str ((promise, reason) # rest) msgs c =
     free_rejections str rest (msgs @ str reason @ [CHR 0x0A])
       (JS_FreeValue reason (JS_FreeValue promise c))"

definition checkUnhandledRejections :: "(jsval \<Rightarrow> string) \<Rightarrow> cstate \<Rightarrow> (string + unit) \<times> cstate" where
  "checkUnhandledRejections str c =
     (if pending_rejections c = [] then (Inr (), c)
      else
        let (msgs, c) = free_rejections str (pending_rejections c) [] c;
            c = c\<lparr>pending_rejections := []\<rparr>
        in (Inl (''Unhandled promise rejections:'' @ [CHR 0x0A] @ msgs), c))"

section \<open>Calling JavaScript\<close>

text \<open>The calls that a script makes into the context.\<close>

datatype js_act =
    SetTimeout "jsarg list"
  | SetInterval "jsarg list"
  | ClearTimeout "jsarg list"
  | ClearInterval "jsarg list"
  | Reject jsval jsval
  | Handle jsval
  | EnqueueJob jsval

record js_env =
  js_body :: "jsval \<Rightarrow> cstate \<Rightarrow> js_act list \<times> string option"
  js_toInt64 :: "jsarg \<Rightarrow> int"
  js_toString :: "jsval \<Rightarrow> string"

fun do_act :: "js_env \<Rightarrow> js_act \<Rightarrow> cstate \<Rightarrow> cstate" where
  "do_act E (SetTimeout argv) c = snd (js_setTimeout (js_toInt64 E) argv c)"
| "do_act E (SetInterval argv) c = snd (js_setInterval (js_toInt64 E) argv c)"
| "do_act E (ClearTimeout argv) c = js_clearTimeout (js_toInt64 E) argv c"
| "do_act E (ClearInterval argv) c = js_clearInterval (js_toInt64 E) argv c"
| "do_act E (Reject p r) c = promiseRejectionTracker p r False c"
| "do_act E (Handle p) c = promiseRejectionTracker p 0 True c"
| "do_act E (EnqueueJob j) c = c\<lparr>c_jobs := c_jobs c @ [j]\<rparr>"

text \<open>
  \<open>JS_Call\<close> on the function of a timer, followed by \<open>assertOk\<close>: the exception becomes a \<open>JsError\<close>
  with its text.
\<close>

definition JS_Call :: "js_env \<Rightarrow> timer_entry \<Rightarrow> cstate \<Rightarrow> string option \<times> cstate" where
  "JS_Call E entry c =
     (let (acts, exc) = js_body E (te_func entry) c;
          c = c\<lparr>c_called := c_called c @ [\<lparr>fi_id = te_id entry, fi_expiry = te_expiry entry,
                fi_repeating = te_repeating entry, fi_func = te_func entry\<rparr>]\<rparr>
      in (exc, fold (do_act E) acts c))"

section \<open>processExpiredTimers\<close>

definition erase_entry :: "int \<Rightarrow> timer_entry \<Rightarrow> cstate \<Rightarrow> cstate" where
  "erase_entry tid entry c =
     (let c = JS_FreeValue (te_func entry) c
      in c\<lparr>timer_entries := map_erase tid (timer_entries c)\<rparr>)"

text \<open>
  One round of the loop. \<open>entry\<close> is a reference into the map: its fields are read again after the
  call. The branch in which it is gone then is not reached, since only this loop erases entries.
  The iterator that the code erases by may be invalid by the standard, when the function has set
  timers and the table was rehashed; here it is that of the entry.
\<close>

datatype round_result = Done | Threw string | Again

definition after_call :: "int \<Rightarrow> int \<Rightarrow> timer_entry \<Rightarrow> cstate \<Rightarrow> cstate" where
  "after_call now tid entry c =
     (if te_cancelled entry then erase_entry tid entry c
      else if te_repeating entry then
        let e1 = te_expiry entry + milliseconds (te_interval_ms entry);
            e2 = (if e1 \<le> now then now + milliseconds (te_interval_ms entry) else e1);
            c = c\<lparr>timer_entries := map_put tid (entry\<lparr>te_expiry := e2\<rparr>) (timer_entries c)\<rparr>
        in c\<lparr>timer_heap := heap_push \<lparr>hp_expiry = e2, hp_id = te_id entry\<rparr> (timer_heap c)\<rparr>
      else erase_entry tid entry c)"

definition process_step :: "js_env \<Rightarrow> int \<Rightarrow> cstate \<Rightarrow> round_result \<times> cstate" where
  "process_step E now c =
     (case timer_heap c of
        [] \<Rightarrow> (Done, c)
      | tp # rest \<Rightarrow>
          (case map_find (timer_entries c) (hp_id tp) of
             None \<Rightarrow> (Again, c\<lparr>timer_heap := rest\<rparr>)
           | Some entry \<Rightarrow>
               if te_expiry entry > now then (Done, c)
               else
                 let c = c\<lparr>timer_heap := rest\<rparr>
                 in if te_cancelled entry then (Again, erase_entry (hp_id tp) entry c)
                    else
                      (case JS_Call E entry c of
                         (Some exc, c) \<Rightarrow> (Threw exc, c)
                       | (None, c) \<Rightarrow>
                           (case map_find (timer_entries c) (hp_id tp) of
                              None \<Rightarrow> (Again, c)
                            | Some entry \<Rightarrow> (Again, after_call now (hp_id tp) entry c)))))"

text \<open>The loop has fuel, because it need not end.\<close>

fun process_loop :: "js_env \<Rightarrow> nat \<Rightarrow> int \<Rightarrow> cstate \<Rightarrow> ((string + unit) \<times> cstate) option" where
  "process_loop E 0 now c = None"
| "process_loop E (Suc n) now c =
     (case process_step E now c of
        (Done, c) \<Rightarrow> Some (Inr (), c)
      | (Threw exc, c) \<Rightarrow> Some (Inl exc, c)
      | (Again, c) \<Rightarrow> process_loop E n now c)"

definition processExpiredTimers :: "js_env \<Rightarrow> nat \<Rightarrow> cstate \<Rightarrow> ((string + unit) \<times> cstate) option" where
  "processExpiredTimers E fuel c = (let (now, c) = steady_now c in process_loop E fuel now c)"

text \<open>The handler of the wait, called without an error.\<close>

definition timer_fired :: "js_env \<Rightarrow> nat \<Rightarrow> cstate \<Rightarrow> ((string + unit) \<times> cstate) option" where
  "timer_fired E fuel c =
     (case processExpiredTimers E fuel c of
        None \<Rightarrow> None
      | Some (Inl exc, c) \<Rightarrow> Some (Inl exc, c)
      | Some (Inr _, c) \<Rightarrow> Some (Inr (), armNextTimer c))"

section \<open>The event loop\<close>

text \<open>
  A job is executed even when it throws; the jobs behind it stay queued.
\<close>

fun drainMicrotasks :: "js_env \<Rightarrow> nat \<Rightarrow> cstate \<Rightarrow> ((string + unit) \<times> cstate) option" where
  "drainMicrotasks E 0 c = None"
| "drainMicrotasks E (Suc n) c =
     (case c_jobs c of
        [] \<Rightarrow> Some (Inr (), c)
      | j # js \<Rightarrow>
          (let (acts, exc) = js_body E j c;
               c = fold (do_act E) acts (c\<lparr>c_jobs := js\<rparr>)
           in case exc of
                Some x \<Rightarrow> Some (Inl x, c)
              | None \<Rightarrow> drainMicrotasks E n c))"

text \<open>
  The next handler: a ready one, both kinds of which do nothing, or else that of the pending wait;
  0 when there is neither.
\<close>

definition run_ready :: "js_env \<Rightarrow> nat \<Rightarrow> cstate \<Rightarrow> ((string + nat) \<times> cstate) option" where
  "run_ready E fuel c =
     (case c_ready c of
        h # hs \<Rightarrow> Some (Inr 1, c\<lparr>c_ready := hs\<rparr>)
      | [] \<Rightarrow>
          (case c_wait c of
             None \<Rightarrow> Some (Inr 0, c)
           | Some _ \<Rightarrow>
               (case timer_fired E fuel (c\<lparr>c_wait := None\<rparr>) of
                  None \<Rightarrow> None
                | Some (Inl x, c) \<Rightarrow> Some (Inl x, c)
                | Some (Inr _, c) \<Rightarrow> Some (Inr 1, c))))"

text \<open>
  \<open>run_one\<close> of a context without sockets. When no work is left after the handler, the \<open>io_context\<close> is
  stopped, before \<open>run\<close> drains the microtasks.
\<close>

definition out_of_work :: "cstate \<Rightarrow> cstate" where
  "out_of_work c = (if c_ready c = [] \<and> c_wait c = None then c\<lparr>c_stopped := True\<rparr> else c)"

definition run_one :: "js_env \<Rightarrow> nat \<Rightarrow> cstate \<Rightarrow> ((string + nat) \<times> cstate) option" where
  "run_one E fuel c =
     (if c_stopped c then Some (Inr 0, c)
      else
        (case run_ready E fuel c of
           None \<Rightarrow> None
         | Some (r, c) \<Rightarrow> Some (r, out_of_work c)))"

definition reportFatal :: "string \<Rightarrow> cstate \<Rightarrow> cstate" where
  "reportFatal e c = c\<lparr>c_fatal := Some e\<rparr>"

fun run_loop :: "js_env \<Rightarrow> nat \<Rightarrow> cstate \<Rightarrow> cstate option" where
  "run_loop E 0 c = None"
| "run_loop E (Suc n) c =
     (case drainMicrotasks E n c of
        None \<Rightarrow> None
      | Some (Inl e, c) \<Rightarrow> Some (reportFatal e c)
      | Some (Inr _, c) \<Rightarrow>
          (case checkUnhandledRejections (js_toString E) c of
             (Inl e, c) \<Rightarrow> Some (reportFatal e c)
           | (Inr _, c) \<Rightarrow>
               (case run_one E n c of
                  None \<Rightarrow> None
                | Some (Inl e, c) \<Rightarrow> Some (reportFatal e c)
                | Some (Inr k, c) \<Rightarrow> if k = 0 then Some c else run_loop E n c)))"

definition stop :: "cstate \<Rightarrow> cstate" where
  "stop c =
     (let c = c\<lparr>stopping := True\<rparr>;
          c = (if next_timer c then abort_wait c else c)
      in c\<lparr>c_ready := c_ready c @ [Posted]\<rparr>)"

text \<open>
  The destructor's part for timers and rejections: the timer goes, every remaining entry and
  rejection is freed. Its other parts, the resources and the last run of the \<open>io_context\<close>, come with
  the sockets, in \<open>host_dtor\<close> of \<^verbatim>\<open>Host\<close>.
\<close>

definition SandboxContext_dtor :: "cstate \<Rightarrow> cstate" where
  "SandboxContext_dtor c =
     (let c = (abort_wait c)\<lparr>next_timer := False\<rparr>;
          c = fold (\<lambda>(tid, entry) c. JS_FreeValue (te_func entry) c) (timer_entries c) c;
          c = c\<lparr>timer_entries := []\<rparr>;
          c = fold (\<lambda>(p, r) c. JS_FreeValue r (JS_FreeValue p c)) (pending_rejections c) c
      in c\<lparr>pending_rejections := []\<rparr>)"

end
