(* ===== verification/EventInv.thy ===== *)
theory EventInv
  imports EventLoop
begin

text \<open>
  The invariant of the timer tables and its preservation by every operation, by any script that
  calls into the bindings, and by the loop over expired timers.
\<close>

section \<open>The invariant\<close>

abbreviation entry_of :: "cstate \<Rightarrow> int \<Rightarrow> timer_entry option" where
  "entry_of c \<equiv> map_find (timer_entries c)"

text \<open>
  The timers whose function may still be called: \<open>X\<close> holds the one that is being called right now,
  which is in the table but not in the heap.
\<close>

definition tinv :: "int set \<Rightarrow> cstate \<Rightarrow> bool" where
  "tinv X c \<longleftrightarrow>
     heap_sorted (timer_heap c) \<and> distinct (map hp_id (timer_heap c)) \<and>
     map_sorted (timer_entries c) \<and>
     (\<forall>h\<in>set (timer_heap c). hp_id h \<notin> X \<and>
        (\<exists>e. entry_of c (hp_id h) = Some e \<and> te_expiry e = hp_expiry h)) \<and>
     (\<forall>i e. entry_of c i = Some e \<longrightarrow> te_id e = i \<and> i < next_timer_id c \<and>
        (te_cancelled e \<or> i \<in> X \<or> i \<in> hp_id ` set (timer_heap c)))"

definition live :: "cstate \<Rightarrow> timer_entry set" where
  "live c = {e. \<exists>i. entry_of c i = Some e \<and> \<not> te_cancelled e}"

lemma tinvD:
  assumes "tinv X c"
  shows "heap_sorted (timer_heap c)" "distinct (map hp_id (timer_heap c))"
    "map_sorted (timer_entries c)"
    "h \<in> set (timer_heap c) \<Longrightarrow> hp_id h \<notin> X \<and> (\<exists>e. entry_of c (hp_id h) = Some e \<and> te_expiry e = hp_expiry h)"
    "entry_of c i = Some e \<Longrightarrow> te_id e = i \<and> i < next_timer_id c \<and>
      (te_cancelled e \<or> i \<in> X \<or> i \<in> hp_id ` set (timer_heap c))"
  using assms by (simp_all add: tinv_def)

lemma tinv_cong:
  "timer_heap c = timer_heap c' \<Longrightarrow> timer_entries c = timer_entries c' \<Longrightarrow>
   next_timer_id c = next_timer_id c' \<Longrightarrow> tinv X c = tinv X c'"
  by (simp add: tinv_def)

section \<open>armNextTimer\<close>

lemma abort_wait_simps [simp]:
  "timer_heap (abort_wait c) = timer_heap c" "timer_entries (abort_wait c) = timer_entries c"
  "next_timer_id (abort_wait c) = next_timer_id c" "c_refs (abort_wait c) = c_refs c"
  "pending_rejections (abort_wait c) = pending_rejections c" "c_clock (abort_wait c) = c_clock c"
  "c_called (abort_wait c) = c_called c" "c_wait (abort_wait c) = None" "c_stopped (abort_wait c) = c_stopped c"
  "c_jobs (abort_wait c) = c_jobs c"
  by (simp_all add: abort_wait_def split: option.split)

lemma prune_suffix: "\<exists>ps. hs = ps @ prune es hs \<and> (\<forall>h\<in>set ps. dead_or_cancelled es h)"
proof (induction hs)
  case (Cons h hs)
  then obtain ps where ps: "hs = ps @ prune es hs" "\<forall>h\<in>set ps. dead_or_cancelled es h" by blast
  show ?case
  proof (cases "dead_or_cancelled es h")
    case True
    with ps show ?thesis by (intro exI [of _ "h # ps"]) auto
  next
    case False
    then show ?thesis by (intro exI [of _ "[]"]) simp
  qed
qed simp

lemma prune_head: "prune es hs = h # hs' \<Longrightarrow> \<not> dead_or_cancelled es h"
  by (induction hs) (auto split: if_splits)

lemma arm_simps [simp]:
  "timer_heap (armNextTimer c) = prune (timer_entries c) (timer_heap c)"
  "timer_entries (armNextTimer c) = timer_entries c" "next_timer_id (armNextTimer c) = next_timer_id c"
  "c_refs (armNextTimer c) = c_refs c" "pending_rejections (armNextTimer c) = pending_rejections c"
  "c_clock (armNextTimer c) = c_clock c" "c_called (armNextTimer c) = c_called c"
  "c_stopped (armNextTimer c) = c_stopped c" "c_jobs (armNextTimer c) = c_jobs c"
  by (simp_all add: armNextTimer_def Let_def split: list.split option.split)

lemma tinv_prune:
  assumes "tinv X c"
  shows "tinv X (c\<lparr>timer_heap := prune (timer_entries c) (timer_heap c)\<rparr>)"
proof -
  obtain ps where ps: "timer_heap c = ps @ prune (timer_entries c) (timer_heap c)"
    and dead: "\<forall>h\<in>set ps. dead_or_cancelled (timer_entries c) h"
    using prune_suffix by blast
  let ?q = "prune (timer_entries c) (timer_heap c)"
  note I = tinvD [OF assms]
  have "heap_sorted ?q" using I(1) ps by (metis heap_sorted_def sorted_wrt_append)
  moreover have "distinct (map hp_id ?q)" using I(2) ps by (metis distinct_append map_append)
  moreover have sub: "set ?q \<subseteq> set (timer_heap c)" using ps by (metis Un_upper2 set_append)
  moreover have "te_cancelled e \<or> i \<in> X \<or> i \<in> hp_id ` set ?q" if e: "entry_of c i = Some e" for i e
  proof (rule ccontr)
    assume no: "\<not> (te_cancelled e \<or> i \<in> X \<or> i \<in> hp_id ` set ?q)"
    then obtain h where "h \<in> set (timer_heap c)" "hp_id h = i" using I(5) [OF e] by auto
    moreover from this no have "h \<in> set ps" using ps by (metis UnE image_eqI set_append)
    ultimately show False using dead e no by (auto simp: dead_or_cancelled_def)
  qed
  ultimately show ?thesis using I(3-5) by (auto simp: tinv_def)
qed

lemma tinv_arm: "tinv X c \<Longrightarrow> tinv X (armNextTimer c)"
  using tinv_prune by (rule tinv_cong [THEN iffD1, rotated -1]) simp_all

text \<open>What the heap says of the live timers.\<close>

lemma live_in_heap:
  assumes "tinv {} c" and "e \<in> live c"
  shows "\<exists>h\<in>set (timer_heap c). hp_id h = te_id e \<and> hp_expiry h = te_expiry e"
proof -
  from assms(2) obtain i where e: "entry_of c i = Some e" "\<not> te_cancelled e" by (auto simp: live_def)
  with tinvD(5) [OF assms(1) e(1)] obtain h where h: "h \<in> set (timer_heap c)" "hp_id h = i" "te_id e = i"
    by auto
  with tinvD(4) [OF assms(1) h(1)] e(1) show ?thesis by auto
qed

lemma arm_wait:
  assumes "tinv {} c"
  shows "case c_wait (armNextTimer c) of
      None \<Rightarrow> live c = {}
    | Some t \<Rightarrow> (\<exists>e\<in>live c. te_expiry e = t) \<and> (\<forall>e\<in>live c. t \<le> te_expiry e)"
proof (cases "prune (timer_entries c) (timer_heap c)")
  case Nil
  have "live c = {}"
  proof (rule ccontr)
    assume "live c \<noteq> {}"
    then obtain e where "e \<in> live c" by blast
    then have "e \<in> live (armNextTimer c)" by (simp add: live_def)
    from live_in_heap [OF tinv_arm [OF assms] this] Nil show False by simp
  qed
  with Nil show ?thesis by (simp add: armNextTimer_def Let_def)
next
  case (Cons h hs)
  have nd: "\<not> dead_or_cancelled (timer_entries c) h" using Cons by (rule prune_head)
  then obtain e where e: "entry_of c (hp_id h) = Some e" "\<not> te_cancelled e"
    by (auto simp: dead_or_cancelled_def split: option.splits)
  have t: "tinv {} (armNextTimer c)" using assms by (rule tinv_arm)
  have "te_expiry e = hp_expiry h" using tinvD(4) [OF t, of h] e Cons by auto
  have least: "te_expiry e \<le> te_expiry e'" if "e' \<in> live c" for e'
  proof -
    have "e' \<in> live (armNextTimer c)" using that by (simp add: live_def)
    from live_in_heap [OF t this] obtain h' where "h' \<in> set (h # hs)" "hp_expiry h' = te_expiry e'"
      using Cons by auto
    then show ?thesis
      using timers.top_least [of "h # hs" h'] tinvD(1) [OF t] Cons \<open>te_expiry e = hp_expiry h\<close> by simp
  qed
  have "c_wait (armNextTimer c) = Some (te_expiry e)"
    using Cons e by (simp add: armNextTimer_def Let_def)
  moreover have "e \<in> live c" using e by (auto simp: live_def)
  ultimately show ?thesis using least by auto
qed

section \<open>scheduleTimer and cancelTimer\<close>

definition new_entry :: "jsval \<Rightarrow> int \<Rightarrow> bool \<Rightarrow> cstate \<Rightarrow> timer_entry" where
  "new_entry func ms rep c = \<lparr>te_id = next_timer_id c, te_func = func, te_expiry = c_clock c 0 + milliseconds ms,
     te_repeating = rep, te_interval_ms = ms, te_cancelled = False\<rparr>"

definition scheduled :: "jsval \<Rightarrow> int \<Rightarrow> bool \<Rightarrow> cstate \<Rightarrow> cstate" where
  "scheduled func ms rep c =
     (JS_DupValue func (c\<lparr>next_timer_id := next_timer_id c + 1\<rparr>))\<lparr>
        c_clock := (\<lambda>i. c_clock c (Suc i)),
        timer_entries := map_put (next_timer_id c) (new_entry func ms rep c) (timer_entries c),
        timer_heap := heap_push \<lparr>hp_expiry = c_clock c 0 + milliseconds ms, hp_id = next_timer_id c\<rparr> (timer_heap c)\<rparr>"

lemma scheduleTimer_eq:
  "scheduleTimer func ms rep c =
     (next_timer_id c,
      if hp_id (hd (timer_heap (scheduled func ms rep c))) = next_timer_id c
      then armNextTimer (scheduled func ms rep c) else scheduled func ms rep c)"
  by (simp add: scheduleTimer_def scheduled_def new_entry_def allocTimerId_def JS_DupValue_def
      steady_now_def Let_def)

lemma scheduled_simps [simp]:
  "timer_entries (scheduled func ms rep c) = map_put (next_timer_id c) (new_entry func ms rep c) (timer_entries c)"
  "timer_heap (scheduled func ms rep c) =
     heap_push \<lparr>hp_expiry = c_clock c 0 + milliseconds ms, hp_id = next_timer_id c\<rparr> (timer_heap c)"
  "next_timer_id (scheduled func ms rep c) = next_timer_id c + 1"
  "c_called (scheduled func ms rep c) = c_called c"
  "c_stopped (scheduled func ms rep c) = c_stopped c" "c_jobs (scheduled func ms rep c) = c_jobs c"
  "c_wait (scheduled func ms rep c) = c_wait c"
  "c_clock (scheduled func ms rep c) = (\<lambda>i. c_clock c (Suc i))"
  "pending_rejections (scheduled func ms rep c) = pending_rejections c"
  by (simp_all add: scheduled_def JS_DupValue_def)

lemma new_entry_simps [simp]: "te_id (new_entry func ms rep c) = next_timer_id c"
  "te_expiry (new_entry func ms rep c) = c_clock c 0 + milliseconds ms" "te_func (new_entry func ms rep c) = func"
  "te_repeating (new_entry func ms rep c) = rep" "te_interval_ms (new_entry func ms rep c) = ms"
  "\<not> te_cancelled (new_entry func ms rep c)"
  by (simp_all add: new_entry_def)

lemma fresh_id: "tinv X c \<Longrightarrow> entry_of c (next_timer_id c) = None"
  using tinvD(5) [of X c "next_timer_id c"] by (cases "entry_of c (next_timer_id c)") auto

lemma heap_id_lt: "tinv X c \<Longrightarrow> h \<in> set (timer_heap c) \<Longrightarrow> hp_id h < next_timer_id c"
  using tinvD(4,5) by blast

lemma tinv_scheduled:
  assumes "tinv X c" and "\<forall>i\<in>X. i < next_timer_id c"
  shows "tinv X (scheduled func ms rep c)"
proof -
  note I = tinvD [OF assms(1)]
  let ?h = "\<lparr>hp_expiry = c_clock c 0 + milliseconds ms, hp_id = next_timer_id c\<rparr>"
  have d: "distinct (map hp_id (heap_push ?h (timer_heap c)))"
  proof -
    have "mset (map hp_id (heap_push ?h (timer_heap c))) =
        mset (next_timer_id c # map hp_id (timer_heap c))"
      by (simp add: heap_push_mset mset_map [symmetric] del: mset_map) (simp add: heap_push_mset)
    then have "distinct (map hp_id (heap_push ?h (timer_heap c))) \<longleftrightarrow>
        distinct (next_timer_id c # map hp_id (timer_heap c))" by (rule mset_eq_imp_distinct_iff)
    moreover have "next_timer_id c \<notin> hp_id ` set (timer_heap c)"
      using heap_id_lt [OF assms(1)] by fastforce
    ultimately show ?thesis using I(2) by simp
  qed
  show ?thesis
    unfolding tinv_def
  proof (intro conjI ballI allI impI)
    show "heap_sorted (timer_heap (scheduled func ms rep c))" using I(1) by (simp add: heap_push_sorted)
    show "distinct (map hp_id (timer_heap (scheduled func ms rep c)))" using d by simp
    show "map_sorted (timer_entries (scheduled func ms rep c))" using I(3) by (simp add: map_sorted_put)
  next
    fix h
    assume "h \<in> set (timer_heap (scheduled func ms rep c))"
    then consider "h = ?h" | "h \<in> set (timer_heap c)" by (auto simp: heap_push_set)
    note c = this
    from c show "hp_id h \<notin> X" using I(4) assms(2) by cases auto
    from c show "\<exists>e. entry_of (scheduled func ms rep c) (hp_id h) = Some e \<and> te_expiry e = hp_expiry h"
      using I(4) heap_id_lt [OF assms(1)] by cases fastforce+
  next
    fix i e
    assume e: "entry_of (scheduled func ms rep c) i = Some e"
    then show "te_id e = i" using I(5) by (auto split: if_splits)
    from e show "i < next_timer_id (scheduled func ms rep c)" using I(5) by (fastforce split: if_splits)
    from e show "te_cancelled e \<or> i \<in> X \<or> i \<in> hp_id ` set (timer_heap (scheduled func ms rep c))"
      using I(5) [of i e] by (auto simp: heap_push_set split: if_splits)
  qed
qed

lemma tinv_schedule:
  "tinv X c \<Longrightarrow> \<forall>i\<in>X. i < next_timer_id c \<Longrightarrow> tinv X (snd (scheduleTimer func ms rep c))"
  by (simp add: scheduleTimer_eq tinv_scheduled tinv_arm)

lemma tinv_cancel:
  assumes "tinv X c"
  shows "tinv X (cancelTimer i c)"
proof (cases "entry_of c i")
  case None
  with assms show ?thesis by (simp add: cancelTimer_def)
next
  case (Some e)
  note I = tinvD [OF assms]
  show ?thesis
    unfolding tinv_def using I(1-3) Some
  proof (intro conjI ballI allI impI, goal_cases)
    case (4 h)
    with I(4) [of h] show ?case by (simp add: cancelTimer_def)
  next
    case (5 h)
    with I(4) [of h] show ?case by (auto simp: cancelTimer_def)
  next
    case (6 j e')
    with I(5) [of j] I(5) [of i e] show ?case by (auto simp: cancelTimer_def split: if_splits)
  next
    case (7 j e')
    with I(5) [of j] I(5) [of i e] show ?case by (auto simp: cancelTimer_def split: if_splits)
  next
    case (8 j e')
    with I(5) [of j] I(5) [of i e] show ?case by (auto simp: cancelTimer_def split: if_splits)
  qed (simp_all add: cancelTimer_def map_sorted_put)
qed

section \<open>Scripts\<close>

text \<open>What a script leaves alone: the history, the fields of every entry but its flag.\<close>

definition same_timer :: "timer_entry \<Rightarrow> timer_entry \<Rightarrow> bool" where
  "same_timer e e' \<longleftrightarrow> e' = e \<or> e' = e\<lparr>te_cancelled := True\<rparr>"

definition keeps :: "cstate \<Rightarrow> cstate \<Rightarrow> bool" where
  "keeps c c' \<longleftrightarrow> c_called c' = c_called c \<and> next_timer_id c \<le> next_timer_id c' \<and>
     (\<forall>i e. entry_of c i = Some e \<longrightarrow> (\<exists>e'. entry_of c' i = Some e' \<and> same_timer e e'))"

lemma same_timerD:
  "same_timer e e' \<Longrightarrow> te_id e' = te_id e \<and> te_func e' = te_func e \<and> te_expiry e' = te_expiry e \<and>
     te_repeating e' = te_repeating e \<and> te_interval_ms e' = te_interval_ms e \<and>
     (te_cancelled e \<longrightarrow> te_cancelled e')"
  by (auto simp: same_timer_def)

lemma same_timer_refl [simp]: "same_timer e e" by (simp add: same_timer_def)

lemma same_timer_trans: "same_timer e e' \<Longrightarrow> same_timer e' e'' \<Longrightarrow> same_timer e e''"
  by (auto simp: same_timer_def)

lemma keeps_refl [simp]: "keeps c c" by (auto simp: keeps_def)

lemma keeps_trans:
  assumes "keeps c c'" and "keeps c' c''"
  shows "keeps c c''"
  unfolding keeps_def
proof (intro conjI allI impI)
  show "c_called c'' = c_called c" "next_timer_id c \<le> next_timer_id c''"
    using assms by (simp_all add: keeps_def)
  fix i e
  assume "entry_of c i = Some e"
  then obtain e' where "entry_of c' i = Some e'" "same_timer e e'" using assms(1) by (auto simp: keeps_def)
  moreover from this obtain e'' where "entry_of c'' i = Some e''" "same_timer e' e''"
    using assms(2) by (auto simp: keeps_def)
  ultimately show "\<exists>e''. entry_of c'' i = Some e'' \<and> same_timer e e''" by (blast intro: same_timer_trans)
qed

lemma keeps_cong:
  "c_called c' = c_called c \<Longrightarrow> next_timer_id c' = next_timer_id c \<Longrightarrow>
   timer_entries c' = timer_entries c \<Longrightarrow> keeps c c'"
  by (simp add: keeps_def)

lemma keeps_schedule: "tinv X c \<Longrightarrow> keeps c (snd (scheduleTimer func ms rep c))"
  using fresh_id [of X c] by (auto simp: keeps_def scheduleTimer_eq)

lemma keeps_cancel: "keeps c (cancelTimer i c)"
  by (auto simp: keeps_def cancelTimer_def same_timer_def split: option.split)

lemma tracker_simps [simp]:
  "timer_heap (promiseRejectionTracker p r h c) = timer_heap c"
  "timer_entries (promiseRejectionTracker p r h c) = timer_entries c"
  "next_timer_id (promiseRejectionTracker p r h c) = next_timer_id c"
  "c_called (promiseRejectionTracker p r h c) = c_called c"
  "c_stopped (promiseRejectionTracker p r h c) = c_stopped c" "c_jobs (promiseRejectionTracker p r h c) = c_jobs c"
  "c_wait (promiseRejectionTracker p r h c) = c_wait c"
  "c_clock (promiseRejectionTracker p r h c) = c_clock c"
  by (simp_all add: promiseRejectionTracker_def JS_DupValue_def Let_def)

text \<open>The calls into the bindings come down to these.\<close>

definition sched_of :: "js_env \<Rightarrow> js_act \<Rightarrow> (jsval \<times> int \<times> bool) option" where
  "sched_of E a =
     (case a of
        SetTimeout (JFun f # x # _) \<Rightarrow> Some (f, js_toInt64 E x, False)
      | SetInterval (JFun f # x # _) \<Rightarrow> Some (f, js_toInt64 E x, True)
      | _ \<Rightarrow> None)"

definition clear_of :: "js_env \<Rightarrow> js_act \<Rightarrow> int option" where
  "clear_of E a =
     (case a of
        ClearTimeout (x # _) \<Rightarrow> Some (js_toInt64 E x)
      | ClearInterval (x # _) \<Rightarrow> Some (js_toInt64 E x)
      | _ \<Rightarrow> None)"

lemma do_act_rule:
  assumes "P c" and "\<And>f ms rep. sched_of E a = Some (f, ms, rep) \<Longrightarrow> P (snd (scheduleTimer f ms rep c))"
    and "\<And>i. clear_of E a = Some i \<Longrightarrow> P (cancelTimer i c)" and "\<And>p r. a = Reject p r \<Longrightarrow> P (promiseRejectionTracker p r False c)"
    and "\<And>p. a = Handle p \<Longrightarrow> P (promiseRejectionTracker p 0 True c)"
    and "\<And>js. P (c\<lparr>c_jobs := js\<rparr>)"
  shows "P (do_act E a c)"
proof -
  have "P (snd (js_setTimer (js_toInt64 E) rep argv c))"
    if "\<And>f x xs. argv = JFun f # x # xs \<Longrightarrow> sched_of E a = Some (f, js_toInt64 E x, rep)" for argv rep
    using assms(1,2) that by (auto simp: js_setTimer_def split: list.split jsarg.split)
  then show ?thesis
    using assms by (cases a) (auto simp: js_setTimeout_def js_setInterval_def js_clearTimeout_def
        js_clearInterval_def sched_of_def clear_of_def split: list.split)
qed

lemma script_frame:
  "c_called (fold (do_act E) as c) = c_called c" "c_stopped (fold (do_act E) as c) = c_stopped c"
proof -
  have "c_called (do_act E a c) = c_called c \<and> c_stopped (do_act E a c) = c_stopped c" for a c
    by (rule do_act_rule) (simp_all add: scheduleTimer_eq cancelTimer_def split: option.split)
  then show "c_called (fold (do_act E) as c) = c_called c" "c_stopped (fold (do_act E) as c) = c_stopped c"
    by (induction as arbitrary: c) simp_all
qed

lemma tinv_act:
  assumes "tinv X c" and "\<forall>i\<in>X. i < next_timer_id c"
  shows "tinv X (do_act E a c) \<and> keeps c (do_act E a c)"
proof (rule do_act_rule)
  show "tinv X (snd (scheduleTimer f ms rep c)) \<and> keeps c (snd (scheduleTimer f ms rep c))" for f ms rep
    using assms tinv_schedule keeps_schedule by blast
  show "tinv X (cancelTimer i c) \<and> keeps c (cancelTimer i c)" for i
    using assms tinv_cancel keeps_cancel by blast
qed (use assms in \<open>simp_all add: keeps_cong tinv_def\<close>)

lemma tinv_script:
  assumes "tinv X c" and "\<forall>i\<in>X. i < next_timer_id c"
  shows "tinv X (fold (do_act E) as c) \<and> keeps c (fold (do_act E) as c)"
  using assms
proof (induction as arbitrary: c)
  case (Cons a as)
  note A = tinv_act [OF Cons.prems, of E a]
  then have "\<forall>i\<in>X. i < next_timer_id (do_act E a c)" using Cons.prems(2) by (auto simp: keeps_def)
  from Cons.IH [OF conjunct1 [OF A] this] A show ?case by (auto intro: keeps_trans)
qed simp

section \<open>Calling the function of a timer\<close>

abbreviation fire_of :: "timer_entry \<Rightarrow> firing" where
  "fire_of e \<equiv> \<lparr>fi_id = te_id e, fi_expiry = te_expiry e, fi_repeating = te_repeating e, fi_func = te_func e\<rparr>"

lemma JS_Call_eq:
  "JS_Call E e c = (snd (js_body E (te_func e) c),
     fold (do_act E) (fst (js_body E (te_func e) c)) (c\<lparr>c_called := c_called c @ [fire_of e]\<rparr>))"
  by (simp add: JS_Call_def case_prod_unfold Let_def)

lemma tinv_call:
  assumes "tinv X c" and "\<forall>i\<in>X. i < next_timer_id c" and "JS_Call E e c = (exc, c')"
  shows "tinv X c'" "keeps (c\<lparr>c_called := c_called c @ [fire_of e]\<rparr>) c'"
proof -
  let ?c = "c\<lparr>c_called := c_called c @ [fire_of e]\<rparr>"
  have "tinv X ?c" "\<forall>i\<in>X. i < next_timer_id ?c" using assms(1,2) by (simp_all add: tinv_def)
  from tinv_script [OF this] assms(3) show "tinv X c'" "keeps ?c c'" unfolding JS_Call_eq by blast+
qed

lemma tinv_pop:
  assumes "tinv X c" and "timer_heap c = tp # rest"
  shows "tinv (insert (hp_id tp) X) (c\<lparr>timer_heap := rest\<rparr>)"
  using assms by (auto simp: tinv_def heap_sorted_def; metis image_eqI)

lemma erase_entry_simps [simp]:
  "timer_heap (erase_entry tid e c) = timer_heap c"
  "timer_entries (erase_entry tid e c) = map_erase tid (timer_entries c)"
  "next_timer_id (erase_entry tid e c) = next_timer_id c" "c_called (erase_entry tid e c) = c_called c"
  "c_wait (erase_entry tid e c) = c_wait c" "c_clock (erase_entry tid e c) = c_clock c"
  "pending_rejections (erase_entry tid e c) = pending_rejections c"
  by (simp_all add: erase_entry_def JS_FreeValue_def Let_def)

lemma tinv_erase:
  assumes "tinv (insert i X) c"
  shows "tinv X (erase_entry i e c)"
  using assms map_find_erase [OF tinvD(3) [OF assms], of i]
  by (auto simp: tinv_def map_sorted_erase split: if_splits)

lemma tinv_reinsert:
  assumes "tinv (insert i X) c" and "entry_of c i = Some e" and "i \<notin> X"
  shows "tinv X (c\<lparr>timer_entries := map_put i (e\<lparr>te_expiry := t\<rparr>) (timer_entries c),
     timer_heap := heap_push \<lparr>hp_expiry = t, hp_id = i\<rparr> (timer_heap c)\<rparr>)"
proof -
  note I = tinvD [OF assms(1)]
  let ?h = "\<lparr>hp_expiry = t, hp_id = i\<rparr>"
  have new: "i \<notin> hp_id ` set (timer_heap c)" using I(4) by auto
  have "mset (map hp_id (heap_push ?h (timer_heap c))) = mset (i # map hp_id (timer_heap c))"
    by (simp add: heap_push_mset mset_map [symmetric] del: mset_map) (simp add: heap_push_mset)
  then have "distinct (map hp_id (heap_push ?h (timer_heap c))) \<longleftrightarrow> distinct (i # map hp_id (timer_heap c))"
    by (rule mset_eq_imp_distinct_iff)
  with new I(2) have d: "distinct (map hp_id (heap_push ?h (timer_heap c)))" by simp
  show ?thesis
    unfolding tinv_def using I(1,3) d
  proof (intro conjI ballI allI impI, goal_cases)
    case (4 h)
    then show ?case using I(4) [of h] assms(3) by (auto simp: heap_push_set)
  next
    case (5 h)
    then show ?case using I(4) [of h] by (auto simp: heap_push_set)
  next
    case (6 j e')
    then show ?case using I(5) [of j] I(5) [OF assms(2)] by (auto split: if_splits)
  next
    case (7 j e')
    then show ?case using I(5) [of j] I(5) [OF assms(2)] by (auto split: if_splits)
  next
    case (8 j e')
    then show ?case using I(5) [of j] by (auto simp: heap_push_set split: if_splits)
  qed (simp_all add: heap_push_sorted map_sorted_put)
qed

lemma tinv_after_call:
  assumes "tinv (insert i X) c" and "entry_of c i = Some e" and "i \<notin> X"
  shows "tinv X (after_call now i e c)"
proof -
  have "te_id e = i" using tinvD(5) [OF assms(1,2)] by simp
  then show ?thesis
    using assms tinv_reinsert [OF assms] by (simp add: after_call_def tinv_erase Let_def)
qed

section \<open>One round of the loop\<close>

lemma process_step_cases:
  assumes "tinv X c" and "\<forall>i\<in>X. i < next_timer_id c"
  obtains (finished) "process_step E now c = (Done, c)" "\<forall>h\<in>set (timer_heap c). now < hp_expiry h"
  | (dropped) tp rest e where "timer_heap c = tp # rest" "entry_of c (hp_id tp) = Some e" "te_cancelled e"
      "hp_expiry tp \<le> now" "process_step E now c = (Again, erase_entry (hp_id tp) e (c\<lparr>timer_heap := rest\<rparr>))"
  | (threw) tp rest e exc c1 where "timer_heap c = tp # rest" "entry_of c (hp_id tp) = Some e"
      "\<not> te_cancelled e" "te_expiry e = hp_expiry tp" "hp_expiry tp \<le> now"
      "JS_Call E e (c\<lparr>timer_heap := rest\<rparr>) = (Some exc, c1)"
      "tinv (insert (hp_id tp) X) c1" "keeps (c\<lparr>timer_heap := rest, c_called := c_called c @ [fire_of e]\<rparr>) c1"
      "process_step E now c = (Threw exc, c1)"
  | (called) tp rest e c1 e1 where "timer_heap c = tp # rest" "entry_of c (hp_id tp) = Some e"
      "\<not> te_cancelled e" "te_expiry e = hp_expiry tp" "hp_expiry tp \<le> now"
      "JS_Call E e (c\<lparr>timer_heap := rest\<rparr>) = (None, c1)"
      "tinv (insert (hp_id tp) X) c1" "keeps (c\<lparr>timer_heap := rest, c_called := c_called c @ [fire_of e]\<rparr>) c1"
      "entry_of c1 (hp_id tp) = Some e1" "same_timer e e1" "te_id e1 = hp_id tp" "hp_id tp \<notin> X"
      "process_step E now c = (Again, after_call now (hp_id tp) e1 c1)"
proof (cases "timer_heap c")
  case Nil
  then show thesis by (intro finished) (simp_all add: process_step_def)
next
  case (Cons tp rest)
  note I = tinvD [OF assms(1)]
  from I(4) [of tp] Cons obtain e where X: "hp_id tp \<notin> X" and e: "entry_of c (hp_id tp) = Some e"
    "te_expiry e = hp_expiry tp" by auto
  note st = process_step_def Cons e Let_def
  show thesis
  proof (cases "hp_expiry tp > now")
    case True
    show thesis
    proof (rule finished)
      show "process_step E now c = (Done, c)" using True by (simp add: st)
      show "\<forall>h\<in>set (timer_heap c). now < hp_expiry h"
        using True I(1) Cons by (auto simp: heap_sorted_def)
    qed
  next
    case due: False
    show thesis
    proof (cases "te_cancelled e")
      case True
      show thesis by (rule dropped [OF Cons e(1) True]) (use due True in \<open>simp_all add: st\<close>)
    next
      case False
      obtain r c1 where call: "JS_Call E e (c\<lparr>timer_heap := rest\<rparr>) = (r, c1)" by (cases "JS_Call E e (c\<lparr>timer_heap := rest\<rparr>)")
      have p: "tinv (insert (hp_id tp) X) (c\<lparr>timer_heap := rest\<rparr>)" using tinv_pop [OF assms(1) Cons] .
      have lt: "\<forall>i\<in>insert (hp_id tp) X. i < next_timer_id (c\<lparr>timer_heap := rest\<rparr>)"
        using assms(2) heap_id_lt [OF assms(1), of tp] Cons by simp
      have t: "tinv (insert (hp_id tp) X) c1" using tinv_call(1) [OF p lt call] .
      have k: "keeps (c\<lparr>timer_heap := rest, c_called := c_called c @ [fire_of e]\<rparr>) c1"
        using tinv_call(2) [OF p lt call] by simp
      have due': "hp_expiry tp \<le> now" using due by simp
      show thesis
      proof (cases r)
        case (Some exc)
        show thesis
          by (rule threw [OF Cons e(1) False e(2) due' _ t k]) (use call Some due False in \<open>simp_all add: st\<close>)
      next
        case None
        obtain e1 where e1: "entry_of c1 (hp_id tp) = Some e1" "same_timer e e1"
          using k e(1) by (auto simp: keeps_def)
        show thesis
          by (rule called [OF Cons e(1) False e(2) due' _ t k e1 _ X])
            (use call None due False e1 I(5) [OF e(1)] in \<open>simp_all add: st same_timerD\<close>)
      qed
    qed
  qed
qed

lemma after_call_next [simp]: "next_timer_id (after_call now i e c) = next_timer_id c"
  "c_called (after_call now i e c) = c_called c" "c_wait (after_call now i e c) = c_wait c"
  "c_clock (after_call now i e c) = c_clock c"
  "pending_rejections (after_call now i e c) = pending_rejections c"
  by (simp_all add: after_call_def Let_def)

lemma tinv_step:
  assumes "tinv X c" and "\<forall>i\<in>X. i < next_timer_id c" and "process_step E now c = (r, c')"
  shows "next_timer_id c \<le> next_timer_id c' \<and>
    (case r of Threw _ \<Rightarrow> (\<exists>i. i < next_timer_id c' \<and> tinv (insert i X) c') | _ \<Rightarrow> tinv X c')"
proof (rule process_step_cases [OF assms(1,2), of E now])
  fix tp rest e exc c1
  assume "process_step E now c = (Threw exc, c1)" "tinv (insert (hp_id tp) X) c1" "timer_heap c = tp # rest"
    "keeps (c\<lparr>timer_heap := rest, c_called := c_called c @ [fire_of e]\<rparr>) c1"
  with assms heap_id_lt [OF assms(1), of tp] show ?thesis
    by (auto simp: keeps_def intro!: exI [of _ "hp_id tp"])
next
  fix tp rest e
  assume "process_step E now c = (Again, erase_entry (hp_id tp) e (c\<lparr>timer_heap := rest\<rparr>))"
    "timer_heap c = tp # rest"
  with assms tinv_erase [OF tinv_pop [OF assms(1)]] show ?thesis by auto
next
  fix tp rest e c1 e1
  assume "process_step E now c = (Again, after_call now (hp_id tp) e1 c1)" "timer_heap c = tp # rest"
    "keeps (c\<lparr>timer_heap := rest, c_called := c_called c @ [fire_of e]\<rparr>) c1"
    "tinv (insert (hp_id tp) X) c1" "entry_of c1 (hp_id tp) = Some e1" "hp_id tp \<notin> X"
  with assms tinv_after_call [of "hp_id tp" X c1 e1] show ?thesis by (auto simp: keeps_def)
qed (use assms in auto)

text \<open>A property of the rounds is one of the loop.\<close>

lemma process_loop_rule [consumes 4, case_names round]:
  assumes "process_loop E n now c = Some (r, c')"
    and "tinv X c" and "\<forall>i\<in>X. i < next_timer_id c" and "P c c"
    and "\<And>c1 r1 c2. tinv X c1 \<Longrightarrow> \<forall>i\<in>X. i < next_timer_id c1 \<Longrightarrow> P c c1 \<Longrightarrow>
      process_step E now c1 = (r1, c2) \<Longrightarrow> P c c2"
  shows "P c c'"
proof -
  have "P c c'" if "process_loop E n now c1 = Some (r, c')" "tinv X c1" "\<forall>i\<in>X. i < next_timer_id c1" "P c c1"
    for c1
    using that
  proof (induction n arbitrary: c1)
    case (Suc n)
    obtain r1 c2 where s: "process_step E now c1 = (r1, c2)" by (cases "process_step E now c1")
    note P = assms(5) [OF Suc.prems(2-4) s]
    have T: "r1 = Again \<Longrightarrow> tinv X c2 \<and> (\<forall>i\<in>X. i < next_timer_id c2)"
      using tinv_step [OF Suc.prems(2,3) s] Suc.prems(3) by auto
    show ?case
    proof (cases r1)
      case Again
      then show ?thesis using Suc.IH [of c2] T P Suc.prems(1) s by simp
    qed (use P Suc.prems(1) s in simp_all)
  qed simp
  with assms show ?thesis by blast
qed

lemma tinv_loop:
  assumes "process_loop E n now c = Some (r, c')" and "tinv X c" and "\<forall>i\<in>X. i < next_timer_id c"
  shows "next_timer_id c \<le> next_timer_id c' \<and>
    (case r of
       Inl _ \<Rightarrow> (\<exists>i. i < next_timer_id c' \<and> tinv (insert i X) c')
     | Inr _ \<Rightarrow> tinv X c' \<and> (\<forall>h\<in>set (timer_heap c'). now < hp_expiry h))"
  using assms
proof (induction n arbitrary: c)
  case (Suc n)
  obtain r1 c2 where s: "process_step E now c = (r1, c2)" by (cases "process_step E now c")
  note T = tinv_step [OF Suc.prems(2,3) s]
  show ?case
  proof (cases r1)
    case Done
    then have "c2 = c \<and> (\<forall>h\<in>set (timer_heap c). now < hp_expiry h)"
      using s by (cases rule: process_step_cases [OF Suc.prems(2,3), of E now]) auto
    then show ?thesis using Done Suc.prems s by auto
  next
    case (Threw exc)
    then show ?thesis using T Suc.prems s by auto
  next
    case Again
    have "\<forall>i\<in>X. i < next_timer_id c2" using T Suc.prems(3) by auto
    with Again Suc.IH [of c2] T Suc.prems s show ?thesis by (auto split: sum.splits)
  qed
qed simp

end
