(* ===== verification/EventRun.thy ===== *)
theory EventRun
  imports EventInv
begin

text \<open>
  Runs of a context: any sequence of scripts that the host evaluates and of the steps that \<open>run\<close>
  is made of. A locale says what a property needs to hold all along a run; the history of the
  calls and the reference counts are instances of it.
\<close>

section \<open>Runs\<close>

text \<open>
  The flag is True as long as no timer function has thrown and \<open>stop\<close> was not called. \<open>A\<close> are the
  calls that the scripts of the host may make. The last three are for loops that are put together in
  other ways than \<open>run_loop\<close>: a job is taken from the queue, whose calls are then a script, the
  \<open>io_context\<close> has stopped, an error is reported.
\<close>

inductive run_from :: "js_env \<Rightarrow> js_act set \<Rightarrow> cstate \<Rightarrow> bool \<Rightarrow> cstate \<Rightarrow> bool"
  for E :: js_env and A :: "js_act set" and c0 :: cstate where
  run_start: "run_from E A c0 True c0"
| run_script: "run_from E A c0 ok c \<Longrightarrow> set as \<subseteq> A \<Longrightarrow> run_from E A c0 ok (fold (do_act E) as c)"
| run_drain: "run_from E A c0 ok c \<Longrightarrow> drainMicrotasks E n c = Some (r, c') \<Longrightarrow> run_from E A c0 ok c'"
| run_check: "run_from E A c0 ok c \<Longrightarrow> checkUnhandledRejections (js_toString E) c = (r, c') \<Longrightarrow>
    run_from E A c0 ok c'"
| run_handler: "run_from E A c0 ok c \<Longrightarrow> run_ready E n c = Some (r, c') \<Longrightarrow>
    run_from E A c0 (ok \<and> \<not> isl r) c'"
| run_job: "run_from E A c0 ok c \<Longrightarrow> run_from E A c0 ok (c\<lparr>c_jobs := js\<rparr>)"
| run_stopped: "run_from E A c0 ok c \<Longrightarrow> run_from E A c0 ok (c\<lparr>c_stopped := True\<rparr>)"
| run_fatal: "run_from E A c0 ok c \<Longrightarrow> run_from E A c0 ok (reportFatal e c)"
| run_stop: "run_from E A c0 ok c \<Longrightarrow> run_from E A c0 False (stop c)"

lemma run_from_mono:
  assumes "run_from E A c0 ok c" and "A \<subseteq> B"
  shows "run_from E B c0 ok c"
  using assms
proof (induction rule: run_from.induct)
  case (run_script ok c as)
  then show ?case by (meson run_from.run_script order_trans)
qed (blast intro: run_from.intros)+

lemma run_out_of_work: "run_from E A c0 ok c \<Longrightarrow> run_from E A c0 ok (out_of_work c)"
  by (simp add: out_of_work_def run_stopped)

lemma run_from_run_one:
  "run_from E A c0 ok c \<Longrightarrow> run_one E n c = Some (r, c') \<Longrightarrow> run_from E A c0 (ok \<and> \<not> isl r) c'"
  using run_handler [of E A c0 ok c n] run_out_of_work
  by (auto simp: run_one_def split: if_splits option.splits)

text \<open>The same of the functions and jobs that JavaScript defines.\<close>

definition bodies_in :: "js_env \<Rightarrow> js_act set \<Rightarrow> bool" where
  "bodies_in E A \<longleftrightarrow> (\<forall>f c. set (fst (js_body E f c)) \<subseteq> A)"

lemma bodies_in_UNIV [simp]: "bodies_in E UNIV"
  by (simp add: bodies_in_def)

section \<open>The steps, taken apart\<close>

lemma free_rejections_simps:
  assumes "free_rejections str rs msgs c = (m, c')"
  shows "timer_heap c' = timer_heap c" "timer_entries c' = timer_entries c"
    "next_timer_id c' = next_timer_id c" "c_called c' = c_called c" "c_wait c' = c_wait c"
    "c_clock c' = c_clock c" "pending_rejections c' = pending_rejections c"
  using assms by (induction str rs msgs c rule: free_rejections.induct) (auto simp: JS_FreeValue_def)

lemma check_simps:
  assumes "checkUnhandledRejections str c = (r, c')"
  shows "timer_heap c' = timer_heap c" "timer_entries c' = timer_entries c"
    "next_timer_id c' = next_timer_id c" "c_called c' = c_called c" "c_wait c' = c_wait c"
    "c_clock c' = c_clock c" "pending_rejections c' = []"
  using assms free_rejections_simps [of str "pending_rejections c" "[]" c]
  by (auto simp: checkUnhandledRejections_def Let_def split: if_splits prod.splits)

lemma timer_fired_cases:
  assumes "timer_fired E n c = Some (r, c')"
  obtains (threw) e where "process_loop E n (c_clock c 0) (snd (steady_now c)) = Some (Inl e, c')" "r = Inl e"
  | (fired) c1 where "process_loop E n (c_clock c 0) (snd (steady_now c)) = Some (Inr (), c1)"
      "r = Inr ()" "c' = armNextTimer c1"
  using assms
  by (auto simp: timer_fired_def processExpiredTimers_def steady_now_def split: option.splits sum.splits prod.splits)

lemma run_ready_cases:
  assumes "run_ready E n c = Some (r, c')"
  obtains (ready) h hs where "c_ready c = h # hs" "c' = c\<lparr>c_ready := hs\<rparr>" "r = Inr 1"
  | (idle) "c' = c" "c_wait c = None" "r = Inr 0"
  | (timer) t r1 where "c_wait c = Some t" "timer_fired E n (c\<lparr>c_wait := None\<rparr>) = Some (r1, c')"
      "isl r = isl r1"
  using assms by (force simp: run_ready_def split: list.splits option.splits sum.splits prod.splits)

section \<open>The invariant along a run\<close>

definition tables_ok :: "int set \<Rightarrow> cstate \<Rightarrow> bool" where
  "tables_ok X c \<longleftrightarrow> tinv X c \<and> (\<forall>i\<in>X. i < next_timer_id c)"

lemma tables_okD: "tables_ok X c \<Longrightarrow> tinv X c" "tables_ok X c \<Longrightarrow> \<forall>i\<in>X. i < next_timer_id c"
  by (simp_all add: tables_ok_def)

lemma tables_ok_cong:
  "tables_ok X c \<Longrightarrow> timer_heap c' = timer_heap c \<Longrightarrow> timer_entries c' = timer_entries c \<Longrightarrow>
   next_timer_id c' = next_timer_id c \<Longrightarrow> tables_ok X c'"
  by (simp add: tables_ok_def tinv_def)

lemma tables_ok_script: "tables_ok X c \<Longrightarrow> tables_ok X (fold (do_act E) as c)"
  using tinv_script [of X c E as] by (auto simp: tables_ok_def keeps_def)

lemma tables_ok_loop:
  assumes "process_loop E n now c = Some (r, c')" and "tables_ok X c"
  shows "if isl r then \<exists>i. tables_ok (insert i X) c' else tables_ok X c'"
proof -
  have t: "tinv X c" and x: "\<forall>i\<in>X. i < next_timer_id c" using assms(2) by (simp_all add: tables_ok_def)
  note L = tinv_loop [OF assms(1) t x]
  then have x': "\<forall>i\<in>X. i < next_timer_id c'" using x by auto
  show ?thesis
  proof (cases r)
    case (Inl e)
    then obtain i where "i < next_timer_id c'" "tinv (insert i X) c'" using L by auto
    with Inl x' show ?thesis by (auto simp: tables_ok_def)
  qed (use L x' in \<open>auto simp: tables_ok_def\<close>)
qed

lemma tables_ok_arm: "tables_ok X c \<Longrightarrow> tables_ok X (armNextTimer c)"
  by (simp add: tables_ok_def tinv_arm)

lemma tables_ok_drain:
  "drainMicrotasks E n c = Some (r, c') \<Longrightarrow> tables_ok X c \<Longrightarrow> tables_ok X c'"
proof (induction n arbitrary: c)
  case (Suc n)
  show ?case
  proof (cases "c_jobs c")
    case (Cons j js)
    have "tables_ok X (c\<lparr>c_jobs := js\<rparr>)" using Suc.prems(2) by (rule tables_ok_cong) simp_all
    then have "tables_ok X (fold (do_act E) (fst (js_body E j c)) (c\<lparr>c_jobs := js\<rparr>))"
      by (rule tables_ok_script)
    then show ?thesis using Suc Cons by (auto simp: Let_def case_prod_unfold split: option.splits)
  qed (use Suc.prems in simp)
qed simp

lemma tables_ok_fired:
  assumes "timer_fired E n c = Some (r, c')" and "tables_ok X c"
  shows "if isl r then \<exists>i. tables_ok (insert i X) c' else tables_ok X c'"
proof -
  have s: "tables_ok X (snd (steady_now c))"
    using assms(2) by (rule tables_ok_cong) (simp_all add: steady_now_def)
  from assms(1) show ?thesis
  proof (cases rule: timer_fired_cases)
    case (threw e)
    then show ?thesis using tables_ok_loop [OF _ s] by fastforce
  next
    case (fired c1)
    then show ?thesis using tables_ok_loop [OF fired(1) s] by (simp add: tables_ok_arm)
  qed
qed

lemma tables_ok_run:
  assumes "run_from E A c0 ok c" and "tables_ok X c0"
  shows "\<exists>X'. X \<subseteq> X' \<and> (ok \<longrightarrow> X' = X) \<and> tables_ok X' c"
  using assms
proof (induction rule: run_from.induct)
  case (run_handler ok c n r c')
  then obtain X' where X': "X \<subseteq> X'" "ok \<longrightarrow> X' = X" "tables_ok X' c" by blast
  from run_handler.hyps(2) show ?case
  proof (cases rule: run_ready_cases)
    case (ready h hs)
    have "tables_ok X' c'" using X'(3) by (rule tables_ok_cong) (simp_all add: ready)
    with X' show ?thesis by blast
  next
    case (timer t r1)
    have "tables_ok X' (c\<lparr>c_wait := None\<rparr>)" using X'(3) by (rule tables_ok_cong) simp_all
    from tables_ok_fired [OF timer(2) this] X' timer(3) show ?thesis
      by (cases "isl r1") (simp, meson subset_insertI2, simp, blast)
  qed (use X' in auto)
next
  case (run_stop ok c)
  then obtain X' where X': "X \<subseteq> X'" "tables_ok X' c" by blast
  have "tables_ok X' (stop c)" using X'(2)
    by (rule tables_ok_cong) (simp_all add: stop_def Let_def)
  with X' show ?case by blast
next
  case (run_check ok c r c')
  then obtain X' where X': "X \<subseteq> X'" "ok \<longrightarrow> X' = X" "tables_ok X' c" by blast
  have "tables_ok X' c'" using X'(3)
    by (rule tables_ok_cong) (use check_simps [OF run_check.hyps(2)] in simp_all)
  with X' show ?case by blast
next
  case (run_script ok c as)
  then show ?case using tables_ok_script by meson
next
  case (run_drain ok c n r c')
  then show ?case using tables_ok_drain by meson
next
  case (run_job ok c js)
  then obtain X' where X': "X \<subseteq> X'" "ok \<longrightarrow> X' = X" "tables_ok X' c" by blast
  have "tables_ok X' (c\<lparr>c_jobs := js\<rparr>)" using X'(3) by (rule tables_ok_cong) simp_all
  with X' show ?case by blast
next
  case (run_stopped ok c)
  then obtain X' where X': "X \<subseteq> X'" "ok \<longrightarrow> X' = X" "tables_ok X' c" by blast
  have "tables_ok X' (c\<lparr>c_stopped := True\<rparr>)" using X'(3) by (rule tables_ok_cong) simp_all
  with X' show ?case by blast
next
  case (run_fatal ok c e)
  then obtain X' where X': "X \<subseteq> X'" "ok \<longrightarrow> X' = X" "tables_ok X' c" by blast
  have "tables_ok X' (reportFatal e c)" using X'(3) by (rule tables_ok_cong) (simp_all add: reportFatal_def)
  with X' show ?case by blast
next
  case run_start
  then show ?case by blast
qed

section \<open>Properties that hold along a run\<close>

locale script_inv =
  fixes E :: js_env and A :: "js_act set" and I :: "cstate \<Rightarrow> bool"
  assumes act: "tables_ok X c \<Longrightarrow> a \<in> A \<Longrightarrow> I c \<Longrightarrow> I (do_act E a c)"
begin

lemma script: "tables_ok X c \<Longrightarrow> set as \<subseteq> A \<Longrightarrow> I c \<Longrightarrow> I (fold (do_act E) as c)"
proof (induction as arbitrary: c)
  case (Cons a as)
  have "tables_ok X (do_act E a c)" using tables_ok_script [OF Cons.prems(1), of E "[a]"] by simp
  with Cons act show ?case by simp
qed simp

end

text \<open>
  Beyond that: a round of the loop over expired timers keeps it, so does the check for rejections,
  and it does not see the timer of asio, the ready handlers, the jobs and the clock.
\<close>

locale event_inv = script_inv +
  assumes round: "bodies_in E A \<Longrightarrow> tables_ok X c \<Longrightarrow> I c \<Longrightarrow> process_step E now c = (r, c') \<Longrightarrow> I c'"
    and check: "I c \<Longrightarrow> checkUnhandledRejections (js_toString E) c = (x, c') \<Longrightarrow> I c'"
    and frame: "I c \<Longrightarrow> timer_entries c' = timer_entries c \<Longrightarrow> set (timer_heap c') \<subseteq> set (timer_heap c) \<Longrightarrow>
      next_timer_id c' = next_timer_id c \<Longrightarrow> pending_rejections c' = pending_rejections c \<Longrightarrow>
      c_refs c' = c_refs c \<Longrightarrow> c_called c' = c_called c \<Longrightarrow> I c'"
begin

lemma arm: "I c \<Longrightarrow> I (armNextTimer c)"
proof (erule frame)
  obtain ps where "timer_heap c = ps @ prune (timer_entries c) (timer_heap c)" using prune_suffix by blast
  then show "set (timer_heap (armNextTimer c)) \<subseteq> set (timer_heap c)" by (metis Un_upper2 arm_simps(1) set_append)
qed simp_all

lemma loop:
  assumes "bodies_in E A" and "tables_ok X c" and "I c" and "process_loop E n now c = Some (r, c')"
  shows "I c'"
  using assms(4) tables_okD [OF assms(2)] assms(3)
proof (rule process_loop_rule [where P = "\<lambda>_. I"])
  fix c1 r1 c2
  assume "tinv X c1" "\<forall>i\<in>X. i < next_timer_id c1" "I c1" "process_step E now c1 = (r1, c2)"
  then show "I c2" using round [OF assms(1)] by (simp add: tables_ok_def)
qed

lemma fired:
  assumes "bodies_in E A" and "tables_ok X c" and "I c" and "timer_fired E n c = Some (r, c')"
  shows "I c'"
proof -
  have s: "tables_ok X (snd (steady_now c))"
    using assms(2) by (rule tables_ok_cong) (simp_all add: steady_now_def)
  have i: "I (snd (steady_now c))" using assms(3) by (rule frame) (simp_all add: steady_now_def)
  from assms(4) show ?thesis
    by (cases rule: timer_fired_cases) (use loop [OF assms(1) s i] arm in auto)
qed

lemma drain:
  "bodies_in E A \<Longrightarrow> tables_ok X c \<Longrightarrow> I c \<Longrightarrow> drainMicrotasks E n c = Some (r, c') \<Longrightarrow> I c'"
proof (induction n arbitrary: c)
  case (Suc n)
  show ?case
  proof (cases "c_jobs c")
    case (Cons j js)
    let ?c = "fold (do_act E) (fst (js_body E j c)) (c\<lparr>c_jobs := js\<rparr>)"
    have t: "tables_ok X (c\<lparr>c_jobs := js\<rparr>)" using Suc.prems(2) by (rule tables_ok_cong) simp_all
    have "I (c\<lparr>c_jobs := js\<rparr>)" using Suc.prems(3) by (rule frame) simp_all
    then have "I ?c" using script [OF t] Suc.prems(1) by (simp add: bodies_in_def)
    with Suc Cons tables_ok_script [OF t] show ?thesis
      by (auto simp: Let_def case_prod_unfold split: option.splits)
  qed (use Suc.prems in simp)
qed simp

lemma run:
  assumes "run_from E A c0 ok c" and "bodies_in E A" and "tables_ok X c0" and "I c0"
  shows "I c"
  using assms(1)
proof (induction rule: run_from.induct)
  case (run_script ok c as)
  then show ?case using tables_ok_run [OF _ assms(3)] script by blast
next
  case (run_drain ok c n r c')
  then show ?case using tables_ok_run [OF _ assms(3)] drain [OF assms(2)] by blast
next
  case (run_check ok c r c')
  then show ?case using check by blast
next
  case (run_handler ok c n r c')
  from tables_ok_run [OF run_handler.hyps(1) assms(3)] obtain X' where t: "tables_ok X' c" by blast
  from run_handler.hyps(2) show ?case
  proof (cases rule: run_ready_cases)
    case (ready h hs)
    show ?thesis by (rule frame [OF run_handler.IH]) (simp_all add: ready)
  next
    case (timer t r1)
    have "tables_ok X' (c\<lparr>c_wait := None\<rparr>)" using t by (rule tables_ok_cong) simp_all
    moreover have "I (c\<lparr>c_wait := None\<rparr>)" by (rule frame [OF run_handler.IH]) simp_all
    ultimately show ?thesis using fired [OF assms(2)] timer(2) by blast
  qed (use run_handler.IH in simp)
next
  case (run_stop ok c)
  show ?case by (rule frame [OF run_stop.IH]) (simp_all add: stop_def Let_def)
next
  case (run_job ok c js)
  show ?case by (rule frame [OF run_job.IH]) simp_all
next
  case (run_stopped ok c)
  show ?case by (rule frame [OF run_stopped.IH]) simp_all
next
  case (run_fatal ok c e)
  show ?case by (rule frame [OF run_fatal.IH]) (simp_all add: reportFatal_def)
qed (use assms in simp)

end

end
