(* ===== verification/EventHist.thy ===== *)
theory EventHist
  imports EventRun
begin

text \<open>
  What holds along every run of a context: the wait on the timer of asio, the history of the calls
  of timer functions, and the references that the context holds.
\<close>

section \<open>Helpers for one round\<close>

lemma script_eq:
  assumes "JS_Call E e c = (r, c1)"
  shows "c1 = fold (do_act E) (fst (js_body E (te_func e) c)) (c\<lparr>c_called := c_called c @ [fire_of e]\<rparr>)"
  using assms by (simp add: JS_Call_eq)

lemma tables_ok_pop:
  assumes "tables_ok X c" and "timer_heap c = tp # rest"
  shows "tables_ok (insert (hp_id tp) X) (c\<lparr>timer_heap := rest, c_called := cs\<rparr>)"
proof -
  have "tables_ok (insert (hp_id tp) X) (c\<lparr>timer_heap := rest\<rparr>)"
    using tinv_pop [OF tables_okD(1) [OF assms(1)] assms(2)] heap_id_lt [OF tables_okD(1) [OF assms(1)], of tp] assms
    by (simp add: tables_ok_def)
  then show ?thesis by (rule tables_ok_cong) simp_all
qed

context script_inv
begin

lemma call:
  assumes "tables_ok X c" and "timer_heap c = tp # rest" and "bodies_in E A"
    and "JS_Call E e (c\<lparr>timer_heap := rest\<rparr>) = (r, c1)"
    and "I (c\<lparr>timer_heap := rest, c_called := c_called c @ [fire_of e]\<rparr>)"
  shows "I c1"
  using script [OF tables_ok_pop [OF assms(1,2)] _ assms(5)] assms(3) script_eq [OF assms(4)]
  by (simp add: bodies_in_def)

end

section \<open>The wait\<close>

text \<open>The timer of asio is set and not later than the first heap entry.\<close>

definition wait_ok :: "cstate \<Rightarrow> bool" where
  "wait_ok c \<longleftrightarrow> timer_heap c = [] \<or> (\<exists>t. c_wait c = Some t \<and> t \<le> hp_expiry (hd (timer_heap c)))"

lemma wait_arm:
  assumes "tinv X c"
  shows "wait_ok (armNextTimer c)"
proof (cases "prune (timer_entries c) (timer_heap c)")
  case (Cons h hs)
  with prune_head [OF Cons] obtain e where e: "entry_of c (hp_id h) = Some e"
    by (auto simp: dead_or_cancelled_def split: option.splits)
  with tinvD(4) [OF tinv_arm [OF assms], of h] Cons have "te_expiry e = hp_expiry h" by auto
  with Cons e show ?thesis by (simp add: wait_ok_def armNextTimer_def Let_def)
qed (simp add: wait_ok_def)

lemma wait_ok_cong:
  "wait_ok c \<Longrightarrow> timer_heap c' = timer_heap c \<Longrightarrow> c_wait c' = c_wait c \<Longrightarrow> wait_ok c'"
  by (simp add: wait_ok_def)

lemma hd_heap_push: "hd (heap_push h hs) = h \<or> hs \<noteq> [] \<and> hd (heap_push h hs) = hd hs"
  by (cases hs) (auto simp: heap_push_Cons heap_push_def)

lemma wait_schedule:
  assumes "tables_ok X c" and "wait_ok c"
  shows "wait_ok (snd (scheduleTimer f ms rep c))"
proof -
  have t: "tinv X (scheduled f ms rep c)" using assms(1) by (intro tinv_scheduled) (simp_all add: tables_ok_def)
  have "wait_ok (scheduled f ms rep c)" if "hp_id (hd (timer_heap (scheduled f ms rep c))) \<noteq> next_timer_id c"
    using that assms(2) hd_heap_push [of "\<lparr>hp_expiry = c_clock c 0 + milliseconds ms, hp_id = next_timer_id c\<rparr>" "timer_heap c"]
    by (auto simp: wait_ok_def)
  then show ?thesis using wait_arm [OF t] by (simp add: scheduleTimer_eq)
qed

interpretation waits: script_inv E UNIV wait_ok for E
proof
  fix X c a
  assume t: "tables_ok X c" and w: "wait_ok c"
  show "wait_ok (do_act E a c)"
  proof (rule do_act_rule)
    show "wait_ok (snd (scheduleTimer f ms rep c))" for f ms rep by (rule wait_schedule [OF t w])
    show "wait_ok (cancelTimer i c)" for i
      using w by (rule wait_ok_cong) (simp_all add: cancelTimer_def split: option.split)
  qed (use w in \<open>simp_all add: wait_ok_def\<close>)
qed

lemma wait_drain:
  "drainMicrotasks E n c = Some (r, c') \<Longrightarrow> tables_ok X c \<Longrightarrow> wait_ok c \<Longrightarrow> wait_ok c'"
proof (induction n arbitrary: c)
  case (Suc n)
  show ?case
  proof (cases "c_jobs c")
    case (Cons j js)
    have t: "tables_ok X (c\<lparr>c_jobs := js\<rparr>)" using Suc.prems(2) by (rule tables_ok_cong) simp_all
    moreover have "wait_ok (c\<lparr>c_jobs := js\<rparr>)" using Suc.prems(3) by (rule wait_ok_cong) simp_all
    ultimately have "wait_ok (fold (do_act E) (fst (js_body E j c)) (c\<lparr>c_jobs := js\<rparr>))"
      by (intro waits.script) simp_all
    with Suc Cons tables_ok_script [OF t] show ?thesis
      by (auto simp: Let_def case_prod_unfold split: option.splits)
  qed (use Suc.prems in simp)
qed simp

lemma wait_fired:
  assumes "timer_fired E n c = Some (Inr (), c')" and "tables_ok X c"
  shows "wait_ok c'"
proof -
  have s: "tables_ok X (snd (steady_now c))"
    using assms(2) by (rule tables_ok_cong) (simp_all add: steady_now_def)
  from assms(1) show ?thesis
  proof (cases rule: timer_fired_cases)
    case (fired c1)
    with tables_ok_loop [OF fired(1) s] show ?thesis by (auto simp: tables_ok_def intro: wait_arm)
  qed simp
qed

lemma wait_run:
  assumes "run_from E A c0 ok c" and "tables_ok X c0" and "wait_ok c0" and ok
  shows "wait_ok c"
  using assms(1,4)
proof (induction rule: run_from.induct)
  case (run_script ok c as)
  then show ?case using tables_ok_run [OF run_script.hyps(1) assms(2)] waits.script by blast
next
  case (run_drain ok c n r c')
  then show ?case using tables_ok_run [OF run_drain.hyps(1) assms(2)] wait_drain by blast
next
  case (run_check ok c r c')
  then show ?case using check_simps [OF run_check.hyps(2)] by (auto simp: wait_ok_def)
next
  case (run_handler ok c n r c')
  from tables_ok_run [OF run_handler.hyps(1) assms(2)] obtain X' where t: "tables_ok X' c" by blast
  from run_handler.hyps(2) show ?case
  proof (cases rule: run_ready_cases)
    case (timer t r1)
    have "tables_ok X' (c\<lparr>c_wait := None\<rparr>)" using \<open>tables_ok X' c\<close> by (rule tables_ok_cong) simp_all
    then show ?thesis using wait_fired timer run_handler.prems by (cases r1) auto
  qed (use run_handler in \<open>auto simp: wait_ok_def\<close>)
next
  case (run_job ok c js)
  then show ?case by (simp add: wait_ok_def)
next
  case (run_stopped ok c)
  then show ?case by (simp add: wait_ok_def)
next
  case (run_fatal ok c e)
  then show ?case by (simp add: wait_ok_def reportFatal_def)
qed (use assms(3) in simp_all)

section \<open>The history of the calls\<close>

definition oneshots :: "cstate \<Rightarrow> firing list" where
  "oneshots c = filter (\<lambda>f. \<not> fi_repeating f) (c_called c)"

definition once :: "cstate \<Rightarrow> bool" where
  "once c \<longleftrightarrow> distinct (map fi_id (oneshots c)) \<and>
     (\<forall>f\<in>set (oneshots c). fi_id f < next_timer_id c \<and> fi_id f \<notin> hp_id ` set (timer_heap c))"

lemma once_mono:
  "once c \<Longrightarrow> c_called c' = c_called c \<Longrightarrow> next_timer_id c \<le> next_timer_id c' \<Longrightarrow>
   set (timer_heap c') \<subseteq> set (timer_heap c) \<Longrightarrow> once c'"
  unfolding once_def oneshots_def by fastforce

lemma arm_subset: "set (timer_heap (armNextTimer c)) \<subseteq> set (timer_heap c)"
proof -
  obtain ps where "timer_heap c = ps @ prune (timer_entries c) (timer_heap c)" using prune_suffix by blast
  then show ?thesis by (metis Un_upper2 arm_simps(1) set_append)
qed

lemma once_scheduled: "once c \<Longrightarrow> once (scheduled f ms rep c)"
  by (fastforce simp: once_def oneshots_def heap_push_set)

lemma once_schedule: "once c \<Longrightarrow> once (snd (scheduleTimer f ms rep c))"
  using once_mono [OF once_scheduled [of c f ms rep] _ _ arm_subset]
  by (simp add: scheduleTimer_eq once_scheduled)

lemma once_act: "once c \<Longrightarrow> once (do_act E a c)"
proof (rule do_act_rule)
  assume o: "once c"
  show "once (snd (scheduleTimer f ms rep c))" for f ms rep using o by (rule once_schedule)
  show "once (cancelTimer i c)" for i
    using o by (rule once_mono) (auto simp: cancelTimer_def split: option.splits)
qed (auto elim: once_mono)

lemma once_fire:
  assumes "once c" and "tables_ok X c" and "timer_heap c = tp # rest" and "te_id e = hp_id tp"
  shows "once (c\<lparr>timer_heap := rest, c_called := c_called c @ [fire_of e]\<rparr>)"
  using assms(1,3,4) tinvD(2) [OF tables_okD(1) [OF assms(2)]] heap_id_lt [OF tables_okD(1) [OF assms(2)], of tp]
  by (auto simp: once_def oneshots_def)

lemma once_after_call:
  assumes "once c" and "te_id e = i" and "te_repeating e \<Longrightarrow> \<forall>f\<in>set (oneshots c). fi_id f \<noteq> i"
  shows "once (after_call now i e c)"
  using assms by (auto simp: after_call_def once_def oneshots_def Let_def heap_push_set)

interpretation onces: script_inv E UNIV once for E
  by unfold_locales (rule once_act)

interpretation onces: event_inv E UNIV once for E
proof
  fix X now r c c'
  assume t: "tables_ok X c" and o: "once c" and s: "process_step E now c = (r, c')"
  note T = tables_okD [OF t]
  show "once c'" using T
  proof (cases rule: process_step_cases [of X c E now])
    case finished
    with s o show ?thesis by simp
  next
    case (dropped tp rest e)
    show ?thesis using o by (rule once_mono) (use s dropped in auto)
  next
    case (threw tp rest e exc c1)
    have "te_id e = hp_id tp" using tinvD(5) [OF T(1) threw(2)] by simp
    from onces.call [OF t threw(1) _ threw(6) once_fire [OF o t threw(1) this]] s threw(9)
    show ?thesis by simp
  next
    case (called tp rest e c1 e1)
    have i: "te_id e = hp_id tp" using tinvD(5) [OF T(1) called(2)] by simp
    have "\<forall>f\<in>set (oneshots c1). fi_id f \<noteq> hp_id tp" if "te_repeating e1"
      using o called(1,8,10) that by (auto simp: once_def oneshots_def keeps_def dest: same_timerD)
    with onces.call [OF t called(1) _ called(6) once_fire [OF o t called(1) i]] called(11)
    have "once (after_call now (hp_id tp) e1 c1)" by (intro once_after_call) simp_all
    with s called(13) show ?thesis by simp
  qed
next
  fix c x c'
  assume "once c" "checkUnhandledRejections (js_toString E) c = (x, c')"
  then show "once c'" using check_simps by (fastforce elim: once_mono)
qed (auto elim: once_mono)

section \<open>A cancelled timer\<close>

text \<open>\<open>L\<close> are the calls of timer \<open>i\<close> up to now.\<close>

definition cancelled_ok :: "int \<Rightarrow> firing list \<Rightarrow> cstate \<Rightarrow> bool" where
  "cancelled_ok i L c \<longleftrightarrow> filter (\<lambda>f. fi_id f = i) (c_called c) = L \<and> i < next_timer_id c \<and>
     (\<forall>e. entry_of c i = Some e \<longrightarrow> te_cancelled e)"

lemma cancelled_ok_cong:
  "cancelled_ok i L c \<Longrightarrow> c_called c' = c_called c \<Longrightarrow> next_timer_id c' = next_timer_id c \<Longrightarrow>
   timer_entries c' = timer_entries c \<Longrightarrow> cancelled_ok i L c'"
  by (simp add: cancelled_ok_def)

lemma cancelled_act: "cancelled_ok i L c \<Longrightarrow> cancelled_ok i L (do_act E a c)"
proof (rule do_act_rule)
  assume o: "cancelled_ok i L c"
  show "cancelled_ok i L (snd (scheduleTimer f ms rep c))" for f ms rep
    using o by (auto simp: cancelled_ok_def scheduleTimer_eq)
  show "cancelled_ok i L (cancelTimer j c)" for j
    using o by (auto simp: cancelled_ok_def cancelTimer_def split: option.split)
qed (auto elim: cancelled_ok_cong)

interpretation cancels: script_inv E UNIV "cancelled_ok i L" for E i L
  by unfold_locales (rule cancelled_act)

lemma cancelled_fire:
  assumes "cancelled_ok i L c" and "entry_of c (hp_id tp) = Some e" and "\<not> te_cancelled e" and "te_id e = hp_id tp"
  shows "cancelled_ok i L (c\<lparr>timer_heap := rest, c_called := c_called c @ [fire_of e]\<rparr>)"
  using assms by (auto simp: cancelled_ok_def)

interpretation cancels: event_inv E UNIV "cancelled_ok i L" for E i L
proof
  fix X now r c c'
  assume t: "tables_ok X c" and o: "cancelled_ok i L c" and s: "process_step E now c = (r, c')"
  note T = tables_okD [OF t]
  show "cancelled_ok i L c'" using T
  proof (cases rule: process_step_cases [of X c E now])
    case finished
    with s o show ?thesis by simp
  next
    case (dropped tp rest e)
    have "cancelled_ok i L (erase_entry (hp_id tp) e (c\<lparr>timer_heap := rest\<rparr>))"
      using o map_find_erase [OF tinvD(3) [OF T(1)]] by (simp add: cancelled_ok_def)
    with s dropped(5) show ?thesis by simp
  next
    case (threw tp rest e exc c1)
    have "te_id e = hp_id tp" using tinvD(5) [OF T(1) threw(2)] by simp
    from cancels.call [OF t threw(1) _ threw(6) cancelled_fire [OF o threw(2,3) this]] s threw(9)
    show ?thesis by simp
  next
    case (called tp rest e c1 e1)
    have id: "te_id e = hp_id tp" using tinvD(5) [OF T(1) called(2)] by simp
    have "cancelled_ok i L c1"
      using cancels.call [OF t called(1) _ called(6) cancelled_fire [OF o called(2,3) id]] by simp
    moreover have "i \<noteq> hp_id tp" using o called(2,3) by (auto simp: cancelled_ok_def)
    ultimately have "cancelled_ok i L (after_call now (hp_id tp) e1 c1)"
      using map_find_erase [OF tinvD(3) [OF called(7)]]
      by (simp add: cancelled_ok_def after_call_def Let_def)
    with s called(13) show ?thesis by simp
  qed
next
  fix c x c'
  assume "cancelled_ok i L c" "checkUnhandledRejections (js_toString E) c = (x, c')"
  then show "cancelled_ok i L c'" using check_simps by (fastforce elim: cancelled_ok_cong)
qed (auto elim: cancelled_ok_cong)

end
