(* ===== verification/EventRefs.thy ===== *)
theory EventRefs
  imports EventHist
begin

text \<open>
  The references that the context holds on JavaScript values: one for the function of each table
  entry, one for the promise and one for the reason of each pending rejection.
\<close>

definition entry_refs :: "(int \<times> timer_entry) list \<Rightarrow> jsval \<Rightarrow> int" where
  "entry_refs es v = (\<Sum>x\<leftarrow>es. of_bool (te_func (snd x) = v))"

definition rejection_refs :: "(jsval \<times> jsval) list \<Rightarrow> jsval \<Rightarrow> int" where
  "rejection_refs rs v = (\<Sum>x\<leftarrow>rs. of_bool (fst x = v) + of_bool (snd x = v))"

definition owned :: "cstate \<Rightarrow> jsval \<Rightarrow> int" where
  "owned c v = entry_refs (timer_entries c) v + rejection_refs (pending_rejections c) v"

text \<open>References counted but no longer reachable from the tables.\<close>

definition slack :: "jsval \<Rightarrow> cstate \<Rightarrow> int" where
  "slack v c = c_refs c v - owned c v"

section \<open>Table updates\<close>

lemma entry_refs_put_new:
  "map_find es i = None \<Longrightarrow> entry_refs (map_put i e es) v = of_bool (te_func e = v) + entry_refs es v"
  by (induction es) (auto simp: entry_refs_def split: if_splits)

lemma entry_refs_put_same:
  "map_sorted es \<Longrightarrow> map_find es i = Some e \<Longrightarrow> te_func e' = te_func e \<Longrightarrow>
   entry_refs (map_put i e' es) v = entry_refs es v"
proof (induction es)
  case (Cons x es)
  obtain j e1 where x: "x = (j, e1)" by (cases x)
  show ?case
  proof (cases "i = j")
    case True
    with Cons.prems x show ?thesis by (simp add: entry_refs_def)
  next
    case False
    with Cons.prems x have "map_sorted es" "map_find es i = Some e" by (simp_all add: map_sorted_Cons)
    moreover from this have "j < i" using Cons.prems(1) x map_find_SomeD [of es i e]
      by (force simp: map_sorted_Cons)
    ultimately show ?thesis using Cons.IH Cons.prems(3) x False by (simp add: entry_refs_def)
  qed
qed simp

lemma entry_refs_erase:
  "map_find es i = Some e \<Longrightarrow> entry_refs (map_erase i es) v = entry_refs es v - of_bool (te_func e = v)"
proof (induction es)
  case (Cons x es)
  then show ?case by (cases x; cases "i = fst x") (simp_all add: entry_refs_def)
qed simp

lemma rejection_refs_append [simp]: "rejection_refs (rs @ rs') v = rejection_refs rs v + rejection_refs rs' v"
  by (simp add: rejection_refs_def)

lemma rejection_refs_filter: "rejection_refs (filter P rs) v \<le> rejection_refs rs v"
proof (induction rs)
  case (Cons x rs)
  then show ?case by (cases "P x") (simp_all add: rejection_refs_def add_increasing)
qed (simp add: rejection_refs_def)

lemma slack_cong:
  "c_refs c' = c_refs c \<Longrightarrow> timer_entries c' = timer_entries c \<Longrightarrow>
   pending_rejections c' = pending_rejections c \<Longrightarrow> slack v c' = slack v c"
  by (simp add: slack_def owned_def)

lemma slack_arm: "slack v (armNextTimer c) = slack v c"
  by (rule slack_cong) simp_all

lemma slack_schedule:
  assumes "tinv X c"
  shows "slack v (snd (scheduleTimer f ms rep c)) = slack v c"
proof -
  have "slack v (scheduled f ms rep c) = slack v c"
    by (simp add: slack_def owned_def entry_refs_put_new fresh_id [OF assms])
      (simp add: scheduled_def JS_DupValue_def)
  then show ?thesis by (simp add: scheduleTimer_eq slack_arm)
qed

lemma slack_cancel: "tinv X c \<Longrightarrow> slack v (cancelTimer i c) = slack v c"
  by (auto simp: slack_def owned_def cancelTimer_def entry_refs_put_same dest: tinvD(3) split: option.split)

lemma slack_reject: "slack v (promiseRejectionTracker p r False c) = slack v c"
  by (simp add: slack_def owned_def promiseRejectionTracker_def JS_DupValue_def rejection_refs_def Let_def)

lemma slack_handle:
  "slack v (promiseRejectionTracker p r True c) = slack v c +
     (rejection_refs (pending_rejections c) v - rejection_refs (filter (\<lambda>(q, _). q \<noteq> p) (pending_rejections c)) v)"
  by (simp add: slack_def owned_def promiseRejectionTracker_def)

lemma slack_act:
  assumes "tinv X c"
  shows "slack v c \<le> slack v (do_act E a c) \<and> ((\<forall>p. a \<noteq> Handle p) \<longrightarrow> slack v (do_act E a c) = slack v c)"
proof (rule do_act_rule)
  fix p
  assume "a = Handle p"
  then show "slack v c \<le> slack v (promiseRejectionTracker p 0 True c) \<and>
      ((\<forall>p. a \<noteq> Handle p) \<longrightarrow> slack v (promiseRejectionTracker p 0 True c) = slack v c)"
    using rejection_refs_filter [of "\<lambda>(q, _). q \<noteq> p" "pending_rejections c" v] by (simp add: slack_handle)
next
  fix js
  have "slack v (c\<lparr>c_jobs := js\<rparr>) = slack v c" by (rule slack_cong) simp_all
  then show "slack v c \<le> slack v (c\<lparr>c_jobs := js\<rparr>) \<and>
      ((\<forall>p. a \<noteq> Handle p) \<longrightarrow> slack v (c\<lparr>c_jobs := js\<rparr>) = slack v c)" by simp
qed (simp_all add: slack_schedule [OF assms] slack_cancel [OF assms] slack_reject)

lemma slack_erase:
  "entry_of c i = Some e \<Longrightarrow> slack v (erase_entry i e c) = slack v c"
  by (simp add: slack_def owned_def entry_refs_erase) (simp add: erase_entry_def JS_FreeValue_def Let_def)

lemma slack_after_call:
  "entry_of c i = Some e \<Longrightarrow> map_sorted (timer_entries c) \<Longrightarrow> slack v (after_call now i e c) = slack v c"
  by (simp add: after_call_def slack_erase Let_def) (simp add: slack_def owned_def entry_refs_put_same)

lemma slack_free_rejections:
  "free_rejections str rs msgs c = (m, c') \<Longrightarrow> c_refs c' v = c_refs c v - rejection_refs rs v"
  by (induction str rs msgs c rule: free_rejections.induct)
    (auto simp: JS_FreeValue_def rejection_refs_def)

lemma slack_check:
  assumes "checkUnhandledRejections str c = (r, c')"
  shows "slack v c' = slack v c"
proof (cases "pending_rejections c")
  case Nil
  with assms show ?thesis by (simp add: checkUnhandledRejections_def)
next
  case (Cons p ps)
  obtain m c1 where f: "free_rejections str (pending_rejections c) [] c = (m, c1)"
    by (cases "free_rejections str (pending_rejections c) [] c")
  with assms Cons have "c' = c1\<lparr>pending_rejections := []\<rparr>"
    by (simp add: checkUnhandledRejections_def Let_def)
  then show ?thesis
    using slack_free_rejections [OF f, of v] free_rejections_simps [OF f]
    by (simp add: slack_def owned_def rejection_refs_def)
qed

lemma slack_heap_called [simp]:
  "slack v (c\<lparr>timer_heap := hs\<rparr>) = slack v c" "slack v (c\<lparr>timer_heap := hs, c_called := cs\<rparr>) = slack v c"
  by (simp_all add: slack_def owned_def)

section \<open>Along a run\<close>

lemma slack_round:
  assumes "script_inv E A (\<lambda>c. R s (slack v c))" and "bodies_in E A" and "tables_ok X c"
    and "R s (slack v c)" and "process_step E now c = (r, c')"
  shows "R s (slack v c')"
  using tables_okD [OF assms(3)]
proof (cases rule: process_step_cases [of X c E now])
  case finished
  with assms show ?thesis by simp
next
  case (dropped tp rest e)
  have "slack v (erase_entry (hp_id tp) e (c\<lparr>timer_heap := rest\<rparr>)) = slack v c"
    using dropped(2) by (simp add: slack_erase)
  with dropped(5) assms(4,5) show ?thesis by simp
next
  case (threw tp rest e exc c1)
  have "R s (slack v (c\<lparr>timer_heap := rest, c_called := c_called c @ [fire_of e]\<rparr>))"
    using assms(4) by simp
  with script_inv.call [OF assms(1,3) threw(1) assms(2) threw(6)] threw(9) assms(5) show ?thesis by simp
next
  case (called tp rest e c1 e1)
  have "R s (slack v (c\<lparr>timer_heap := rest, c_called := c_called c @ [fire_of e]\<rparr>))"
    using assms(4) by simp
  with script_inv.call [OF assms(1,3) called(1) assms(2) called(6)]
    slack_after_call [OF called(9) tinvD(3) [OF called(7)], of v] called(13) assms(5) show ?thesis by simp
qed

interpretation refs_le: script_inv E UNIV "\<lambda>c. s \<le> slack v c" for E s v
proof
  fix X c a
  assume "tables_ok X c" "s \<le> slack v c"
  then show "s \<le> slack v (do_act E a c)"
    using slack_act [OF tables_okD(1), of X c v E a] by linarith
qed

interpretation refs_le: event_inv E UNIV "\<lambda>c. s \<le> slack v c" for E s v
proof
  show "s \<le> slack v c'" if "bodies_in E UNIV" "tables_ok X c" "s \<le> slack v c" "process_step E now c = (r, c')"
    for X c now r c'
    using slack_round [where R = "(\<le>)", OF refs_le.script_inv_axioms that] .
qed (use slack_check slack_cong in \<open>metis+\<close>)

definition no_handle :: "js_act set" where
  "no_handle = {a. \<forall>p. a \<noteq> Handle p}"

interpretation refs_eq: script_inv E no_handle "\<lambda>c. s = slack v c" for E s v
proof
  fix X c a
  assume "tables_ok X c" "a \<in> no_handle" "s = slack v c"
  then show "s = slack v (do_act E a c)"
    using slack_act [OF tables_okD(1), of X c v E a] by (simp add: no_handle_def)
qed

interpretation refs_eq: event_inv E no_handle "\<lambda>c. s = slack v c" for E s v
proof
  show "s = slack v c'" if "bodies_in E no_handle" "tables_ok X c" "s = slack v c" "process_step E now c = (r, c')"
    for X c now r c'
    using slack_round [where R = "(=)", OF refs_eq.script_inv_axioms that] .
qed (use slack_check slack_cong in \<open>metis+\<close>)

section \<open>The destructor\<close>

lemma dtor_entries: "c_refs (fold (\<lambda>(tid, entry) c. JS_FreeValue (te_func entry) c) es c) v = c_refs c v - entry_refs es v"
  by (induction es arbitrary: c) (auto simp: JS_FreeValue_def entry_refs_def)

lemma dtor_rejections:
  "c_refs (fold (\<lambda>(p, r) c. JS_FreeValue r (JS_FreeValue p c)) rs c) v = c_refs c v - rejection_refs rs v"
  by (induction rs arbitrary: c) (auto simp: JS_FreeValue_def rejection_refs_def)

lemma dtor_entries_frame:
  "pending_rejections (fold (\<lambda>(tid, entry) c. JS_FreeValue (te_func entry) c) es c) = pending_rejections c"
  by (induction es arbitrary: c) (auto simp: JS_FreeValue_def)

lemma dtor_refs: "c_refs (SandboxContext_dtor c) v = slack v c"
  by (simp add: SandboxContext_dtor_def Let_def dtor_entries dtor_rejections dtor_entries_frame slack_def owned_def)

lemma slack_init: "slack v (SandboxContext_init clock) = 0"
  by (simp add: slack_def owned_def SandboxContext_init_def entry_refs_def rejection_refs_def)

lemma tables_ok_init: "tables_ok {} (SandboxContext_init clock)"
  by (simp add: tables_ok_def tinv_def SandboxContext_init_def heap_sorted_def)

end
