(* ===== verification/EventFire.thy ===== *)
theory EventFire
  imports EventRefs
begin

text \<open>
  What one call of \<open>processExpiredTimers\<close> does: which timers it calls, in what order, and when it
  returns.
\<close>

section \<open>Every due timer is called\<close>

definition no_clear :: "js_act set" where
  "no_clear = {a. \<forall>argv. a \<noteq> ClearTimeout argv \<and> a \<noteq> ClearInterval argv}"

text \<open>A live timer of before is still there as it was, or its function was called.\<close>

definition fired_or_same :: "cstate \<Rightarrow> cstate \<Rightarrow> bool" where
  "fired_or_same c0 c \<longleftrightarrow> (\<forall>i e. entry_of c0 i = Some e \<longrightarrow> \<not> te_cancelled e \<longrightarrow>
     (\<exists>f\<in>set (drop (length (c_called c0)) (c_called c)). fi_id f = i) \<or> entry_of c i = Some e)"

lemma fired_or_same_cong:
  "fired_or_same c0 c \<Longrightarrow> c_called c' = c_called c \<Longrightarrow>
   (\<And>i e. entry_of c i = Some e \<Longrightarrow> entry_of c' i = Some e) \<Longrightarrow> fired_or_same c0 c'"
  by (simp add: fired_or_same_def) blast

lemma fired_or_same_act:
  assumes "tables_ok X c" and "a \<in> no_clear" and "fired_or_same c0 c"
  shows "fired_or_same c0 (do_act E a c)"
proof -
  have t: "fired_or_same c0 (snd (scheduleTimer f ms rep c))" for f ms rep
    using assms(3) by (rule fired_or_same_cong)
      (use fresh_id [OF tables_okD(1) [OF assms(1)]] in \<open>auto simp: scheduleTimer_eq\<close>)
  have s: "fired_or_same c0 (snd (js_setTimer z rep argv c))" for z rep argv
    using t assms(3) by (auto simp: js_setTimer_def split: list.split jsarg.split)
  have "fired_or_same c0 (c\<lparr>c_jobs := js\<rparr>)" "fired_or_same c0 (promiseRejectionTracker p r h c)" for js p r h
    using assms(3) by (rule fired_or_same_cong; simp)+
  with s assms(2) show ?thesis
    by (cases a) (simp_all add: no_clear_def js_setTimeout_def js_setInterval_def)
qed

interpretation dues: script_inv E no_clear "fired_or_same c0" for E c0
  by unfold_locales (rule fired_or_same_act)

definition later :: "cstate \<Rightarrow> cstate \<Rightarrow> bool" where
  "later c0 c \<longleftrightarrow> (\<exists>fs. c_called c = c_called c0 @ fs)"

lemma keeps_later: "later c0 c \<Longrightarrow> keeps (c\<lparr>timer_heap := hs, c_called := c_called c @ [f]\<rparr>) c' \<Longrightarrow> later c0 c'"
  by (auto simp: later_def keeps_def)

lemma fired_or_same_fire:
  assumes "fired_or_same c0 c" and "later c0 c"
  shows "fired_or_same c0 (c\<lparr>timer_heap := hs, c_called := c_called c @ [f]\<rparr>)"
  using assms by (fastforce simp: fired_or_same_def later_def)

lemma fired_or_same_round:
  assumes "tables_ok X c" and "fired_or_same c0 c" and "later c0 c" and "bodies_in E no_clear"
    and "process_step E now c = (r, c')"
  shows "fired_or_same c0 c' \<and> later c0 c'"
  using tables_okD [OF assms(1)]
proof (cases rule: process_step_cases [of X c E now])
  case finished
  with assms show ?thesis by simp
next
  case (dropped tp rest e)
  have "fired_or_same c0 (erase_entry (hp_id tp) e (c\<lparr>timer_heap := rest\<rparr>))"
    unfolding fired_or_same_def
  proof (intro allI impI)
    fix i e0
    assume "entry_of c0 i = Some e0" "\<not> te_cancelled e0"
    with assms(2) have "(\<exists>f\<in>set (drop (length (c_called c0)) (c_called c)). fi_id f = i) \<or> entry_of c i = Some e0"
      "e0 \<noteq> e" using dropped(3) by (auto simp: fired_or_same_def)
    with dropped(2) show "(\<exists>f\<in>set (drop (length (c_called c0)) (c_called (erase_entry (hp_id tp) e (c\<lparr>timer_heap := rest\<rparr>)))).
        fi_id f = i) \<or> entry_of (erase_entry (hp_id tp) e (c\<lparr>timer_heap := rest\<rparr>)) i = Some e0"
      using map_find_erase [OF tinvD(3) [OF tables_okD(1) [OF assms(1)]], of "hp_id tp" i]
      by (cases "i = hp_id tp") simp_all
  qed
  with dropped(5) assms(3,5) show ?thesis by (simp add: later_def)
next
  case (threw tp rest e exc c1)
  with dues.call [OF assms(1) threw(1) assms(4) threw(6) fired_or_same_fire [OF assms(2,3)]]
    keeps_later [OF assms(3) threw(8)] assms(5) show ?thesis by simp
next
  case (called tp rest e c1 e1)
  have f1: "fired_or_same c0 c1"
    using dues.call [OF assms(1) called(1) assms(4) called(6) fired_or_same_fire [OF assms(2,3)]] .
  have l1: "later c0 c1" using keeps_later [OF assms(3) called(8)] .
  have id: "te_id e = hp_id tp" using called(10,11) by (simp add: same_timerD)
  have "fired_or_same c0 (after_call now (hp_id tp) e1 c1)"
    unfolding fired_or_same_def
  proof (intro allI impI)
    fix i e0
    assume e0: "entry_of c0 i = Some e0" "\<not> te_cancelled e0"
    let ?c = "after_call now (hp_id tp) e1 c1"
    show "(\<exists>f\<in>set (drop (length (c_called c0)) (c_called ?c)). fi_id f = i) \<or> entry_of ?c i = Some e0"
    proof (cases "i = hp_id tp")
      case True
      have "c_called c1 = c_called c @ [fire_of e]" using called(8) by (simp add: keeps_def)
      with assms(3) have "fire_of e \<in> set (drop (length (c_called c0)) (c_called c1))" by (auto simp: later_def)
      with True id show ?thesis by force
    next
      case False
      then show ?thesis
        using f1 e0 map_find_erase [OF tinvD(3) [OF called(7)], of "hp_id tp" i]
        by (auto simp: fired_or_same_def after_call_def Let_def)
    qed
  qed
  with called(13) l1 assms(5) show ?thesis by (simp add: later_def)
qed

lemma fired_or_same_loop:
  assumes "process_loop E n now c = Some (r, c')" and "tables_ok X c" and "bodies_in E no_clear"
  shows "fired_or_same c c'"
proof -
  have "fired_or_same c c' \<and> later c c'"
    using assms(1) tables_okD [OF assms(2)]
  proof (rule process_loop_rule [where P = "\<lambda>c c'. fired_or_same c c' \<and> later c c'"])
    show "fired_or_same c c \<and> later c c" by (simp add: fired_or_same_def later_def)
  next
    fix c1 r1 c2
    assume "tinv X c1" "\<forall>i\<in>X. i < next_timer_id c1" "fired_or_same c c1 \<and> later c c1"
      "process_step E now c1 = (r1, c2)"
    then show "fired_or_same c c2 \<and> later c c2"
      using fired_or_same_round assms(3) by (simp add: tables_ok_def)
  qed
  then show ?thesis by blast
qed

text \<open>And the loop calls none that is not due.\<close>

lemma calls_due:
  assumes "process_loop E n now c = Some (r, c')" and "tables_ok X c"
  shows "\<exists>fs. c_called c' = c_called c @ fs \<and> (\<forall>f\<in>set fs. fi_expiry f \<le> now)"
  using assms(1) tables_okD [OF assms(2)]
proof (rule process_loop_rule [where P = "\<lambda>c c'. \<exists>fs. c_called c' = c_called c @ fs \<and> (\<forall>f\<in>set fs. fi_expiry f \<le> now)"])
  fix c1 r1 c2
  assume t: "tinv X c1" "\<forall>i\<in>X. i < next_timer_id c1" and s: "process_step E now c1 = (r1, c2)"
    and "\<exists>fs. c_called c1 = c_called c @ fs \<and> (\<forall>f\<in>set fs. fi_expiry f \<le> now)"
  then obtain fs where fs: "c_called c1 = c_called c @ fs" "\<forall>f\<in>set fs. fi_expiry f \<le> now" by blast
  from t show "\<exists>fs. c_called c2 = c_called c @ fs \<and> (\<forall>f\<in>set fs. fi_expiry f \<le> now)"
  proof (cases rule: process_step_cases [of X c1 E now])
    case (threw tp rest e exc c3)
    with s fs have "c_called c2 = c_called c @ (fs @ [fire_of e])" by (simp add: keeps_def)
    with threw(4,5) fs(2) show ?thesis by fastforce
  next
    case (called tp rest e c3 e1)
    with s fs have "c_called c2 = c_called c @ (fs @ [fire_of e])" by (auto simp: keeps_def)
    with called(4,5) fs(2) show ?thesis by fastforce
  qed (use s fs in auto)
qed simp

section \<open>Order and termination\<close>

text \<open>
  Delays are not negative and intervals are positive, and the clock is past the reading \<open>now\<close> that
  the loop started with when a function schedules a timer.
\<close>

definition paced_acts :: "js_env \<Rightarrow> js_act set" where
  "paced_acts E = {a. \<forall>f ms rep. sched_of E a = Some (f, ms, rep) \<longrightarrow> 0 \<le> ms \<and> (rep \<longrightarrow> 0 < ms)}"

definition due :: "int \<Rightarrow> cstate \<Rightarrow> heap_entry multiset" where
  "due now c = filter_mset (\<lambda>h. hp_expiry h \<le> now) (mset (timer_heap c))"

definition paced :: "int \<Rightarrow> heap_entry multiset \<Rightarrow> cstate \<Rightarrow> bool" where
  "paced now M c \<longleftrightarrow> due now c \<subseteq># M \<and> (\<forall>i. now < c_clock c i) \<and>
     (\<forall>i e. entry_of c i = Some e \<longrightarrow> te_repeating e \<longrightarrow> 0 < te_interval_ms e)"

lemma paced_cong:
  "paced now M c \<Longrightarrow> timer_heap c' = timer_heap c \<Longrightarrow> timer_entries c' = timer_entries c \<Longrightarrow>
   c_clock c' = c_clock c \<Longrightarrow> paced now M c'"
  by (simp add: paced_def due_def)

lemma paced_arm: "paced now M c \<Longrightarrow> paced now M (armNextTimer c)"
proof -
  assume p: "paced now M c"
  obtain ps where ps: "timer_heap c = ps @ prune (timer_entries c) (timer_heap c)" using prune_suffix by blast
  have "due now (armNextTimer c) \<subseteq># due now c"
    by (simp add: due_def) (subst (2) ps, simp)
  with p show ?thesis by (auto simp: paced_def intro: subset_mset.trans)
qed

lemma paced_act:
  assumes "tables_ok X c" and "a \<in> paced_acts E" and "paced now M c"
  shows "paced now M (do_act E a c)"
proof (rule do_act_rule)
  fix f ms rep
  assume "sched_of E a = Some (f, ms, rep)"
  with assms(2) have ms: "0 \<le> ms" "rep \<Longrightarrow> 0 < ms" by (auto simp: paced_acts_def)
  from assms(3) have "now < c_clock c 0" by (simp add: paced_def)
  moreover have "0 \<le> milliseconds ms" using ms(1) by simp
  ultimately have "\<not> c_clock c 0 + milliseconds ms \<le> now" by linarith
  then have "paced now M (scheduled f ms rep c)"
    using assms(3) ms(2) by (auto simp: paced_def due_def heap_push_mset)
  then show "paced now M (snd (scheduleTimer f ms rep c))" by (simp add: scheduleTimer_eq paced_arm)
next
  show "paced now M (cancelTimer i c)" for i
    using assms(3) by (auto simp: paced_def due_def cancelTimer_def split: option.split)
next
  have t: "paced now M (promiseRejectionTracker p r h c)" for p r h
    using assms(3) by (rule paced_cong) simp_all
  show "paced now M (promiseRejectionTracker p r False c)" "paced now M (promiseRejectionTracker p 0 True c)"
    for p r by (rule t)+
next
  show "paced now M (c\<lparr>c_jobs := js\<rparr>)" for js
    using assms(3) by (rule paced_cong) simp_all
qed (use assms(3) in \<open>auto elim: paced_cong\<close>)

interpretation paces: script_inv E "paced_acts E" "paced now M" for E now M
  by unfold_locales (rule paced_act)

lemma paced_after_call:
  assumes "paced now M c" and "entry_of c i = Some e" and "map_sorted (timer_entries c)"
  shows "paced now M (after_call now i e c)"
proof -
  have iv: "te_repeating e \<Longrightarrow> 0 < te_interval_ms e" using assms(1,2) by (auto simp: paced_def)
  show ?thesis
    using assms(1) iv map_find_erase [OF assms(3), of i]
    by (auto simp: after_call_def paced_def due_def heap_push_mset Let_def)
qed

text \<open>One round takes the first due entry off the heap and adds none.\<close>

lemma paced_round:
  assumes "tables_ok X c" and "bodies_in E (paced_acts E)" and "paced now M c"
    and "process_step E now c = (r, c')"
  shows "(r \<noteq> Done \<longrightarrow> (\<exists>tp rest. timer_heap c = tp # rest \<and> hp_expiry tp \<le> now \<and>
      paced now (due now (c\<lparr>timer_heap := rest\<rparr>)) c' \<and> 
      (\<exists>fs. c_called c' = c_called c @ fs \<and> (fs = [] \<or> (\<exists>f. fs = [f] \<and> fi_expiry f = hp_expiry tp)))))"
proof (cases rule: process_step_cases [OF tables_okD [OF assms(1)], of E now])
  case 1
  with assms(4) show ?thesis by simp
next
  case (2 tp rest e)
  let ?M = "due now (c\<lparr>timer_heap := rest\<rparr>)"
  have "paced now ?M (erase_entry (hp_id tp) e (c\<lparr>timer_heap := rest\<rparr>))"
    using assms(3) map_find_erase [OF tinvD(3) [OF tables_okD(1) [OF assms(1)]], of "hp_id tp"]
    by (auto simp: paced_def due_def)
  with 2 assms(4) show ?thesis by auto
next
  case (3 tp rest e exc c1)
  let ?M = "due now (c\<lparr>timer_heap := rest\<rparr>)"
  have "paced now ?M (c\<lparr>timer_heap := rest, c_called := c_called c @ [fire_of e]\<rparr>)"
    using assms(3) by (auto simp: paced_def due_def)
  then have "paced now ?M c1" by (rule paces.call [OF assms(1) 3(1) assms(2) 3(6)])
  with 3 assms(4) show ?thesis by (auto simp: keeps_def)
next
  case (4 tp rest e c1 e1)
  let ?M = "due now (c\<lparr>timer_heap := rest\<rparr>)"
  have "paced now ?M (c\<lparr>timer_heap := rest, c_called := c_called c @ [fire_of e]\<rparr>)"
    using assms(3) by (auto simp: paced_def due_def)
  then have "paced now ?M c1" by (rule paces.call [OF assms(1) 4(1) assms(2) 4(6)])
  then have "paced now ?M (after_call now (hp_id tp) e1 c1)"
    using 4(9) tinvD(3) [OF 4(7)] by (rule paced_after_call)
  with 4 assms(4) show ?thesis by (auto simp: keeps_def)
qed

lemma loop_returns:
  assumes "tables_ok X c" and "bodies_in E (paced_acts E)" and "paced now (due now c) c"
    and "size (due now c) < n"
  shows "\<exists>r c' fs. process_loop E n now c = Some (r, c') \<and> c_called c' = c_called c @ fs \<and>
    sorted (map fi_expiry fs) \<and> length fs \<le> size (due now c) \<and>
    (\<forall>f\<in>set fs. \<exists>h\<in>#due now c. fi_expiry f = hp_expiry h)"
  using assms(1,3,4)
proof (induction n arbitrary: c)
  case (Suc n)
  obtain r c1 where s: "process_step E now c = (r, c1)" by (cases "process_step E now c")
  note T = tables_okD [OF Suc.prems(1)]
  show ?case
  proof (cases "r = Done")
    case True
    then have "c1 = c" using s
      by (cases rule: process_step_cases [OF T, of E now]) auto
    with True s show ?thesis by (simp add: exI [of _ "[]"])
  next
    case False
    with paced_round [OF Suc.prems(1) assms(2) Suc.prems(2) s] obtain tp rest fs where
      h: "timer_heap c = tp # rest" "hp_expiry tp \<le> now" and p: "paced now (due now (c\<lparr>timer_heap := rest\<rparr>)) c1"
      and fs: "c_called c1 = c_called c @ fs" "fs = [] \<or> (\<exists>f. fs = [f] \<and> fi_expiry f = hp_expiry tp)"
      by blast
    have d: "due now c = add_mset tp (due now (c\<lparr>timer_heap := rest\<rparr>))" using h by (simp add: due_def)
    have sub: "due now c1 \<subseteq># due now (c\<lparr>timer_heap := rest\<rparr>)" using p by (simp add: paced_def)
    have least: "hp_expiry tp \<le> hp_expiry x" if "x \<in># due now c1" for x
      using mset_subset_eqD [OF sub that] tinvD(1) [OF T(1)] h by (auto simp: due_def heap_sorted_def)
    have fl: "length fs \<le> 1" "\<forall>f\<in>set fs. fi_expiry f = hp_expiry tp" "sorted (map fi_expiry fs)" using fs(2) by auto
    show ?thesis
    proof (cases r)
      case (Threw exc)
      with s fs fl d show ?thesis by (intro exI [of _ "Inl exc"] exI [of _ c1] exI [of _ fs]) auto
    next
      case Again
      then have t1: "tables_ok X c1" using tinv_step [OF T s] T(2) by (auto simp: tables_ok_def)
      have p1: "paced now (due now c1) c1" using p by (simp add: paced_def)
      have lt: "size (due now c1) < n" using size_mset_mono [OF sub] d Suc.prems(3) by simp
      from Suc.IH [OF t1 p1 lt] obtain r' c' gs where IH: "process_loop E n now c1 = Some (r', c')"
        "c_called c' = c_called c1 @ gs" "sorted (map fi_expiry gs)" "length gs \<le> size (due now c1)"
        "\<forall>f\<in>set gs. \<exists>h\<in>#due now c1. fi_expiry f = hp_expiry h" by blast
      have "sorted (map fi_expiry (fs @ gs))" using IH(3,5) fl least by (fastforce simp: sorted_append)
      moreover have "length (fs @ gs) \<le> size (due now c)"
        using IH(4) fl(1) size_mset_mono [OF sub] d by simp
      moreover have "\<forall>f\<in>set (fs @ gs). \<exists>h\<in>#due now c. fi_expiry f = hp_expiry h"
        using IH(5) fl(2) mset_subset_eqD [OF sub] d by fastforce
      ultimately show ?thesis using Again s IH(1,2) fs(1)
        by (intro exI [of _ r'] exI [of _ c'] exI [of _ "fs @ gs"]) simp
    qed (use False in simp)
  qed
qed simp

section \<open>An interval that is not positive\<close>

text \<open>The entry is put back with an expiry that is due again.\<close>

definition spins :: "js_env \<Rightarrow> int \<Rightarrow> cstate \<Rightarrow> bool" where
  "spins E now c \<longleftrightarrow> (\<exists>h e. timer_heap c = [h] \<and> entry_of c (hp_id h) = Some e \<and> \<not> te_cancelled e \<and>
     te_id e = hp_id h \<and> te_expiry e \<le> now \<and> te_repeating e \<and> te_interval_ms e \<le> 0 \<and> (\<forall>c. js_body E (te_func e) c = ([], None)))"

lemma spins_round:
  assumes "spins E now c"
  shows "\<exists>c'. process_step E now c = (Again, c') \<and> spins E now c'"
proof -
  obtain h e where h: "timer_heap c = [h]" "entry_of c (hp_id h) = Some e" "\<not> te_cancelled e"
    "te_id e = hp_id h" "te_expiry e \<le> now" "te_repeating e" "te_interval_ms e \<le> 0"
    "\<forall>c. js_body E (te_func e) c = ([], None)" using assms by (auto simp: spins_def)
  then have "te_expiry e + milliseconds (te_interval_ms e) \<le> now"
    using milliseconds_sign(3) [of "te_interval_ms e"] by linarith
  then show ?thesis using h
    by (auto simp: process_step_def JS_Call_def after_call_def spins_def heap_push_def Let_def)
qed

lemma spins_forever: "spins E now c \<Longrightarrow> process_loop E n now c = None"
proof (induction n arbitrary: c)
  case (Suc n)
  from spins_round [OF Suc.prems] Suc.IH show ?case by auto
qed simp

end
