(* ===== verification/EventProps.thy ===== *)
theory EventProps
  imports EventFire
begin

text \<open>
  The properties of timers, rejections and the event loop. Each one is about any context that was
  made by the constructor and has since run any scripts, jobs, checks and handlers.
\<close>

section \<open>Along a run\<close>

lemma run_tables:
  assumes "run_from E A (SandboxContext_init clock) ok c"
  shows "\<exists>X. (ok \<longrightarrow> X = {}) \<and> tables_ok X c"
  using tables_ok_run [OF assms tables_ok_init] by auto

lemma run_wait: "run_from E A (SandboxContext_init clock) True c \<Longrightarrow> wait_ok c"
  by (rule wait_run [OF _ tables_ok_init]) (simp_all add: wait_ok_def SandboxContext_init_def)

lemma run_ok_tables: "run_from E A (SandboxContext_init clock) True c \<Longrightarrow> tables_ok {} c"
  using run_tables by fastforce

text \<open>The environment of the examples: every function does nothing, every delay is 5.\<close>

definition idle_env :: js_env where
  "idle_env = \<lparr>js_body = \<lambda>_ _. ([], None), js_toInt64 = \<lambda>_. 5, js_toString = \<lambda>_. ''reason''\<rparr>"

definition one_timer :: cstate where
  "one_timer = fold (do_act idle_env) [SetTimeout [JFun 7, JOther 0]] (SandboxContext_init (\<lambda>i. 10000000 * int i))"

lemma run_one_timer: "run_from idle_env A (SandboxContext_init (\<lambda>i. 10000000 * int i)) True one_timer"
  if "SetTimeout [JFun 7, JOther 0] \<in> A"
  unfolding one_timer_def by (rule run_script [OF run_start]) (use that in simp)

lemma one_timer_heap: "timer_heap one_timer = [\<lparr>hp_expiry = 5000000, hp_id = 1\<rparr>]"
  and one_timer_wait: "c_wait one_timer = Some 5000000"
  and one_timer_clock: "c_clock one_timer 0 = 10000000"
  and one_timer_entry: "map_find (timer_entries one_timer) 1 =
    Some \<lparr>te_id = 1, te_func = 7, te_expiry = 5000000, te_repeating = False, te_interval_ms = 5, te_cancelled = False\<rparr>"
  by code_simp+

definition fired_timer :: cstate where
  "fired_timer = snd (the (timer_fired idle_env 3 (one_timer\<lparr>c_wait := None\<rparr>)))"

lemma fired_timer_eq: "timer_fired idle_env 3 (one_timer\<lparr>c_wait := None\<rparr>) = Some (Inr (), fired_timer)"
proof -
  have "map_option fst (timer_fired idle_env 3 (one_timer\<lparr>c_wait := None\<rparr>)) = Some (Inr ())" by code_simp
  then show ?thesis by (auto simp: fired_timer_def)
qed

lemma timer_armed_aux:
  assumes "run_from E UNIV (SandboxContext_init clock) True c" and "e \<in> live c"
  shows "\<exists>t. c_wait c = Some t \<and> t \<le> te_expiry e"
proof -
  note t = tables_okD(1) [OF run_ok_tables [OF assms(1)]]
  obtain h where h: "h \<in> set (timer_heap c)" "hp_expiry h = te_expiry e"
    using live_in_heap [OF t assms(2)] by blast
  with timers.top_least [OF tinvD(1) [OF t], of h] run_wait [OF assms(1)] show ?thesis
    by (cases "timer_heap c") (auto simp: wait_ok_def)
qed

text \<open>
  C21. The tables of timers are consistent in every context. The heap is ordered by expiry, no
  timer is in it twice, every heap entry has a table entry with its id and its expiry, and ids are
  below the counter. As long as no timer function has thrown and \<open>stop\<close> was not called, no live
  timer is forgotten: it is in the heap, and a wait is pending that ends no later than its expiry.
\<close>

theorem timer_tables:
  assumes "run_from E UNIV (SandboxContext_init clock) ok c"
  shows "heap_sorted (timer_heap c) \<and> distinct (map hp_id (timer_heap c)) \<and>
    (\<forall>h\<in>set (timer_heap c). \<exists>e. map_find (timer_entries c) (hp_id h) = Some e \<and>
       te_id e = hp_id h \<and> te_expiry e = hp_expiry h) \<and>
    (\<forall>i e. map_find (timer_entries c) i = Some e \<longrightarrow> i < next_timer_id c) \<and>
    (ok \<longrightarrow> (\<forall>e\<in>live c. (\<exists>h\<in>set (timer_heap c). hp_id h = te_id e \<and> hp_expiry h = te_expiry e) \<and>
       (\<exists>t. c_wait c = Some t \<and> t \<le> te_expiry e)))"
proof -
  obtain X where X: "ok \<longrightarrow> X = {}" "tinv X c" using run_tables [OF assms] by (auto simp: tables_ok_def)
  note I = tinvD [OF X(2)]
  have "\<forall>h\<in>set (timer_heap c). \<exists>e. map_find (timer_entries c) (hp_id h) = Some e \<and>
      te_id e = hp_id h \<and> te_expiry e = hp_expiry h" using I(4,5) by meson
  moreover have "ok \<longrightarrow> (\<forall>e\<in>live c. \<exists>h\<in>set (timer_heap c). hp_id h = te_id e \<and> hp_expiry h = te_expiry e)"
    using X live_in_heap by blast
  moreover have "ok \<longrightarrow> (\<forall>e\<in>live c. \<exists>t. c_wait c = Some t \<and> t \<le> te_expiry e)"
    using timer_armed_aux assms by (cases ok) auto
  ultimately show ?thesis using I(1,2,5) by blast
qed

theorem timer_tables_witness:
  "distinct (map hp_id (timer_heap one_timer)) \<and> timer_heap one_timer = [\<lparr>hp_expiry = 5000000, hp_id = 1\<rparr>] \<and>
   (\<exists>t. c_wait one_timer = Some t \<and> t \<le> 5000000)"
proof -
  have "\<lparr>te_id = 1, te_func = 7, te_expiry = 5000000, te_repeating = False, te_interval_ms = 5,
      te_cancelled = False\<rparr> \<in> live one_timer" using one_timer_entry by (auto simp: live_def)
  with timer_tables [OF run_one_timer [OF UNIV_I]] one_timer_heap show ?thesis by fastforce
qed

section \<open>When the wait ends\<close>

text \<open>
  C22. As long as no timer function has thrown before and \<open>stop\<close> was not called: when the handler of
  the wait returns without an error, having read the clock once, it has called only functions of
  timers that were due at that reading; every live timer that was due was called, if no script
  clears timers; none that is left is due; and a wait is pending for exactly the earliest timer that
  is left, if there is one. It makes no difference whether another wait \<open>w\<close> is already pending: so
  this holds also of a handler that was queued already when its wait was cancelled and set anew.
\<close>

theorem timer_handler:
  assumes "run_from E UNIV (SandboxContext_init clock) True c"
    and "timer_fired E n (c\<lparr>c_wait := w\<rparr>) = Some (Inr (), c')"
  shows "(\<exists>fs. c_called c' = c_called c @ fs \<and> (\<forall>f\<in>set fs. fi_expiry f \<le> c_clock c 0) \<and>
      (bodies_in E no_clear \<longrightarrow>
         (\<forall>e\<in>live c. te_expiry e \<le> c_clock c 0 \<longrightarrow> (\<exists>f\<in>set fs. fi_id f = te_id e)))) \<and>
    (\<forall>e\<in>live c'. c_clock c 0 < te_expiry e) \<and>
    (case c_wait c' of
       None \<Rightarrow> live c' = {}
     | Some t \<Rightarrow> (\<exists>e\<in>live c'. te_expiry e = t) \<and> (\<forall>e\<in>live c'. t \<le> te_expiry e))"
proof -
  let ?c = "snd (steady_now (c\<lparr>c_wait := w\<rparr>))" and ?now = "c_clock c 0"
  have s: "tables_ok {} ?c"
    using run_ok_tables [OF assms(1)] by (rule tables_ok_cong) (simp_all add: steady_now_def)
  have same: "c_called ?c = c_called c" "timer_entries ?c = timer_entries c" by (simp_all add: steady_now_def)
  from assms(2) obtain c1 where L: "process_loop E n ?now ?c = Some (Inr (), c1)" and c': "c' = armNextTimer c1"
    by (cases rule: timer_fired_cases) simp_all
  have t1: "tinv {} c1" and left: "\<forall>h\<in>set (timer_heap c1). ?now < hp_expiry h"
    using tinv_loop [OF L tables_okD [OF s]] by simp_all
  have live: "live c' = live c1" by (simp add: live_def c')
  obtain fs where fs: "c_called c1 = c_called c @ fs" "\<forall>f\<in>set fs. fi_expiry f \<le> ?now"
    using calls_due [OF L s] same by auto
  have later: "\<forall>e\<in>live c'. ?now < te_expiry e"
    using live_in_heap [OF t1] left live by fastforce
  have "\<exists>f\<in>set fs. fi_id f = te_id e"
    if "bodies_in E no_clear" and e: "e \<in> live c" "te_expiry e \<le> ?now" for e
  proof -
    from e(1) obtain i where i: "entry_of c i = Some e" "\<not> te_cancelled e" by (auto simp: live_def)
    moreover have "te_id e = i"
      using tinvD(5) [OF tables_okD(1) [OF run_ok_tables [OF assms(1)]] i(1)] by simp
    moreover have "e \<notin> live c1" using later live e(2) by force
    ultimately show ?thesis
      using fired_or_same_loop [OF L s that(1)] fs(1) same by (auto simp: fired_or_same_def live_def)
  qed
  moreover have "case c_wait c' of None \<Rightarrow> live c' = {}
    | Some t \<Rightarrow> (\<exists>e\<in>live c'. te_expiry e = t) \<and> (\<forall>e\<in>live c'. t \<le> te_expiry e)"
    using arm_wait [OF t1] unfolding c' [symmetric] live [symmetric] .
  ultimately show ?thesis using fs later by (simp add: c')
qed

theorem timer_handler_witness:
  "(\<exists>fs. c_called fired_timer = c_called one_timer @ fs \<and> (\<forall>f\<in>set fs. fi_expiry f \<le> 10000000)) \<and>
   map fi_func (c_called fired_timer) = [7]"
proof -
  have "map fi_func (c_called fired_timer) = [7]" by code_simp
  then show ?thesis
    using timer_handler [OF run_one_timer [OF UNIV_I] fired_timer_eq] one_timer_clock by auto
qed

text \<open>
  A timer that does not repeat is called at most once in a whole run, by whatever scripts,
  and a called one is never in the heap again.
\<close>

lemma oneshot_once:
  assumes "run_from E UNIV (SandboxContext_init clock) ok c"
  shows "distinct (map fi_id (oneshots c)) \<and>
    (\<forall>f\<in>set (oneshots c). fi_id f \<notin> hp_id ` set (timer_heap c))"
proof -
  have "once (SandboxContext_init clock)" by (simp add: once_def oneshots_def SandboxContext_init_def)
  from onces.run [OF assms bodies_in_UNIV tables_ok_init this] show ?thesis by (simp add: once_def)
qed

lemma run_fired_timer: "run_from idle_env A (SandboxContext_init (\<lambda>i. 10000000 * int i)) True fired_timer"
  if "SetTimeout [JFun 7, JOther 0] \<in> A"
proof -
  have "c_ready one_timer = []" by code_simp
  then have "run_ready idle_env 3 one_timer = Some (Inr 1, fired_timer)"
    using one_timer_wait fired_timer_eq by (simp add: run_ready_def)
  from run_handler [OF run_one_timer [OF that] this] show ?thesis by simp
qed

text \<open>
  Once \<open>cancelTimer\<close> was called for the id of a timer, its function is never called again,
  whatever runs afterwards: neither if it was already due nor if it is a repeating timer that
  cancels itself.
\<close>

lemma cancelled_never_called:
  assumes "run_from E UNIV (SandboxContext_init clock) ok c" and "i < next_timer_id c"
    and "run_from E UNIV (cancelTimer i c) ok' c'"
  shows "filter (\<lambda>f. fi_id f = i) (c_called c') = filter (\<lambda>f. fi_id f = i) (c_called c)"
proof -
  obtain X where "tables_ok X c" using run_tables [OF assms(1)] by blast
  then have "tables_ok X (cancelTimer i c)"
    by (auto simp: tables_ok_def tinv_cancel) (simp add: cancelTimer_def split: option.split)
  moreover have "cancelled_ok i (filter (\<lambda>f. fi_id f = i) (c_called c)) (cancelTimer i c)"
    using assms(2) by (auto simp: cancelled_ok_def cancelTimer_def split: option.split)
  ultimately show ?thesis
    using cancels.run [OF assms(3) bodies_in_UNIV] by (simp add: cancelled_ok_def)
qed

text \<open>
  C23. How often a function is called. A timer that does not repeat is called at most once in a whole
  run, by whatever scripts, and a called one is never in the heap again. Once \<open>cancelTimer\<close> was called
  for the id of a timer, its function is never called again, whatever runs afterwards: neither if it
  was already due nor if it is a repeating timer that cancels itself.
\<close>

theorem timer_calls:
  assumes "run_from E UNIV (SandboxContext_init clock) ok c"
  shows "distinct (map fi_id (oneshots c)) \<and>
    (\<forall>f\<in>set (oneshots c). fi_id f \<notin> hp_id ` set (timer_heap c)) \<and>
    (\<forall>i ok' c'. i < next_timer_id c \<and> run_from E UNIV (cancelTimer i c) ok' c' \<longrightarrow>
       filter (\<lambda>f. fi_id f = i) (c_called c') = filter (\<lambda>f. fi_id f = i) (c_called c))"
  using oneshot_once [OF assms] cancelled_never_called [OF assms] by blast

theorem timer_calls_witness:
  "distinct (map fi_id (oneshots fired_timer)) \<and> map fi_id (oneshots fired_timer) = [1] \<and>
   filter (\<lambda>f. fi_id f = 1) (c_called (cancelTimer 1 fired_timer)) = filter (\<lambda>f. fi_id f = 1) (c_called fired_timer)"
proof -
  have "map fi_id (oneshots fired_timer) = [1]" "1 < next_timer_id fired_timer" by code_simp+
  with timer_calls [OF run_fired_timer [OF UNIV_I]] run_start [of idle_env UNIV "cancelTimer 1 fired_timer"]
  show ?thesis by blast
qed

section \<open>When the loop over expired timers ends\<close>

text \<open>
  C24. When delays are not negative, intervals are positive and the clock moves on, the loop over
  expired timers returns: there are at most as many calls as there were due entries in the heap,
  each is for one of those, and the functions are called in the order of their expiries.
\<close>

theorem due_timers_in_order:
  assumes "run_from E UNIV (SandboxContext_init clock) ok c" and "bodies_in E (paced_acts E)"
    and "\<forall>i. c_clock c 0 < c_clock c (Suc i)"
    and "\<forall>i e. map_find (timer_entries c) i = Some e \<longrightarrow> te_repeating e \<longrightarrow> 0 < te_interval_ms e"
    and "size (due (c_clock c 0) c) < n"
  shows "\<exists>r c' fs. processExpiredTimers E n c = Some (r, c') \<and> c_called c' = c_called c @ fs \<and>
    sorted (map fi_expiry fs) \<and> length fs \<le> size (due (c_clock c 0) c) \<and>
    (\<forall>f\<in>set fs. \<exists>h\<in>#due (c_clock c 0) c. fi_expiry f = hp_expiry h)"
proof -
  obtain X where "tables_ok X c" using run_tables [OF assms(1)] by blast
  then have t: "tables_ok X (snd (steady_now c))"
    by (rule tables_ok_cong) (simp_all add: steady_now_def)
  have d: "due (c_clock c 0) (snd (steady_now c)) = due (c_clock c 0) c"
    "c_called (snd (steady_now c)) = c_called c" by (simp_all add: due_def steady_now_def)
  have "paced (c_clock c 0) (due (c_clock c 0) (snd (steady_now c))) (snd (steady_now c))"
    using assms(3,4) by (simp add: paced_def steady_now_def)
  from loop_returns [OF t assms(2) this, of n] assms(5) show ?thesis
    by (simp add: d processExpiredTimers_def) (simp add: steady_now_def)
qed

theorem due_timers_in_order_witness:
  "\<exists>r c' fs. processExpiredTimers idle_env 2 one_timer = Some (r, c') \<and> c_called c' = c_called one_timer @ fs \<and>
    length fs \<le> 1"
proof -
  have clock: "c_clock one_timer = (\<lambda>i. 10000000 * int (Suc i))"
    by (rule ext) (simp add: one_timer_def SandboxContext_init_def js_setTimeout_def js_setTimer_def
        scheduleTimer_eq)
  have es: "timer_entries one_timer = [(1, \<lparr>te_id = 1, te_func = 7, te_expiry = 5000000, te_repeating = False,
      te_interval_ms = 5, te_cancelled = False\<rparr>)]" by code_simp
  have "size (due (c_clock one_timer 0) one_timer) = 1" by (simp add: due_def one_timer_heap clock)
  moreover have "bodies_in idle_env (paced_acts idle_env)" by (simp add: bodies_in_def idle_env_def)
  moreover have "\<forall>i e. map_find (timer_entries one_timer) i = Some e \<longrightarrow> te_repeating e \<longrightarrow> 0 < te_interval_ms e"
    by (simp add: es)
  ultimately show ?thesis
    using due_timers_in_order [OF run_one_timer [OF UNIV_I], of 2] unfolding clock by fastforce
qed

text \<open>
  With an interval that is not positive the loop does not return: the timer is put back with
  an expiry that is due again, before the loop looks for the next one. \<open>setInterval(f, 0)\<close> hangs
  the context in its first turn.
\<close>

lemma interval_not_positive_hangs:
  assumes "\<forall>c. js_body E f c = ([], None)" and "js_toInt64 E a \<le> 0" and "clock 0 \<le> clock 1"
  shows "run_one E n (do_act E (SetInterval [JFun f, a]) (SandboxContext_init clock)) = None"
proof -
  define c where "c = do_act E (SetInterval [JFun f, a]) (SandboxContext_init clock)"
  have c: "c = armNextTimer (scheduled f (js_toInt64 E a) True (SandboxContext_init clock))"
    by (simp add: c_def js_setInterval_def js_setTimer_def scheduleTimer_eq SandboxContext_init_def heap_push_def)
  have "c_ready c = []" "\<not> c_stopped c" "c_wait c \<noteq> None" "c_clock c 0 = clock 1"
    by (simp_all add: c) (simp_all add: armNextTimer_def scheduled_def SandboxContext_init_def
        JS_DupValue_def heap_push_def abort_wait_def dead_or_cancelled_def Let_def new_entry_def)
  moreover have "clock 0 + milliseconds (js_toInt64 E a) \<le> clock 1"
    using assms(2,3) milliseconds_sign(3) [of "js_toInt64 E a"] by linarith
  then have "spins E (clock 1) (snd (steady_now (c\<lparr>c_wait := None\<rparr>)))"
    using assms by (simp add: c steady_now_def spins_def SandboxContext_init_def heap_push_def
        dead_or_cancelled_def)
  ultimately have "run_one E n c = None"
    using spins_forever [of E "clock 1" _ n]
    by (auto simp: run_one_def run_ready_def timer_fired_def processExpiredTimers_def steady_now_def split: option.split)
  then show ?thesis by (simp add: c_def)
qed

lemma interval_zero_hangs:
  "run_one (idle_env\<lparr>js_toInt64 := \<lambda>_. 0\<rparr>) 100
     (do_act (idle_env\<lparr>js_toInt64 := \<lambda>_. 0\<rparr>) (SetInterval [JFun 7, JOther 0]) (SandboxContext_init int)) = None"
  by (rule interval_not_positive_hangs) (simp_all add: idle_env_def)

end
