(* ===== verification/TimerSpec.thy ===== *)
theory TimerSpec
  imports EventProps
begin

text \<open>
  What \<open>setTimeout\<close>, \<open>setInterval\<close> and their counterparts promise, as a machine without heap, flags
  and asio: a map from ids to timers, a clock, and turns in which timers are called one after the
  other, the earliest first. Every run of a context refines it, call by call.
\<close>

section \<open>The timer service\<close>

record service_timer =
  sv_func :: jsval
  sv_due :: int
  sv_repeating :: bool
  sv_interval :: int

text \<open>\<open>sv_turn\<close> is the reading of the clock that a turn goes by; \<open>sv_running\<close> the timer being called.\<close>

record service =
  sv_next :: int
  sv_timers :: "int \<rightharpoonup> service_timer"
  sv_clock :: "nat \<Rightarrow> int"
  sv_turn :: "int option"
  sv_running :: "int option"

definition service_start :: "(nat \<Rightarrow> int) \<Rightarrow> service" where
  "service_start clock = \<lparr>sv_next = 1, sv_timers = Map.empty, sv_clock = clock, sv_turn = None, sv_running = None\<rparr>"

text \<open>
  What the service may be asked for: \<open>S\<close> holds the timers (function, delay, repeating) that the scripts
  set, \<open>C\<close> the ids that they clear.
\<close>

definition allowed :: "js_env \<Rightarrow> (jsval \<times> int \<times> bool) set \<Rightarrow> int set \<Rightarrow> js_act \<Rightarrow> bool" where
  "allowed E S C a \<longleftrightarrow> (\<forall>t. sched_of E a = Some t \<longrightarrow> t \<in> S) \<and> (\<forall>i. clear_of E a = Some i \<longrightarrow> i \<in> C)"

abbreviation asks :: "js_env \<Rightarrow> (jsval \<times> int \<times> bool) set \<Rightarrow> int set \<Rightarrow> js_act set" where
  "asks E S C \<equiv> {a. allowed E S C a}"

text \<open>A repeating timer that is late skips what it missed.\<close>

definition next_due :: "int \<Rightarrow> service_timer \<Rightarrow> int" where
  "next_due now t =
     (let d = sv_due t + milliseconds (sv_interval t)
      in if d \<le> now then now + milliseconds (sv_interval t) else d)"

definition returned :: "int \<Rightarrow> int \<Rightarrow> (int \<rightharpoonup> service_timer) \<Rightarrow> int \<rightharpoonup> service_timer" where
  "returned now i ts =
     (case ts i of
        None \<Rightarrow> ts
      | Some t \<Rightarrow> if sv_repeating t then ts(i \<mapsto> t\<lparr>sv_due := next_due now t\<rparr>) else ts(i := None))"

inductive service_step :: "(jsval \<times> int \<times> bool) set \<Rightarrow> int set \<Rightarrow> service \<Rightarrow> firing option \<Rightarrow> service \<Rightarrow> bool"
  for S :: "(jsval \<times> int \<times> bool) set" and C :: "int set" where
  set_timer: "(f, ms, rep) \<in> S \<Longrightarrow> service_step S C s None (s\<lparr>sv_next := sv_next s + 1, sv_clock := (\<lambda>k. sv_clock s (Suc k)),
      sv_timers := (sv_timers s)(sv_next s \<mapsto>
        \<lparr>sv_func = f, sv_due = sv_clock s 0 + milliseconds ms, sv_repeating = rep, sv_interval = ms\<rparr>)\<rparr>)"
| clear_timer: "i \<in> C \<Longrightarrow> service_step S C s None (s\<lparr>sv_timers := (sv_timers s)(i := None)\<rparr>)"
| begin_turn: "sv_turn s = None \<Longrightarrow>
    service_step S C s None (s\<lparr>sv_turn := Some (sv_clock s 0), sv_clock := (\<lambda>k. sv_clock s (Suc k))\<rparr>)"
| call_timer: "sv_turn s = Some now \<Longrightarrow> sv_running s = None \<Longrightarrow> sv_timers s i = Some t \<Longrightarrow> sv_due t \<le> now \<Longrightarrow>
    (\<And>j u. sv_timers s j = Some u \<Longrightarrow> sv_due t \<le> sv_due u) \<Longrightarrow>
    service_step S C s (Some \<lparr>fi_id = i, fi_expiry = sv_due t, fi_repeating = sv_repeating t, fi_func = sv_func t\<rparr>)
      (s\<lparr>sv_running := Some i\<rparr>)"
| call_returns: "sv_turn s = Some now \<Longrightarrow> sv_running s = Some i \<Longrightarrow>
    service_step S C s None (s\<lparr>sv_running := None, sv_timers := returned now i (sv_timers s)\<rparr>)"
| call_throws: "sv_running s = Some i \<Longrightarrow>
    service_step S C s None (s\<lparr>sv_running := None, sv_turn := None, sv_timers := (sv_timers s)(i := None)\<rparr>)"
| end_turn: "sv_turn s = Some now \<Longrightarrow> sv_running s = None \<Longrightarrow>
    (\<And>j u. sv_timers s j = Some u \<Longrightarrow> now < sv_due u) \<Longrightarrow> service_step S C s None (s\<lparr>sv_turn := None\<rparr>)"

text \<open>The calls of a run are what is observed of it.\<close>

inductive service_run :: "(jsval \<times> int \<times> bool) set \<Rightarrow> int set \<Rightarrow> service \<Rightarrow> firing list \<Rightarrow> service \<Rightarrow> bool"
  for S :: "(jsval \<times> int \<times> bool) set" and C :: "int set" and s :: service where
  no_step: "service_run S C s [] s"
| silent: "service_run S C s fs s1 \<Longrightarrow> service_step S C s1 None s2 \<Longrightarrow> service_run S C s fs s2"
| calls: "service_run S C s fs s1 \<Longrightarrow> service_step S C s1 (Some f) s2 \<Longrightarrow> service_run S C s (fs @ [f]) s2"

lemma service_run_trans:
  assumes "service_run S C s2 gs s3" and "service_run S C s1 fs s2"
  shows "service_run S C s1 (fs @ gs) s3"
  using assms(1)
proof (induction rule: service_run.induct)
  case (calls gs s3 f s4)
  then have "service_run S C s1 ((fs @ gs) @ [f]) s4" by (blast intro: service_run.calls)
  then show ?case by simp
qed (use assms(2) in \<open>auto intro: service_run.silent\<close>)

lemma service_run_step: "service_step S C s None s' \<Longrightarrow> service_run S C s [] s'"
  by (blast intro: no_step silent)

section \<open>The service that a context provides\<close>

text \<open>
  A timer of the service is an entry that is not cancelled. \<open>L\<close> are those whose function has thrown:
  they stay in the table and are never called again.
\<close>

definition timer_of :: "timer_entry \<Rightarrow> service_timer" where
  "timer_of e = \<lparr>sv_func = te_func e, sv_due = te_expiry e, sv_repeating = te_repeating e, sv_interval = te_interval_ms e\<rparr>"

lemma timer_of_simps [simp]: "sv_func (timer_of e) = te_func e" "sv_due (timer_of e) = te_expiry e"
  "sv_repeating (timer_of e) = te_repeating e" "sv_interval (timer_of e) = te_interval_ms e"
  by (simp_all add: timer_of_def)

definition timers_of :: "int set \<Rightarrow> cstate \<Rightarrow> int \<rightharpoonup> service_timer" where
  "timers_of L c i =
     (case entry_of c i of None \<Rightarrow> None | Some e \<Rightarrow> if te_cancelled e \<or> i \<in> L then None else Some (timer_of e))"

definition service_of :: "int set \<Rightarrow> int option \<Rightarrow> int option \<Rightarrow> cstate \<Rightarrow> service" where
  "service_of L turn running c =
     \<lparr>sv_next = next_timer_id c, sv_timers = timers_of L c, sv_clock = c_clock c, sv_turn = turn, sv_running = running\<rparr>"

lemma service_of_cong:
  "timer_entries c' = timer_entries c \<Longrightarrow> next_timer_id c' = next_timer_id c \<Longrightarrow> c_clock c' = c_clock c \<Longrightarrow>
   service_of L t r c' = service_of L t r c"
  by (simp add: service_of_def timers_of_def fun_eq_iff)

section \<open>Scripts\<close>

lemma schedule_refines:
  assumes "tables_ok X c" and "L \<subseteq> X" and "(f, ms, rep) \<in> S"
  shows "service_step S C (service_of L t r c) None (service_of L t r (snd (scheduleTimer f ms rep c)))"
proof -
  have n: "next_timer_id c \<notin> L" using assms by (auto simp: tables_ok_def)
  have "timers_of L (snd (scheduleTimer f ms rep c)) = (timers_of L c)(next_timer_id c \<mapsto>
      \<lparr>sv_func = f, sv_due = c_clock c 0 + milliseconds ms, sv_repeating = rep, sv_interval = ms\<rparr>)"
    using n by (auto simp: fun_eq_iff timers_of_def scheduleTimer_eq timer_of_def new_entry_def)
  then have "service_of L t r (snd (scheduleTimer f ms rep c)) =
      (service_of L t r c)\<lparr>sv_next := sv_next (service_of L t r c) + 1,
        sv_clock := (\<lambda>k. sv_clock (service_of L t r c) (Suc k)),
        sv_timers := (sv_timers (service_of L t r c))(sv_next (service_of L t r c) \<mapsto>
          \<lparr>sv_func = f, sv_due = sv_clock (service_of L t r c) 0 + milliseconds ms, sv_repeating = rep, sv_interval = ms\<rparr>)\<rparr>"
    by (simp add: service_of_def scheduleTimer_eq)
  then show ?thesis using set_timer [OF assms(3), of C "service_of L t r c"] by simp
qed

lemma cancel_refines:
  assumes "i \<in> C"
  shows "service_step S C (service_of L t r c) None (service_of L t r (cancelTimer i c))"
proof -
  have "timers_of L (cancelTimer i c) = (timers_of L c)(i := None)"
    by (auto simp: fun_eq_iff timers_of_def cancelTimer_def split: option.split)
  moreover have "c_clock (cancelTimer i c) = c_clock c" "next_timer_id (cancelTimer i c) = next_timer_id c"
    by (simp_all add: cancelTimer_def split: option.split)
  ultimately have "service_of L t r (cancelTimer i c) =
      (service_of L t r c)\<lparr>sv_timers := (sv_timers (service_of L t r c))(i := None)\<rparr>"
    by (simp add: service_of_def)
  then show ?thesis using clear_timer [OF assms, of S "service_of L t r c"] by simp
qed

lemma act_refines:
  assumes "tables_ok X c" and "L \<subseteq> X" and "allowed E S C a"
  shows "service_run S C (service_of L t r c) [] (service_of L t r (do_act E a c))"
proof (rule do_act_rule)
  show "service_run S C (service_of L t r c) [] (service_of L t r (snd (scheduleTimer f ms rep c)))"
    if "sched_of E a = Some (f, ms, rep)" for f ms rep
    by (rule service_run_step [OF schedule_refines [OF assms(1,2)]]) (use assms(3) that in \<open>simp add: allowed_def\<close>)
  show "service_run S C (service_of L t r c) [] (service_of L t r (cancelTimer i c))" if "clear_of E a = Some i" for i
    by (rule service_run_step [OF cancel_refines]) (use assms(3) that in \<open>simp add: allowed_def\<close>)
next
  have same: "service_run S C (service_of L t r c) [] (service_of L t r c')"
    if "timer_entries c' = timer_entries c" "next_timer_id c' = next_timer_id c" "c_clock c' = c_clock c" for c'
    using service_of_cong [OF that] no_step by simp
  show "service_run S C (service_of L t r c) [] (service_of L t r c)" by (rule no_step)
  show "service_run S C (service_of L t r c) [] (service_of L t r (promiseRejectionTracker p v False c))" for p v
    by (rule same) simp_all
  show "service_run S C (service_of L t r c) [] (service_of L t r (promiseRejectionTracker p 0 True c))" for p
    by (rule same) simp_all
  show "service_run S C (service_of L t r c) [] (service_of L t r (c\<lparr>c_jobs := js\<rparr>))" for js
    by (rule same) simp_all
qed

lemma script_refines:
  assumes "tables_ok X c" and "L \<subseteq> X" and "set as \<subseteq> asks E S C"
  shows "service_run S C (service_of L t r c) [] (service_of L t r (fold (do_act E) as c))"
  using assms(1,3)
proof (induction as arbitrary: c)
  case (Cons a as)
  have "tables_ok X (do_act E a c)" using tables_ok_script [OF Cons.prems(1), of E "[a]"] by simp
  from service_run_trans [OF Cons.IH [OF this] act_refines [OF Cons.prems(1) assms(2)]] Cons.prems(2) show ?case by simp
qed (simp add: no_step)

lemma script_called: "tinv X c \<Longrightarrow> \<forall>i\<in>X. i < next_timer_id c \<Longrightarrow> c_called (fold (do_act E) as c) = c_called c"
  using tinv_script [of X c E as] by (simp add: keeps_def)

section \<open>A round of the loop\<close>

text \<open>\<open>refines\<close>: the calls from one state to another are those of a run of the service.\<close>

definition refines :: "(jsval \<times> int \<times> bool) set \<Rightarrow> int set \<Rightarrow> service \<Rightarrow> service \<Rightarrow> cstate \<Rightarrow> cstate \<Rightarrow> bool" where
  "refines S C s s' c c' \<longleftrightarrow> (\<exists>fs. c_called c' = c_called c @ fs \<and> service_run S C s fs s')"

lemma refines_trans: "refines S C s1 s2 c1 c2 \<Longrightarrow> refines S C s2 s3 c2 c3 \<Longrightarrow> refines S C s1 s3 c1 c3"
  by (auto simp: refines_def intro: service_run_trans)

lemma refines_silent: "c_called c' = c_called c \<Longrightarrow> service_run S C s [] s' \<Longrightarrow> refines S C s s' c c'"
  by (auto simp: refines_def)

lemma timers_of_Some:
  "timers_of L c i = Some t \<Longrightarrow> \<exists>e. entry_of c i = Some e \<and> \<not> te_cancelled e \<and> i \<notin> L \<and> t = timer_of e"
  by (auto simp: timers_of_def split: option.splits if_splits)

lemma top_earliest:
  assumes "tinv L c" and "timer_heap c = tp # rest" and "timers_of L c j = Some u"
  shows "hp_expiry tp \<le> sv_due u"
proof -
  from timers_of_Some [OF assms(3)] obtain e where e: "entry_of c j = Some e" "\<not> te_cancelled e" "j \<notin> L" "u = timer_of e"
    by blast
  with tinvD(5) [OF assms(1) e(1)] obtain h where h: "h \<in> set (timer_heap c)" "hp_id h = j" by auto
  with tinvD(4) [OF assms(1) h(1)] e have "hp_expiry h = sv_due u" by simp
  with timers.top_least [OF tinvD(1) [OF assms(1)], of h] h(1) assms(2) show ?thesis by simp
qed

lemma begin_call:
  assumes "tinv L c" and "timer_heap c = tp # rest" and "entry_of c (hp_id tp) = Some e" and "\<not> te_cancelled e"
    and "te_expiry e = hp_expiry tp" and "hp_expiry tp \<le> now"
  shows "service_step S C (service_of L (Some now) None c) (Some (fire_of e)) (service_of L (Some now) (Some (hp_id tp)) c)"
proof -
  have "hp_id tp \<notin> L" "te_id e = hp_id tp" using tinvD(4) [OF assms(1), of tp] tinvD(5) [OF assms(1,3)] assms(2) by auto
  then have t: "timers_of L c (hp_id tp) = Some (timer_of e)" using assms(3,4) by (simp add: timers_of_def)
  have "service_step S C (service_of L (Some now) None c)
      (Some \<lparr>fi_id = hp_id tp, fi_expiry = sv_due (timer_of e), fi_repeating = sv_repeating (timer_of e),
             fi_func = sv_func (timer_of e)\<rparr>)
      ((service_of L (Some now) None c)\<lparr>sv_running := Some (hp_id tp)\<rparr>)"
    by (rule call_timer [of _ now]) (use t assms(5,6) top_earliest [OF assms(1,2)] in \<open>auto simp: service_of_def\<close>)
  then show ?thesis using \<open>te_id e = hp_id tp\<close> by (simp add: service_of_def)
qed

text \<open>The call itself: the function starts, and its script runs.\<close>

lemma call_refines:
  assumes "bodies_in E (asks E S C)" and "tables_ok L c" and "timer_heap c = tp # rest" and "entry_of c (hp_id tp) = Some e" and "\<not> te_cancelled e"
    and "te_expiry e = hp_expiry tp" and "hp_expiry tp \<le> now" and "JS_Call E e (c\<lparr>timer_heap := rest\<rparr>) = (exc, c1)"
  shows "refines S C (service_of L (Some now) None c) (service_of L (Some now) (Some (hp_id tp)) c1) c c1"
proof -
  note t = tables_okD [OF assms(2)]
  let ?r = "c\<lparr>timer_heap := rest, c_called := c_called c @ [fire_of e]\<rparr>" and ?X = "insert (hp_id tp) L"
  have c1: "c1 = fold (do_act E) (fst (js_body E (te_func e) (c\<lparr>timer_heap := rest\<rparr>))) ?r"
    using assms(8) by (simp add: JS_Call_eq)
  have "tinv ?X (c\<lparr>timer_heap := rest\<rparr>)" using tinv_pop [OF t(1) assms(3)] .
  then have ok: "tables_ok ?X ?r"
    using t(2) heap_id_lt [OF t(1), of tp] assms(3) by (simp add: tables_ok_def tinv_def)
  have "service_run S C (service_of L (Some now) None c) [fire_of e] (service_of L (Some now) (Some (hp_id tp)) c)"
    using service_run.calls [OF no_step begin_call [OF t(1) assms(3-7)]] by simp
  moreover have "service_run S C (service_of L (Some now) (Some (hp_id tp)) c) [] (service_of L (Some now) (Some (hp_id tp)) c1)"
    using script_refines [OF ok subset_insertI, of _ E S C "Some now" "Some (hp_id tp)"] c1 assms(1)
      service_of_cong [of ?r c L "Some now" "Some (hp_id tp)"] by (simp add: bodies_in_def)
  ultimately have "service_run S C (service_of L (Some now) None c) ([fire_of e] @ []) (service_of L (Some now) (Some (hp_id tp)) c1)"
    by (rule service_run_trans [rotated])
  moreover have "c_called c1 = c_called c @ [fire_of e]"
    using script_called [OF tables_okD [OF ok]] c1 by simp
  ultimately show ?thesis by (auto simp: refines_def)
qed

lemma return_refines:
  assumes "tinv (insert i L) c" and "entry_of c i = Some e" and "i \<notin> L"
  shows "service_step S C (service_of L (Some now) (Some i) c) None (service_of L (Some now) None (after_call now i e c))"
proof -
  have i: "te_id e = i" using tinvD(5) [OF assms(1,2)] by simp
  note er = map_find_erase [OF tinvD(3) [OF assms(1)], of i]
  have "timers_of L (after_call now i e c) = returned now i (timers_of L c)"
    using assms(2,3) i
    by (auto simp: fun_eq_iff timers_of_def returned_def after_call_def Let_def er timer_of_def next_due_def
        split: option.split)
  then have "service_of L (Some now) None (after_call now i e c) =
      (service_of L (Some now) (Some i) c)\<lparr>sv_running := None, sv_timers := returned now i (sv_timers (service_of L (Some now) (Some i) c))\<rparr>"
    by (simp add: service_of_def)
  then show ?thesis using call_returns [of "service_of L (Some now) (Some i) c" now i] by (simp add: service_of_def)
qed

section \<open>A turn\<close>

lemma end_refines:
  assumes "tinv L c" and "\<forall>h\<in>set (timer_heap c). now < hp_expiry h"
  shows "service_step S C (service_of L (Some now) None c) None (service_of L None None c)"
proof -
  have "now < sv_due u" if "timers_of L c j = Some u" for j u
  proof -
    from timers_of_Some [OF that] obtain e where e: "entry_of c j = Some e" "\<not> te_cancelled e" "j \<notin> L" "u = timer_of e"
      by blast
    with tinvD(5) [OF assms(1) e(1)] obtain h where h: "h \<in> set (timer_heap c)" "hp_id h = j" by auto
    with tinvD(4) [OF assms(1) h(1)] e assms(2) show ?thesis by auto
  qed
  then show ?thesis using end_turn [of "service_of L (Some now) None c" now] by (simp add: service_of_def)
qed

lemma drop_refines:
  assumes "tinv L c" and "entry_of c i = Some e" and "te_cancelled e"
  shows "service_of L t r (erase_entry i e (c\<lparr>timer_heap := rest\<rparr>)) = service_of L t r c"
proof -
  note er = map_find_erase [OF tinvD(3) [OF assms(1)], of i]
  have "timers_of L (erase_entry i e (c\<lparr>timer_heap := rest\<rparr>)) = timers_of L c"
    using assms(2,3) by (auto simp: fun_eq_iff timers_of_def er split: option.split)
  then show ?thesis by (simp add: service_of_def)
qed

lemma throw_refines: "service_step S C (service_of L (Some now) (Some i) c) None (service_of (insert i L) None None c)"
proof -
  have "timers_of (insert i L) c = (timers_of L c)(i := None)"
    by (auto simp: fun_eq_iff timers_of_def split: option.split)
  then show ?thesis using call_throws [of "service_of L (Some now) (Some i) c" i] by (simp add: service_of_def)
qed

text \<open>The same of one round of the loop, for each of its results.\<close>

definition turn_refines :: "(jsval \<times> int \<times> bool) set \<Rightarrow> int set \<Rightarrow> int set \<Rightarrow> int \<Rightarrow> cstate \<Rightarrow> round_result \<Rightarrow> cstate \<Rightarrow> bool" where
  "turn_refines S C L now c r c' =
     (case r of
        Done \<Rightarrow> tables_ok L c' \<and> refines S C (service_of L (Some now) None c) (service_of L None None c') c c'
      | Again \<Rightarrow> tables_ok L c' \<and> refines S C (service_of L (Some now) None c) (service_of L (Some now) None c') c c'
      | Threw _ \<Rightarrow> \<exists>i. tables_ok (insert i L) c' \<and>
          refines S C (service_of L (Some now) None c) (service_of (insert i L) None None c') c c')"

lemma after_call_called [simp]: "c_called (after_call now i e c) = c_called c"
  by (simp add: after_call_def Let_def)

lemma round_refines:
  assumes "tables_ok L c" and "process_step E now c = (r, c')" and "bodies_in E (asks E S C)"
  shows "turn_refines S C L now c r c'"
proof -
  note t = tables_okD [OF assms(1)]
  note T = tinv_step [OF t assms(2)]
  from t show ?thesis
  proof (cases rule: process_step_cases [of L c E now])
    case finished
    then show ?thesis using assms end_refines [OF t(1), of now]
      by (simp add: turn_refines_def refines_silent service_run_step)
  next
    case (dropped tp rest e)
    then have r: "r = Again" "c' = erase_entry (hp_id tp) e (c\<lparr>timer_heap := rest\<rparr>)" using assms(2) by simp_all
    have "refines S C (service_of L (Some now) None c) (service_of L (Some now) None c') c c'"
      by (rule refines_silent) (simp_all add: r drop_refines [OF t(1) dropped(2,3)] no_step)
    then show ?thesis using T t(2) r by (auto simp: turn_refines_def tables_ok_def)
  next
    case (threw tp rest e exc c1)
    then have r: "r = Threw exc" "c' = c1" using assms(2) by simp_all
    have "hp_id tp < next_timer_id c" "next_timer_id c \<le> next_timer_id c1"
      using heap_id_lt [OF t(1), of tp] threw(1) T r by auto
    then have ok: "tables_ok (insert (hp_id tp) L) c1" using threw(7) t(2) by (auto simp: tables_ok_def)
    have "refines S C (service_of L (Some now) (Some (hp_id tp)) c1) (service_of (insert (hp_id tp) L) None None c1) c1 c1"
      using throw_refines by (simp add: refines_silent service_run_step)
    with call_refines [OF assms(3,1) threw(1-6)]
    have "refines S C (service_of L (Some now) None c) (service_of (insert (hp_id tp) L) None None c1) c c1"
      by (rule refines_trans)
    then show ?thesis using ok r by (auto simp: turn_refines_def)
  next
    case (called tp rest e c1 e1)
    then have r: "r = Again" "c' = after_call now (hp_id tp) e1 c1" using assms(2) by simp_all
    have "refines S C (service_of L (Some now) (Some (hp_id tp)) c1) (service_of L (Some now) None c') c1 c'"
      using return_refines [OF called(7,9,12)] by (simp add: r refines_silent service_run_step)
    with call_refines [OF assms(3,1) called(1-6)]
    have "refines S C (service_of L (Some now) None c) (service_of L (Some now) None c') c c'" by (rule refines_trans)
    then show ?thesis using T t(2) r by (auto simp: turn_refines_def tables_ok_def)
  qed
qed

lemma loop_refines:
  "process_loop E n now c = Some (r, c') \<Longrightarrow> tables_ok L c \<Longrightarrow> bodies_in E (asks E S C) \<Longrightarrow>
   turn_refines S C L now c (case r of Inl e \<Rightarrow> Threw e | Inr _ \<Rightarrow> Done) c'"
proof (induction n arbitrary: c)
  case (Suc n)
  obtain r1 c1 where s: "process_step E now c = (r1, c1)" by (cases "process_step E now c")
  note R = round_refines [OF Suc.prems(2) s Suc.prems(3)]
  show ?case
  proof (cases r1)
    case Again
    then have ok: "tables_ok L c1" and
      one: "refines S C (service_of L (Some now) None c) (service_of L (Some now) None c1) c c1"
      using R by (simp_all add: turn_refines_def)
    have "turn_refines S C L now c1 (case r of Inl e \<Rightarrow> Threw e | Inr _ \<Rightarrow> Done) c'"
      using Suc.IH [OF _ ok Suc.prems(3)] Suc.prems(1) s Again by simp
    then show ?thesis
      using refines_trans [OF one] by (auto simp: turn_refines_def split: sum.splits)
  qed (use R Suc.prems(1) s in auto)
qed simp

lemma fired_refines:
  assumes "timer_fired E n c = Some (r, c')" and "tables_ok L c" and "bodies_in E (asks E S C)"
  shows "\<exists>L'. (\<not> isl r \<longrightarrow> L' = L) \<and> tables_ok L' c' \<and> refines S C (service_of L None None c) (service_of L' None None c') c c'"
proof -
  let ?c = "snd (steady_now c)" and ?now = "c_clock c 0"
  have ok: "tables_ok L ?c" using assms(2) by (rule tables_ok_cong) (simp_all add: steady_now_def)
  have same: "timers_of L ?c = timers_of L c" by (simp add: fun_eq_iff timers_of_def steady_now_def)
  have "service_step S C (service_of L None None c) None (service_of L (Some ?now) None ?c)"
    using begin_turn [of "service_of L None None c" S C] same by (simp add: service_of_def steady_now_def)
  then have start: "refines S C (service_of L None None c) (service_of L (Some ?now) None ?c) c ?c"
    by (simp add: refines_silent service_run_step steady_now_def)
  from assms(1) show ?thesis
  proof (cases rule: timer_fired_cases)
    case (threw e)
    with loop_refines [OF threw(1) ok assms(3)] refines_trans [OF start] show ?thesis
      by (auto simp: turn_refines_def)
  next
    case (fired c1)
    with loop_refines [OF fired(1) ok assms(3)]
    have one: "tables_ok L c1" "refines S C (service_of L (Some ?now) None ?c) (service_of L None None c1) ?c c1"
      by (auto simp: turn_refines_def)
    have "service_of L None None (armNextTimer c1) = service_of L None None c1"
      by (rule service_of_cong) simp_all
    with refines_trans [OF start one(2)]
    have "refines S C (service_of L None None c) (service_of L None None c') c c'"
      by (simp add: fired(3) refines_def)
    then show ?thesis using one(1) fired(2,3) by (auto simp: tables_ok_arm)
  qed
qed

section \<open>Runs\<close>

lemma drain_refines:
  "drainMicrotasks E n c = Some (r, c') \<Longrightarrow> tables_ok L c \<Longrightarrow> bodies_in E (asks E S C) \<Longrightarrow>
   refines S C (service_of L None None c) (service_of L None None c') c c'"
proof (induction n arbitrary: c)
  case (Suc n)
  show ?case
  proof (cases "c_jobs c")
    case Nil
    then show ?thesis using Suc.prems by (simp add: refines_def no_step)
  next
    case (Cons j js)
    let ?c = "c\<lparr>c_jobs := js\<rparr>" and ?as = "fst (js_body E j c)"
    have ok: "tables_ok L ?c" using Suc.prems(2) by (rule tables_ok_cong) simp_all
    have "service_of L None None ?c = service_of L None None c" by (rule service_of_cong) simp_all
    with script_refines [OF ok subset_refl, of ?as E S C None None] Suc.prems(3) script_called [OF tables_okD [OF ok], of E ?as]
    have one: "refines S C (service_of L None None c) (service_of L None None (fold (do_act E) ?as ?c)) c (fold (do_act E) ?as ?c)"
      by (simp add: refines_silent bodies_in_def)
    show ?thesis
    proof (cases "snd (js_body E j c)")
      case None
      with Suc.prems(1) Cons have "drainMicrotasks E n (fold (do_act E) ?as ?c) = Some (r, c')"
        by (simp add: Let_def case_prod_unfold)
      from refines_trans [OF one Suc.IH [OF this tables_ok_script [OF ok] Suc.prems(3)]] show ?thesis .
    qed (use one Suc.prems(1) Cons in \<open>simp add: Let_def case_prod_unfold\<close>)
  qed
qed simp

lemma run_refines:
  assumes "run_from E (asks E S C) c0 ok c" and "bodies_in E (asks E S C)" and "tables_ok {} c0"
  shows "\<exists>L. (ok \<longrightarrow> L = {}) \<and> tables_ok L c \<and> refines S C (service_of {} None None c0) (service_of L None None c) c0 c"
  using assms(1)
proof (induction rule: run_from.induct)
  case run_start
  then show ?case using assms(3) by (auto simp: refines_def no_step)
next
  case (run_script ok c as)
  then obtain L where L: "ok \<longrightarrow> L = {}" "tables_ok L c" "refines S C (service_of {} None None c0) (service_of L None None c) c0 c"
    by blast
  have "refines S C (service_of L None None c) (service_of L None None (fold (do_act E) as c)) c (fold (do_act E) as c)"
    using script_refines [OF L(2) subset_refl run_script.hyps(2)] script_called [OF tables_okD [OF L(2)]] by (simp add: refines_silent)
  from refines_trans [OF L(3) this] tables_ok_script [OF L(2)] L(1) show ?case by auto
next
  case (run_drain ok c n r c')
  then obtain L where L: "ok \<longrightarrow> L = {}" "tables_ok L c" "refines S C (service_of {} None None c0) (service_of L None None c) c0 c"
    by blast
  note d = run_drain.hyps(2)
  from refines_trans [OF L(3) drain_refines [OF d L(2) assms(2)]] tables_ok_drain [OF d L(2)] L(1) show ?case by auto
next
  case (run_check ok c r c')
  then obtain L where L: "ok \<longrightarrow> L = {}" "tables_ok L c" "refines S C (service_of {} None None c0) (service_of L None None c) c0 c"
    by blast
  note simps = check_simps [OF run_check.hyps(2)]
  have "service_of L None None c' = service_of L None None c" by (rule service_of_cong) (simp_all add: simps)
  moreover have "tables_ok L c'" using L(2) by (rule tables_ok_cong) (simp_all add: simps)
  ultimately show ?case using L by (auto simp: refines_def simps)
next
  case (run_stop ok c)
  then obtain L where L: "tables_ok L c" "refines S C (service_of {} None None c0) (service_of L None None c) c0 c" by blast
  have "service_of L None None (stop c) = service_of L None None c"
    by (rule service_of_cong) (simp_all add: stop_def Let_def)
  moreover have "tables_ok L (stop c)" using L(1) by (rule tables_ok_cong) (simp_all add: stop_def Let_def)
  moreover have "c_called (stop c) = c_called c" by (simp add: stop_def Let_def)
  ultimately show ?case using L by (auto simp: refines_def)
next
  case (run_job ok c js)
  then obtain L where L: "ok \<longrightarrow> L = {}" "tables_ok L c" "refines S C (service_of {} None None c0) (service_of L None None c) c0 c"
    by blast
  have "service_of L None None (c\<lparr>c_jobs := js\<rparr>) = service_of L None None c" by (rule service_of_cong) simp_all
  moreover have "tables_ok L (c\<lparr>c_jobs := js\<rparr>)" using L(2) by (rule tables_ok_cong) simp_all
  ultimately show ?case using L by (auto simp: refines_def)
next
  case (run_fatal ok c e)
  then obtain L where L: "ok \<longrightarrow> L = {}" "tables_ok L c" "refines S C (service_of {} None None c0) (service_of L None None c) c0 c"
    by blast
  have "service_of L None None (reportFatal e c) = service_of L None None c" by (rule service_of_cong) (simp_all add: reportFatal_def)
  moreover have "tables_ok L (reportFatal e c)" using L(2) by (rule tables_ok_cong) (simp_all add: reportFatal_def)
  ultimately show ?case using L by (auto simp: refines_def reportFatal_def)
next
  case (run_stopped ok c)
  then obtain L where L: "ok \<longrightarrow> L = {}" "tables_ok L c" "refines S C (service_of {} None None c0) (service_of L None None c) c0 c"
    by blast
  have "service_of L None None (c\<lparr>c_stopped := True\<rparr>) = service_of L None None c" by (rule service_of_cong) simp_all
  moreover have "tables_ok L (c\<lparr>c_stopped := True\<rparr>)" using L(2) by (rule tables_ok_cong) simp_all
  ultimately show ?case using L by (auto simp: refines_def)
next
  case (run_handler ok c n r c')
  then obtain L where L: "ok \<longrightarrow> L = {}" "tables_ok L c" "refines S C (service_of {} None None c0) (service_of L None None c) c0 c"
    by blast
  have same: "service_of L None None c' = service_of L None None c \<and> tables_ok L c'"
    if "timer_entries c' = timer_entries c" "timer_heap c' = timer_heap c" "next_timer_id c' = next_timer_id c"
      "c_clock c' = c_clock c" for c'
    using service_of_cong [OF that(1,3,4)] tables_ok_cong [OF L(2) that(2,1,3)] by simp
  from run_handler.hyps(2) show ?case
  proof (cases rule: run_ready_cases)
    case (ready h hs)
    then show ?thesis using L same [of c'] by (auto simp: refines_def)
  next
    case idle
    then show ?thesis using L by auto
  next
    case (timer t r1)
    have w: "tables_ok L (c\<lparr>c_wait := None\<rparr>)" "service_of L None None (c\<lparr>c_wait := None\<rparr>) = service_of L None None c"
      using same [of "c\<lparr>c_wait := None\<rparr>"] by simp_all
    from fired_refines [OF timer(2) w(1) assms(2)] obtain L' where L': "\<not> isl r1 \<longrightarrow> L' = L" "tables_ok L' c'"
      "refines S C (service_of L None None c) (service_of L' None None c') (c\<lparr>c_wait := None\<rparr>) c'"
      using w(2) by auto
    then have "refines S C (service_of L None None c) (service_of L' None None c') c c'" by (simp add: refines_def)
    from refines_trans [OF L(3) this] L L' timer(3) show ?thesis by auto
  qed
qed

lemma service_of_init: "service_of {} None None (SandboxContext_init clock) = service_start clock"
  by (simp add: service_of_def service_start_def SandboxContext_init_def timers_of_def fun_eq_iff)

text \<open>
  C28. Whatever a context does, the calls of timer functions are those of a run of the timer service,
  an abstract machine that knows a map of timers, a clock and turns: ids are given out in order, a
  timer is due at the clock reading of its creation plus its delay, a function is called only in a
  turn, only when due at the reading that began the turn, only if no other timer is due earlier, one
  at a time and not while it is cleared; a one-shot is gone after its call and a repeating timer is
  moved on by its interval or past what it missed; a turn ends only when nothing is due, or with an
  exception. The timers that the service is asked for are those that scripts ask for. The tables of
  the context are those of the service, less the timers whose function has thrown.
\<close>

theorem timer_service_refined:
  assumes "run_from E (asks E S C) (SandboxContext_init clock) ok c" and "bodies_in E (asks E S C)"
  shows "\<exists>L. (ok \<longrightarrow> L = {}) \<and> service_run S C (service_start clock) (c_called c) (service_of L None None c)"
proof -
  obtain L where "ok \<longrightarrow> L = {}"
    "refines S C (service_of {} None None (SandboxContext_init clock)) (service_of L None None c) (SandboxContext_init clock) c"
    using run_refines [OF assms tables_ok_init] by blast
  moreover have "c_called (SandboxContext_init clock) = []" by (simp add: SandboxContext_init_def)
  ultimately show ?thesis by (auto simp: refines_def service_of_init)
qed

text \<open>The one timer of the example: the service has called it, with 5 milliseconds passed, and has none left.\<close>

theorem timer_service_refined_witness:
  "service_run {(7, 5, False)} {} (service_start (\<lambda>i. 10000000 * int i))
     [\<lparr>fi_id = 1, fi_expiry = 5000000, fi_repeating = False, fi_func = 7\<rparr>] (service_of {} None None fired_timer) \<and>
   timers_of {} fired_timer = Map.empty"
proof -
  have "SetTimeout [JFun 7, JOther 0] \<in> asks idle_env {(7, 5, False)} {}"
    by (simp add: allowed_def sched_of_def clear_of_def idle_env_def)
  then have "run_from idle_env (asks idle_env {(7, 5, False)} {}) (SandboxContext_init (\<lambda>i. 10000000 * int i)) True fired_timer"
    by (rule run_fired_timer)
  moreover have "bodies_in idle_env (asks idle_env {(7, 5, False)} {})" by (simp add: bodies_in_def idle_env_def)
  moreover have "c_called fired_timer = [\<lparr>fi_id = 1, fi_expiry = 5000000, fi_repeating = False, fi_func = 7\<rparr>]"
    by code_simp
  moreover have "timer_entries fired_timer = []" by code_simp
  then have "timers_of {} fired_timer = Map.empty" by (simp add: timers_of_def fun_eq_iff)
  ultimately show ?thesis using timer_service_refined [of idle_env "{(7, 5, False)}" "{}"] by force
qed

end
