(* ===== verification/EventEmitter.thy ===== *)
theory EventEmitter
  imports EventLoop "HOL-Library.AList"
begin

text \<open>
  The listener table of a socket, \<open>EventEmitter\<close> of \<^verbatim>\<open>include/qjsb/event_emitter.hpp\<close>: one
  optional JavaScript function per event, found through a map from names to slots. The
  references that the table holds are counted in a function from values.
\<close>

section \<open>The table\<close>

record emitter =
  name_to_index :: "(string \<times> nat) list"
  slots :: "jsval option list"

type_synonym refs = "jsval \<Rightarrow> int"

definition ref_dup :: "jsval \<Rightarrow> refs \<Rightarrow> refs" where
  "ref_dup v f = f(v := f v + 1)"

definition ref_free :: "jsval \<Rightarrow> refs \<Rightarrow> refs" where
  "ref_free v f = f(v := f v - 1)"

definition EventEmitter_ctor :: "string list \<Rightarrow> emitter" where
  "EventEmitter_ctor names =
     foldl (\<lambda>e s. \<lparr>name_to_index = AList.update s (length (slots e)) (name_to_index e),
                   slots = slots e @ [None]\<rparr>)
       \<lparr>name_to_index = [], slots = []\<rparr> names"

text \<open>The callback is None when it is undefined: then the slot ends up empty.\<close>

definition emitter_on :: "string \<Rightarrow> jsval option \<Rightarrow> emitter \<times> refs \<Rightarrow> (int + unit) \<times> emitter \<times> refs" where
  "emitter_on event callback st =
     (case st of (e, f) \<Rightarrow>
        case map_of (name_to_index e) event of
          None \<Rightarrow> (Inl (-1), e, f)
        | Some i \<Rightarrow>
            let f = (case slots e ! i of None \<Rightarrow> f | Some old \<Rightarrow> ref_free old f);
                f = (case callback of None \<Rightarrow> f | Some v \<Rightarrow> ref_dup v f)
            in (Inr (), e\<lparr>slots := (slots e)[i := callback]\<rparr>, f))"

definition emitter_off :: "string \<Rightarrow> emitter \<times> refs \<Rightarrow> emitter \<times> refs" where
  "emitter_off event st =
     (case st of (e, f) \<Rightarrow>
        case map_of (name_to_index e) event of
          None \<Rightarrow> (e, f)
        | Some i \<Rightarrow>
            (case slots e ! i of
               None \<Rightarrow> (e, f)
             | Some old \<Rightarrow> (e\<lparr>slots := (slots e)[i := None]\<rparr>, ref_free old f)))"

text \<open>The function that \<open>emit\<close> calls, if any.\<close>

definition emitter_listener :: "emitter \<Rightarrow> string \<Rightarrow> jsval option" where
  "emitter_listener e event =
     (case map_of (name_to_index e) event of None \<Rightarrow> None | Some i \<Rightarrow> slots e ! i)"

definition emitter_hasListener :: "emitter \<Rightarrow> string \<Rightarrow> bool" where
  "emitter_hasListener e event =
     (case map_of (name_to_index e) event of None \<Rightarrow> False | Some i \<Rightarrow> slots e ! i \<noteq> None)"

text \<open>The values that \<open>mark\<close> hands to the collector.\<close>

definition emitter_mark :: "emitter \<Rightarrow> jsval list" where
  "emitter_mark e = List.map_filter (\<lambda>s. s) (slots e)"

definition emitter_finalize :: "emitter \<times> refs \<Rightarrow> emitter \<times> refs" where
  "emitter_finalize st =
     (case st of (e, f) \<Rightarrow>
        (e\<lparr>slots := map (\<lambda>_. None) (slots e)\<rparr>,
         foldl (\<lambda>f s. case s of None \<Rightarrow> f | Some v \<Rightarrow> ref_free v f) f (slots e)))"

section \<open>Its invariant\<close>

text \<open>Every name has a slot of its own.\<close>

definition emitter_ok :: "emitter \<Rightarrow> bool" where
  "emitter_ok e \<longleftrightarrow> (\<forall>n i. map_of (name_to_index e) n = Some i \<longrightarrow> i < length (slots e)) \<and>
     (\<forall>n m i. map_of (name_to_index e) n = Some i \<longrightarrow> map_of (name_to_index e) m = Some i \<longrightarrow> n = m)"

lemma emitter_okD:
  "emitter_ok e \<Longrightarrow> map_of (name_to_index e) n = Some i \<Longrightarrow> i < length (slots e)"
  "emitter_ok e \<Longrightarrow> map_of (name_to_index e) n = Some i \<Longrightarrow> map_of (name_to_index e) m = Some i \<Longrightarrow> n = m"
  by (auto simp: emitter_ok_def)

lemma emitter_ctor_ok: "emitter_ok (EventEmitter_ctor names) \<and> set (slots (EventEmitter_ctor names)) \<subseteq> {None}
    \<and> dom (map_of (name_to_index (EventEmitter_ctor names))) = set names"
proof (induction names rule: rev_induct)
  case Nil
  show ?case by (simp add: EventEmitter_ctor_def emitter_ok_def)
next
  case (snoc n names)
  let ?e = "EventEmitter_ctor names"
  have e: "EventEmitter_ctor (names @ [n]) =
      \<lparr>name_to_index = AList.update n (length (slots ?e)) (name_to_index ?e), slots = slots ?e @ [None]\<rparr>"
    by (simp add: EventEmitter_ctor_def)
  have lt: "map_of (name_to_index ?e) m = Some i \<Longrightarrow> i < length (slots ?e)" for m i
    using snoc emitter_okD(1) by blast
  have "emitter_ok (EventEmitter_ctor (names @ [n]))"
    unfolding emitter_ok_def e using lt snoc
    by (auto simp: update_conv' split: if_splits dest: emitter_okD(2) less_SucI)
  moreover have "dom (map_of (name_to_index (EventEmitter_ctor (names @ [n])))) = insert n (set names)"
    using snoc by (simp add: e update_conv' dom_def) blast
  ultimately show ?case using snoc by (simp add: e)
qed

text \<open>References held by the slots.\<close>

definition slot_refs :: "jsval option list \<Rightarrow> jsval \<Rightarrow> int" where
  "slot_refs ss v = int (count_list ss (Some v))"

lemma slot_refs_update:
  "i < length ss \<Longrightarrow> slot_refs (ss[i := x]) v = slot_refs ss v - of_bool (ss ! i = Some v) + of_bool (x = Some v)"
proof (induction ss arbitrary: i)
  case (Cons s ss)
  then show ?case by (cases i) (auto simp: slot_refs_def)
qed simp

lemma finalize_refs:
  "foldl (\<lambda>f s. case s of None \<Rightarrow> f | Some v \<Rightarrow> ref_free v f) f ss v = f v - slot_refs ss v"
  by (induction ss arbitrary: f) (auto simp: slot_refs_def ref_free_def split: option.split)

section \<open>The contract\<close>

text \<open>What the socket relies on: registering sets one listener and keeps the names.\<close>

locale listener_table =
  fixes register :: "string \<Rightarrow> 'v \<Rightarrow> 't \<Rightarrow> 't option" and listener :: "'t \<Rightarrow> string \<Rightarrow> 'v option"
    and names :: "'t \<Rightarrow> string set" and inv :: "'t \<Rightarrow> bool"
  assumes register_known: "register n v t \<noteq> None \<longleftrightarrow> n \<in> names t"
    and register_names: "register n v t = Some t' \<Longrightarrow> names t' = names t"
    and register_inv: "inv t \<Longrightarrow> register n v t = Some t' \<Longrightarrow> inv t'"
    and register_listener:
      "inv t \<Longrightarrow> register n v t = Some t' \<Longrightarrow> listener t' m = (if m = n then Some v else listener t m)"
begin

text \<open>Registering many: the last one for a name counts, unknown names are ignored.\<close>

definition register_all :: "(string \<times> 'v) list \<Rightarrow> 't \<Rightarrow> 't" where
  "register_all xs t = foldl (\<lambda>t (n, v). case register n v t of None \<Rightarrow> t | Some t' \<Rightarrow> t') t xs"

lemma register_all_listener:
  "inv t \<Longrightarrow> inv (register_all xs t) \<and> names (register_all xs t) = names t \<and>
   listener (register_all xs t) m =
     (if m \<in> names t then (case map_of (rev xs) m of None \<Rightarrow> listener t m | Some v \<Rightarrow> Some v)
      else listener t m)"
proof (induction xs rule: rev_induct)
  case (snoc x xs)
  obtain n v where x: "x = (n, v)" by (cases x)
  let ?t = "register_all xs t"
  have step: "register_all (xs @ [x]) t = (case register n v ?t of None \<Rightarrow> ?t | Some t' \<Rightarrow> t')"
    by (simp add: register_all_def x split: option.split)
  show ?case
  proof (cases "register n v ?t")
    case None
    then have "n \<notin> names t" using snoc register_known [of n v ?t] by auto
    with None snoc step x show ?thesis by auto
  next
    case (Some t')
    then have "n \<in> names t" using snoc register_known [of n v ?t] by auto
    with Some snoc step x register_names [OF Some] register_inv [OF _ Some]
      register_listener [OF _ Some] show ?thesis by auto
  qed
qed (simp add: register_all_def)

end

definition emitter_register :: "string \<Rightarrow> jsval \<Rightarrow> emitter \<times> refs \<Rightarrow> (emitter \<times> refs) option" where
  "emitter_register event callback st =
     (case emitter_on event (Some callback) st of (Inl _, _) \<Rightarrow> None | (Inr _, st) \<Rightarrow> Some st)"

lemma emitter_on_eq:
  "emitter_on n v (e, f) =
     (case map_of (name_to_index e) n of
        None \<Rightarrow> (Inl (-1), e, f)
      | Some i \<Rightarrow> (Inr (), e\<lparr>slots := (slots e)[i := v]\<rparr>,
          (case v of None \<Rightarrow> id | Some x \<Rightarrow> ref_dup x)
            (case slots e ! i of None \<Rightarrow> f | Some old \<Rightarrow> ref_free old f)))"
  by (simp add: emitter_on_def Let_def split: option.split)

interpretation socket_listeners: listener_table emitter_register
  "\<lambda>(e, f). emitter_listener e" "\<lambda>(e, f). dom (map_of (name_to_index e))" "\<lambda>(e, f). emitter_ok e"
proof
  fix n v and t t' :: "emitter \<times> refs" and m
  obtain e f where t: "t = (e, f)" by (cases t)
  show "(emitter_register n v t \<noteq> None) = (n \<in> (case t of (e, f) \<Rightarrow> dom (map_of (name_to_index e))))"
    by (auto simp: emitter_register_def emitter_on_eq t split: option.split)
  assume r: "emitter_register n v t = Some t'"
  then obtain i where i: "map_of (name_to_index e) n = Some i"
    by (auto simp: emitter_register_def emitter_on_eq t split: option.splits)
  with r obtain f' where t': "t' = (e\<lparr>slots := (slots e)[i := Some v]\<rparr>, f')"
    by (auto simp: emitter_register_def emitter_on_eq t)
  show "(case t' of (e, f) \<Rightarrow> dom (map_of (name_to_index e))) = (case t of (e, f) \<Rightarrow> dom (map_of (name_to_index e)))"
    by (simp add: t t')
  assume ok: "case t of (e, f) \<Rightarrow> emitter_ok e"
  then show "case t' of (e, f) \<Rightarrow> emitter_ok e" by (simp add: t t' emitter_ok_def)
  show "(case t' of (e, f) \<Rightarrow> emitter_listener e) m =
      (if m = n then Some v else (case t of (e, f) \<Rightarrow> emitter_listener e) m)"
  proof (cases "map_of (name_to_index e) m")
    case None
    with i show ?thesis by (auto simp: t t' emitter_listener_def)
  next
    case (Some j)
    have "j = i \<longleftrightarrow> m = n" using ok i Some emitter_okD(2) [of e m j n] by (auto simp: t)
    moreover have "i < length (slots e)" using ok i emitter_okD(1) by (simp add: t)
    ultimately show ?thesis using Some by (auto simp: t t' emitter_listener_def nth_list_update)
  qed
qed

end
