(* ===== verification/Socket.thy ===== *)
theory Socket
  imports EventEmitter
begin

text \<open>
  The socket of the JavaScript module (\<^verbatim>\<open>src/modules/socket.cpp\<close>, \<^verbatim>\<open>include/qjsb/pin_guard.hpp\<close>,
  \<^verbatim>\<open>src/transport/tcp.cpp\<close>): one \<open>TcpSocket\<close> with its pin guard, its listeners and its transport,
  and the JavaScript object it belongs to.

  asio and QuickJS are not part of the repository. asio is the list of operations in flight and
  the queue of handlers that are ready; closing or cancelling makes what is in flight ready with
  an abort. QuickJS is the reference count of the object, whose finalizer runs when it reaches
  zero. What listeners do when called is a parameter.

  Using the C++ object after \<open>delete this\<close>, a second deletion, freeing a reference on the JavaScript
  object that nobody holds, a failing assertion and an exception that leaves a C function are
  faults, and a step that has one gives no state.
\<close>

section \<open>State\<close>

datatype fault = UseAfterFree | DoubleDelete | OverFree | AssertionFailed | UncaughtException

type_synonym u16 = "16 word"

datatype net_op = OpConnect string u16 | OpRead | OpWrite bytes

text \<open>How an operation ends: with the bytes read, if any, aborted, or with another error.\<close>

datatype net_result = Done_ok bytes | Aborted | Failed string

record pin_guard =
  pg_ctx :: bool       \<comment> \<open>\<open>ctx_\<close> is set\<close>
  pg_obj :: bool       \<comment> \<open>\<open>obj_\<close> is the object and not undefined\<close>
  pg_count :: int

record transport =
  tp_open :: bool
  tp_reading :: bool
  tp_connected :: bool
  tp_callbacks :: bool       \<comment> \<open>\<open>on_data_\<close>, \<open>on_error_\<close> and \<open>on_close_\<close> are set\<close>
  tp_inflight :: "net_op list"
  tp_ready :: "(net_op \<times> net_result) list"

datatype event_arg = NoArg | Buffer bytes | Text string

record sock =
  sk_sctx :: bool            \<comment> \<open>registered with the context\<close>
  sk_pin :: pin_guard
  sk_events :: emitter
  sk_transport :: transport
  sk_finalized :: bool
  sk_closed :: bool
  sk_deleted :: bool
  sk_opaque :: bool          \<comment> \<open>the object's opaque pointer is this socket\<close>
  sk_rc :: int               \<comment> \<open>references on the object\<close>
  sk_held :: nat             \<comment> \<open>those of JavaScript\<close>
  sk_refs :: refs            \<comment> \<open>references on listeners\<close>
  sk_calls :: "(string \<times> event_arg) list"    \<comment> \<open>listener calls, oldest first\<close>

type_synonym 'a result = "fault + 'a"

definition bnd :: "'a result \<Rightarrow> ('a \<Rightarrow> 'b result) \<Rightarrow> 'b result" where
  "bnd r k = (case r of Inl f \<Rightarrow> Inl f | Inr s \<Rightarrow> k s)"

lemma bnd_simps [simp]: "bnd (Inl f) k = Inl f" "bnd (Inr s) k = k s"
  by (simp_all add: bnd_def)

lemma bnd_Inr: "bnd r k = Inr s' \<longleftrightarrow> (\<exists>s. r = Inr s \<and> k s = Inr s')"
  by (cases r) simp_all

text \<open>Every use of a member after something that may have deleted the object.\<close>

definition use_this :: "sock \<Rightarrow> sock result" where
  "use_this s = (if sk_deleted s then Inl UseAfterFree else Inr s)"

section \<open>TcpTransport\<close>

definition TcpTransport_ctor :: transport where
  "TcpTransport_ctor = \<lparr>tp_open = False, tp_reading = False, tp_connected = False,
     tp_callbacks = False, tp_inflight = [], tp_ready = []\<rparr>"

text \<open>What asio does to the operations of a socket that is closed or cancelled.\<close>

definition abort_all :: "transport \<Rightarrow> transport" where
  "abort_all t = t\<lparr>tp_inflight := [], tp_ready := tp_ready t @ map (\<lambda>x. (x, Aborted)) (tp_inflight t)\<rparr>"

definition start_op :: "net_op \<Rightarrow> transport \<Rightarrow> transport" where
  "start_op x t = t\<lparr>tp_inflight := tp_inflight t @ [x]\<rparr>"

definition transport_close :: "transport \<Rightarrow> transport" where
  "transport_close t =
     (let t = (if tp_open t then (abort_all t)\<lparr>tp_open := False\<rparr> else t)
      in t\<lparr>tp_connected := False, tp_reading := False\<rparr>)"

definition transport_cancel :: "transport \<Rightarrow> transport" where
  "transport_cancel t = (if tp_open t then abort_all t else t)"

text \<open>
  \<open>make_address\<close> throws when the host is not an address, and \<open>open\<close> when the system has no socket to
  give, for instance no descriptor; whether they do are parameters.
\<close>

definition transport_connect :: "(string \<Rightarrow> bool) \<Rightarrow> bool \<Rightarrow> string \<Rightarrow> u16 \<Rightarrow> transport \<Rightarrow> transport result" where
  "transport_connect is_address can_open host port t =
     (if \<not> is_address host then Inl UncaughtException
      else if \<not> tp_open t \<and> \<not> can_open then Inl UncaughtException
      else
        let t = (if \<not> tp_open t then t\<lparr>tp_open := True\<rparr> else t)
        in Inr (start_op (OpConnect host port) t))"

definition transport_write :: "bytes \<Rightarrow> transport \<Rightarrow> transport" where
  "transport_write data t = start_op (OpWrite data) t"

definition doRead :: "transport \<Rightarrow> transport" where
  "doRead t = (if \<not> tp_reading t \<or> \<not> tp_connected t then t else start_op OpRead t)"

definition startRead :: "transport \<Rightarrow> transport" where
  "startRead t =
     (let t = t\<lparr>tp_callbacks := True, tp_reading := True\<rparr>
      in if tp_connected t then doRead t else t)"

definition stopRead :: "transport \<Rightarrow> transport" where
  "stopRead t = t\<lparr>tp_reading := False\<rparr>"

abbreviation on_transport :: "(transport \<Rightarrow> transport) \<Rightarrow> sock \<Rightarrow> sock" where
  "on_transport f s \<equiv> s\<lparr>sk_transport := f (sk_transport s)\<rparr>"

section \<open>Deletion and the finalizer\<close>

definition unregisterFrom :: "sock \<Rightarrow> sock" where
  "unregisterFrom s = s\<lparr>sk_sctx := False\<rparr>"

text \<open>\<open>delete this\<close>: the destructors of the members run, of which only the transport's does anything.\<close>

definition delete_this :: "sock \<Rightarrow> sock result" where
  "delete_this s =
     (if sk_deleted s then Inl DoubleDelete
      else Inr ((on_transport transport_close s)\<lparr>sk_deleted := True\<rparr>))"

definition maybeDestroy :: "sock \<Rightarrow> sock result" where
  "maybeDestroy s =
     (if sk_finalized s \<and> sk_closed s then delete_this (unregisterFrom s) else Inr s)"

text \<open>\<open>free\<close> is \<open>JS_FreeValueRT\<close> of the object.\<close>

definition forceRelease :: "(sock \<Rightarrow> sock result) \<Rightarrow> sock \<Rightarrow> sock result" where
  "forceRelease free s =
     (if pg_count (sk_pin s) > 0 then
        bnd (free s) (\<lambda>s. bnd (use_this s) (\<lambda>s. Inr (s\<lparr>sk_pin := \<lparr>pg_ctx = False, pg_obj = False, pg_count = 0\<rparr>\<rparr>)))
      else Inr s)"

definition events_finalize :: "sock \<Rightarrow> sock" where
  "events_finalize s =
     (let (e, f) = emitter_finalize (sk_events s, sk_refs s) in s\<lparr>sk_events := e, sk_refs := f\<rparr>)"

text \<open>
  The finalizer runs when no reference is left, so freeing the object in it is once too often.
  Afterwards the object is gone.
\<close>

definition jsFinalizer :: "sock \<Rightarrow> sock result" where
  "jsFinalizer s =
     (if \<not> sk_opaque s then Inr s
      else
        let s = events_finalize s
        in bnd (forceRelease (\<lambda>s. Inl OverFree) s)
             (\<lambda>s. let s = s\<lparr>sk_finalized := True, sk_opaque := False\<rparr>
                  in if sk_closed s then maybeDestroy s else Inr (on_transport transport_cancel s)))"

text \<open>The values that the collector is told of.\<close>

definition jsGcMark :: "sock \<Rightarrow> jsval list" where
  "jsGcMark s = (if \<not> sk_opaque s then [] else emitter_mark (sk_events s))"

definition JS_FreeObject :: "sock \<Rightarrow> sock result" where
  "JS_FreeObject s =
     (if sk_rc s \<le> 0 then Inl OverFree
      else
        let s = s\<lparr>sk_rc := sk_rc s - 1\<rparr>
        in if sk_rc s = 0 then jsFinalizer s else Inr s)"

section \<open>PinGuard\<close>

definition pin :: "sock \<Rightarrow> sock" where
  "pin s =
     (let p = sk_pin s;
          s = (if pg_count p = 0
               then s\<lparr>sk_pin := p\<lparr>pg_ctx := True, pg_obj := True\<rparr>, sk_rc := sk_rc s + 1\<rparr> else s)
      in s\<lparr>sk_pin := (sk_pin s)\<lparr>pg_count := pg_count p + 1\<rparr>\<rparr>)"

definition unpin :: "sock \<Rightarrow> sock result" where
  "unpin s =
     (if \<not> pg_count (sk_pin s) > 0 then Inl AssertionFailed
      else
        let s = s\<lparr>sk_pin := (sk_pin s)\<lparr>pg_count := pg_count (sk_pin s) - 1\<rparr>\<rparr>
        in if pg_count (sk_pin s) = 0 \<and> pg_ctx (sk_pin s)
           then bnd (JS_FreeObject s)
                  (\<lambda>s. bnd (use_this s) (\<lambda>s. Inr (s\<lparr>sk_pin := (sk_pin s)\<lparr>pg_obj := False\<rparr>\<rparr>)))
           else Inr s)"

definition isPinned :: "sock \<Rightarrow> bool" where
  "isPinned s \<longleftrightarrow> pg_count (sk_pin s) > 0"

section \<open>TcpSocket\<close>

text \<open>The constructor and what the JavaScript constructor does with it; the caller gets the object.\<close>

definition TcpSocket_ctor :: sock where
  "TcpSocket_ctor = \<lparr>sk_sctx = False, sk_pin = \<lparr>pg_ctx = False, pg_obj = False, pg_count = 0\<rparr>,
     sk_events = EventEmitter_ctor [''connect'', ''data'', ''error'', ''close''],
     sk_transport = startRead TcpTransport_ctor, sk_finalized = False, sk_closed = False,
     sk_deleted = False, sk_opaque = False, sk_rc = 1, sk_held = 1, sk_refs = (\<lambda>_. 0), sk_calls = []\<rparr>"

definition socket_registerWith :: "sock \<Rightarrow> sock" where
  "socket_registerWith s = s\<lparr>sk_sctx := True\<rparr>"

definition js_socket_constructor :: sock where
  "js_socket_constructor = socket_registerWith (TcpSocket_ctor\<lparr>sk_opaque := True\<rparr>)"

definition socket_connect :: "(string \<Rightarrow> bool) \<Rightarrow> bool \<Rightarrow> string \<Rightarrow> u16 \<Rightarrow> sock \<Rightarrow> sock result" where
  "socket_connect is_address can_open host port s =
     (let s = pin s
      in case transport_connect is_address can_open host port (sk_transport s) of
           Inl f \<Rightarrow> Inl f
         | Inr t \<Rightarrow> Inr (s\<lparr>sk_transport := t\<rparr>))"

definition socket_write :: "bytes \<Rightarrow> sock \<Rightarrow> sock" where
  "socket_write data s = on_transport (transport_write data) (pin s)"

definition socket_close :: "sock \<Rightarrow> sock result" where
  "socket_close s =
     bnd (forceRelease JS_FreeObject s)
       (\<lambda>s. let s = on_transport transport_cancel s;
                s = on_transport transport_close s
            in maybeDestroy (s\<lparr>sk_closed := True\<rparr>))"

definition socket_on :: "string \<Rightarrow> jsval option \<Rightarrow> sock \<Rightarrow> (int + unit) \<times> sock" where
  "socket_on event callback s =
     (let (result, e, f) = emitter_on event callback (sk_events s, sk_refs s);
          s = s\<lparr>sk_events := e, sk_refs := f\<rparr>;
          s = (if event = ''data'' \<and> emitter_hasListener (sk_events s) ''data'' then
                 (if tp_connected (sk_transport s) then pin s else s)
               else s)
      in (result, s))"

definition socket_cancel :: "sock \<Rightarrow> sock" where
  "socket_cancel s = on_transport transport_cancel s"

definition socket_forceCleanup :: "sock \<Rightarrow> sock result" where
  "socket_forceCleanup s =
     (if \<not> sk_finalized s then
        bnd (forceRelease JS_FreeObject (events_finalize s)) (\<lambda>s. Inr (s\<lparr>sk_opaque := False\<rparr>))
      else Inr s)"

section \<open>The bindings\<close>

text \<open>
  Arguments as the bindings tell them apart. The conversions of QuickJS are parameters: to a
  string, to an integer, to the bytes of an ArrayBuffer; None is an exception.

  The conversion of an object runs its \<open>toString\<close>, and that may call methods of this socket. The
  socket is the receiver of the call then, so the conversion cannot finalize it, and the calls it
  makes stand in the script before the call that converts: this is the order of their effects, and
  \<open>on_with_conversion\<close> in \<^verbatim>\<open>SocketTypes\<close> shows that it makes no difference.
\<close>

datatype sarg = AString string | ANumber int | AArray nat | AOther jsval

datatype sret = RUndefined | RTypeError string | RException | RInt64 int

datatype sock_act =
    AOn "sarg list"
  | AClose
  | AWrite "sarg list"
  | AConnect "sarg list"
  | ADup
  | ADrop

text \<open>
  What JavaScript does when it is called, and what it keeps: \<open>se_kept f s\<close> when something other than
  the slots of the socket refers to the function \<open>f\<close> for the whole of a call that starts in \<open>s\<close>.
\<close>

record sock_env =
  se_js :: "jsval \<Rightarrow> event_arg \<Rightarrow> sock \<Rightarrow> sock_act list"
  se_kept :: "jsval \<Rightarrow> sock \<Rightarrow> bool"
  se_is_address :: "string \<Rightarrow> bool"
  se_can_open :: "sock \<Rightarrow> bool"
  se_val :: "sarg \<Rightarrow> jsval option"      \<comment> \<open>None for undefined\<close>
  se_toCString :: "sarg \<Rightarrow> string option"
  se_toInt64 :: "sarg \<Rightarrow> i64"
  se_getArrayBuffer :: "sarg \<Rightarrow> bytes option"

definition js_socket_on :: "sock_env \<Rightarrow> sarg list \<Rightarrow> sock \<Rightarrow> sret \<times> sock" where
  "js_socket_on E argv s =
     (case argv of
        a0 # a1 # _ \<Rightarrow>
          if \<not> sk_opaque s then (RTypeError ''not a Socket'', s)
          else
            (case se_toCString E a0 of
               None \<Rightarrow> (RException, s)
             | Some event \<Rightarrow>
                 (case socket_on (c_str event) (se_val E a1) s of
                    (Inl _, s) \<Rightarrow> (RTypeError ''unknown event'', s)
                  | (Inr _, s) \<Rightarrow> (RUndefined, s)))
      | _ \<Rightarrow> (RTypeError ''on(event, handler) requires 2 arguments'', s))"

definition js_socket_close :: "sock \<Rightarrow> (sret \<times> sock) result" where
  "js_socket_close s =
     (if \<not> sk_opaque s then Inr (RTypeError ''not a Socket'', s)
      else bnd (socket_close s) (\<lambda>s. Inr (RUndefined, s)))"

definition js_socket_write :: "sock_env \<Rightarrow> sarg list \<Rightarrow> sock \<Rightarrow> sret \<times> sock" where
  "js_socket_write E argv s =
     (case argv of
        [] \<Rightarrow> (RTypeError ''write(data) requires 1 argument'', s)
      | a0 # _ \<Rightarrow>
          if \<not> sk_opaque s then (RTypeError ''not a Socket'', s)
          else
            (case a0 of
               AArray _ \<Rightarrow>
                 (case se_getArrayBuffer E a0 of
                    None \<Rightarrow> (RTypeError ''write() requires ArrayBuffer or string'', s)
                  | Some buf \<Rightarrow> (RInt64 (int (length buf)), socket_write buf s))
             | AString _ \<Rightarrow>
                 (case se_toCString E a0 of
                    None \<Rightarrow> (RException, s)
                  | Some str \<Rightarrow> (RInt64 (int (length str)), socket_write (bytes_of_string str) s))
             | _ \<Rightarrow> (RTypeError ''write() requires ArrayBuffer or string'', s)))"

definition js_socket_connect :: "sock_env \<Rightarrow> sarg list \<Rightarrow> sock \<Rightarrow> (sret \<times> sock) result" where
  "js_socket_connect E argv s =
     (case argv of
        AString h # ANumber n # _ \<Rightarrow>
          if \<not> sk_opaque s then Inr (RTypeError ''not a Socket'', s)
          else
            (case se_toCString E (AString h) of
               None \<Rightarrow> Inr (RException, s)
             | Some host \<Rightarrow>
                 bnd (socket_connect (se_is_address E) (se_can_open E s) host (ucast (se_toInt64 E (ANumber n))) s)
                   (\<lambda>s. Inr (RUndefined, s)))
      | _ \<Rightarrow> Inr (RTypeError ''connect(host, port) requires string and number'', s))"

text \<open>
  What a script does with the object: call its methods, copy its reference or drop one, all of
  which need a reference.
\<close>

fun do_sock_act :: "sock_env \<Rightarrow> sock_act \<Rightarrow> sock \<Rightarrow> sock result" where
  "do_sock_act E (AOn argv) s = Inr (snd (js_socket_on E argv s))"
| "do_sock_act E AClose s = bnd (js_socket_close s) (\<lambda>(_, s). Inr s)"
| "do_sock_act E (AWrite argv) s = Inr (snd (js_socket_write E argv s))"
| "do_sock_act E (AConnect argv) s = bnd (js_socket_connect E argv s) (\<lambda>(_, s). Inr s)"
| "do_sock_act E ADup s = Inr (s\<lparr>sk_held := sk_held s + 1, sk_rc := sk_rc s + 1\<rparr>)"
| "do_sock_act E ADrop s = JS_FreeObject (s\<lparr>sk_held := sk_held s - 1\<rparr>)"

fun sock_script :: "sock_env \<Rightarrow> sock_act list \<Rightarrow> sock \<Rightarrow> sock result" where
  "sock_script E [] s = Inr s"
| "sock_script E (a # as) s =
     (if sk_held s = 0 then Inr s else bnd (do_sock_act E a s) (sock_script E as))"

section \<open>Handlers\<close>

text \<open>
  The call uses the reference of the slot. When the script replaces the listener and nothing else
  refers to it, the function is freed while it runs. A script that puts it back has a reference of
  its own, so it is enough to look at the end.
\<close>

definition call_listener :: "sock_env \<Rightarrow> jsval \<Rightarrow> event_arg \<Rightarrow> sock \<Rightarrow> sock result" where
  "call_listener E f arg s =
     bnd (sock_script E (se_js E f arg s) s)
       (\<lambda>s'. if sk_refs s' f \<le> 0 \<and> \<not> se_kept E f s then Inl UseAfterFree else Inr s')"

lemma call_listener_Inr: "call_listener E f arg s = Inr s' \<Longrightarrow> sock_script E (se_js E f arg s) s = Inr s'"
  by (auto simp: call_listener_def bnd_Inr split: if_splits)

definition emit :: "sock_env \<Rightarrow> string \<Rightarrow> event_arg \<Rightarrow> sock \<Rightarrow> sock result" where
  "emit E event arg s =
     (case emitter_listener (sk_events s) event of
        None \<Rightarrow> Inr s
      | Some f \<Rightarrow> call_listener E f arg (s\<lparr>sk_calls := sk_calls s @ [(event, arg)]\<rparr>))"

text \<open>\<open>ctx_\<close> is read again after each call, to free the result.\<close>

definition handleConnect :: "sock_env \<Rightarrow> sock \<Rightarrow> sock result" where
  "handleConnect E s = bnd (emit E ''connect'' NoArg s) use_this"

definition handleData :: "sock_env \<Rightarrow> bytes \<Rightarrow> sock \<Rightarrow> sock result" where
  "handleData E data s =
     (if sk_finalized s then Inr s else bnd (emit E ''data'' (Buffer data) s) use_this)"

definition handleError :: "sock_env \<Rightarrow> string \<Rightarrow> sock \<Rightarrow> sock result" where
  "handleError E err s =
     (if sk_finalized s then Inr s else bnd (emit E ''error'' (Text err) s) use_this)"

definition handleClose :: "sock_env \<Rightarrow> sock \<Rightarrow> sock result" where
  "handleClose E s =
     (let s = s\<lparr>sk_closed := True\<rparr>
      in bnd (if isPinned s then unpin s else Inr s)
           (\<lambda>s. bnd (use_this s)
              (\<lambda>s. bnd (if \<not> sk_finalized s then bnd (emit E ''close'' NoArg s) use_this else Inr s)
                 maybeDestroy)))"

definition connect_handler :: "sock_env \<Rightarrow> net_result \<Rightarrow> sock \<Rightarrow> sock result" where
  "connect_handler E ec s =
     bnd (use_this s)
       (\<lambda>s. case ec of
          Failed m \<Rightarrow> handleError E m s
        | Aborted \<Rightarrow> handleError E ''Operation canceled'' s
        | Done_ok _ \<Rightarrow>
            bnd (handleConnect E (on_transport (\<lambda>t. t\<lparr>tp_connected := True\<rparr>) s))
              (\<lambda>s. if tp_reading (sk_transport s) then Inr (on_transport doRead s) else Inr s))"

definition read_handler :: "sock_env \<Rightarrow> net_result \<Rightarrow> sock \<Rightarrow> sock result" where
  "read_handler E ec s =
     bnd (use_this s)
       (\<lambda>s. let cb = tp_callbacks (sk_transport s) in
        case ec of
          Aborted \<Rightarrow>
            let s = on_transport (\<lambda>t. t\<lparr>tp_reading := False\<rparr>) s
            in if cb then handleClose E s else Inr s
        | Failed m \<Rightarrow>
            let s = on_transport (\<lambda>t. t\<lparr>tp_reading := False\<rparr>) s
            in bnd (if cb then handleError E m s else Inr s)
                 (\<lambda>s. bnd (use_this s) (\<lambda>s. if tp_callbacks (sk_transport s) then handleClose E s else Inr s))
        | Done_ok data \<Rightarrow>
            bnd (if cb then handleData E data s else Inr s)
              (\<lambda>s. bnd (use_this s)
                 (\<lambda>s. if tp_reading (sk_transport s) \<and> tp_connected (sk_transport s)
                      then Inr (on_transport doRead s) else Inr s)))"

text \<open>Both error callbacks of a write are \<open>handleError\<close>.\<close>

definition write_handler :: "sock_env \<Rightarrow> net_result \<Rightarrow> sock \<Rightarrow> sock result" where
  "write_handler E ec s =
     bnd (use_this s)
       (\<lambda>s. case ec of
          Failed m \<Rightarrow> handleError E m s
        | Aborted \<Rightarrow> handleError E ''Operation canceled'' s
        | Done_ok _ \<Rightarrow> unpin s)"

fun run_handler_of :: "sock_env \<Rightarrow> net_op \<Rightarrow> net_result \<Rightarrow> sock \<Rightarrow> sock result" where
  "run_handler_of E (OpConnect host port) ec s = connect_handler E ec s"
| "run_handler_of E OpRead ec s = read_handler E ec s"
| "run_handler_of E (OpWrite data) ec s = write_handler E ec s"

section \<open>Runs\<close>

datatype sock_event =
    Script "sock_act list"
  | Complete nat net_result     \<comment> \<open>operation \<open>k\<close> of those in flight ends\<close>
  | Handle                      \<comment> \<open>the loop calls the next ready handler\<close>
  | Collect                     \<comment> \<open>all references left are in garbage cycles\<close>

definition take_at :: "nat \<Rightarrow> 'a list \<Rightarrow> 'a list" where
  "take_at k xs = take k xs @ drop (Suc k) xs"

definition sock_step :: "sock_env \<Rightarrow> sock_event \<Rightarrow> sock \<Rightarrow> sock result" where
  "sock_step E ev s =
     (case ev of
        Script as \<Rightarrow> sock_script E as s
      | Complete k r \<Rightarrow>
          let t = sk_transport s
          in if k < length (tp_inflight t) then
               Inr (s\<lparr>sk_transport := t\<lparr>tp_inflight := take_at k (tp_inflight t),
                      tp_ready := tp_ready t @ [(tp_inflight t ! k, r)]\<rparr>\<rparr>)
             else Inr s
      | Handle \<Rightarrow>
          (case tp_ready (sk_transport s) of
             [] \<Rightarrow> Inr s
           | (x, r) # rest \<Rightarrow> run_handler_of E x r (on_transport (\<lambda>t. t\<lparr>tp_ready := rest\<rparr>) s))
      | Collect \<Rightarrow>
          if pg_obj (sk_pin s) \<or> sk_held s = 0 then Inr s
          else jsFinalizer (s\<lparr>sk_held := 0, sk_rc := 0\<rparr>))"

fun sock_run :: "sock_env \<Rightarrow> sock_event list \<Rightarrow> sock \<Rightarrow> sock result" where
  "sock_run E [] s = Inr s"
| "sock_run E (ev # evs) s = bnd (sock_step E ev s) (sock_run E evs)"

end
