(* ===== verification/SocketInv.thy ===== *)
theory SocketInv
  imports Socket
begin

text \<open>
  The invariant of a socket whose scripts never call \<open>close\<close>: every operation in flight or ready
  has a pin of its own, so the object cannot be finalized while asio still has a handler for it.
\<close>

section \<open>The invariant\<close>

definition ops :: "sock \<Rightarrow> nat" where
  "ops s = length (tp_inflight (sk_transport s)) + length (tp_ready (sk_transport s))"

text \<open>\<open>k\<close> is 1 while a handler runs, for the pin of its operation.\<close>

definition live_sock :: "int \<Rightarrow> sock \<Rightarrow> bool" where
  "live_sock k s \<longleftrightarrow> \<not> sk_finalized s \<and> \<not> sk_deleted s \<and> sk_opaque s \<and> sk_sctx s \<and> 0 \<le> k \<and>
     int (ops s) + k \<le> pg_count (sk_pin s) \<and>
     (pg_obj (sk_pin s) \<longleftrightarrow> 0 < pg_count (sk_pin s)) \<and> (0 < pg_count (sk_pin s) \<longrightarrow> pg_ctx (sk_pin s)) \<and>
     sk_rc s = int (sk_held s) + of_bool (0 < pg_count (sk_pin s)) \<and> 0 < sk_rc s"

definition dead_sock :: "sock \<Rightarrow> bool" where
  "dead_sock s \<longleftrightarrow> sk_finalized s \<and> \<not> sk_opaque s \<and> sk_held s = 0 \<and> pg_count (sk_pin s) = 0 \<and> ops s = 0 \<and>
     (sk_deleted s \<longleftrightarrow> sk_closed s) \<and> (sk_sctx s \<longleftrightarrow> \<not> sk_deleted s)"

lemma live_use [simp]: "live_sock k s \<Longrightarrow> use_this s = Inr s"
  by (simp add: live_sock_def use_this_def)

lemma live_mono: "live_sock k s \<Longrightarrow> 0 \<le> k' \<Longrightarrow> k' \<le> k \<Longrightarrow> live_sock k' s"
  by (simp add: live_sock_def)

text \<open>Changes that keep it: everything but pins, operations, references and flags.\<close>

lemma live_cong:
  "live_sock k s \<Longrightarrow> sk_finalized s' = sk_finalized s \<Longrightarrow> sk_deleted s' = sk_deleted s \<Longrightarrow>
   sk_opaque s' = sk_opaque s \<Longrightarrow> sk_sctx s' = sk_sctx s \<Longrightarrow> ops s' = ops s \<Longrightarrow> sk_pin s' = sk_pin s \<Longrightarrow>
   sk_rc s' = sk_rc s \<Longrightarrow> sk_held s' = sk_held s \<Longrightarrow> live_sock k s'"
  by (simp add: live_sock_def)

lemma ops_simps [simp]:
  "ops (s\<lparr>sk_events := e, sk_refs := f\<rparr>) = ops s" "ops (s\<lparr>sk_calls := cs\<rparr>) = ops s"
  "ops (s\<lparr>sk_pin := p\<rparr>) = ops s" "ops (s\<lparr>sk_rc := r\<rparr>) = ops s" "ops (s\<lparr>sk_held := n\<rparr>) = ops s"
  "ops (s\<lparr>sk_closed := b\<rparr>) = ops s" "ops (s\<lparr>sk_sctx := b\<rparr>) = ops s"
  "ops (s\<lparr>sk_finalized := b, sk_opaque := b'\<rparr>) = ops s" "ops (s\<lparr>sk_deleted := b\<rparr>) = ops s"
  by (simp_all add: ops_def)

lemma ops_cancel [simp]: "ops (on_transport transport_cancel s) = ops s"
  and ops_close [simp]: "ops (on_transport transport_close s) = ops s"
  by (simp_all add: ops_def transport_cancel_def transport_close_def abort_all_def Let_def)

lemma events_finalize_simps [simp]:
  "sk_sctx (events_finalize s) = sk_sctx s" "sk_pin (events_finalize s) = sk_pin s"
  "sk_transport (events_finalize s) = sk_transport s" "sk_finalized (events_finalize s) = sk_finalized s"
  "sk_closed (events_finalize s) = sk_closed s" "sk_deleted (events_finalize s) = sk_deleted s"
  "sk_opaque (events_finalize s) = sk_opaque s" "sk_rc (events_finalize s) = sk_rc s"
  "sk_held (events_finalize s) = sk_held s" "sk_calls (events_finalize s) = sk_calls s"
  by (simp_all add: events_finalize_def case_prod_unfold Let_def)

section \<open>Pins\<close>

lemma live_pin: "live_sock k s \<Longrightarrow> live_sock (k + 1) (pin s) \<and> sk_held (pin s) = sk_held s"
  by (auto simp: live_sock_def pin_def Let_def ops_def)

lemma pin_transport [simp]: "sk_transport (pin s) = sk_transport s" "sk_closed (pin s) = sk_closed s"
  by (simp_all add: pin_def Let_def)

lemma live_start:
  "live_sock (k + 1) s \<Longrightarrow> 0 \<le> k \<Longrightarrow> length (tp_inflight t) = Suc (length (tp_inflight (sk_transport s))) \<Longrightarrow>
   tp_ready t = tp_ready (sk_transport s) \<Longrightarrow> live_sock k (s\<lparr>sk_transport := t\<rparr>)"
  by (simp add: live_sock_def ops_def)

text \<open>The finalizer of an object without pins.\<close>

lemma finalizer_dead:
  assumes "sk_opaque s" and "pg_count (sk_pin s) = 0" and "ops s = 0" and "\<not> sk_deleted s"
    and "sk_held s = 0" and "sk_sctx s"
  shows "\<exists>s'. jsFinalizer s = Inr s' \<and> dead_sock s' \<and> sk_closed s' = sk_closed s"
proof -
  have o: "ops (events_finalize s) = 0" using assms(3) by (simp add: ops_def)
  have "length (tp_inflight (sk_transport s)) = 0" "length (tp_ready (sk_transport s)) = 0"
    using assms(3) by (simp_all add: ops_def)
  then show ?thesis
    using assms o
    by (auto simp: jsFinalizer_def forceRelease_def maybeDestroy_def delete_this_def unregisterFrom_def
        dead_sock_def Let_def ops_def transport_close_def transport_cancel_def abort_all_def)
qed

lemma live_ops0: "live_sock k s \<Longrightarrow> pg_count (sk_pin s) = 0 \<Longrightarrow> ops s = 0 \<and> k = 0"
  by (simp add: live_sock_def)

lemma live_drop:
  assumes "live_sock k s" and "0 < sk_held s"
  shows "\<exists>s'. JS_FreeObject (s\<lparr>sk_held := sk_held s - 1\<rparr>) = Inr s' \<and>
    (live_sock k s' \<or> k = 0 \<and> dead_sock s' \<and> sk_closed s' = sk_closed s)"
proof (cases "sk_rc s = 1")
  case True
  with assms have c: "pg_count (sk_pin s) = 0" "sk_held s = 1" by (auto simp: live_sock_def of_bool_def split: if_splits)
  let ?s = "s\<lparr>sk_held := 0, sk_rc := 0\<rparr>"
  have "\<exists>s'. jsFinalizer ?s = Inr s' \<and> dead_sock s' \<and> sk_closed s' = sk_closed ?s"
    using live_ops0 [OF assms(1) c(1)] assms(1) c by (intro finalizer_dead) (simp_all add: live_sock_def ops_def)
  with True c live_ops0 [OF assms(1) c(1)] show ?thesis by (auto simp: JS_FreeObject_def)
next
  case False
  with assms show ?thesis
    by (auto simp: JS_FreeObject_def live_sock_def ops_def Let_def)
qed

lemma live_unpin:
  assumes "live_sock 1 s"
  shows "unpin s = Inl UseAfterFree \<and> sk_held s = 0 \<or>
    (\<exists>s'. unpin s = Inr s' \<and> (live_sock 0 s' \<and> sk_held s' = sk_held s \<or> dead_sock s' \<and> sk_held s = 0 \<and> \<not> sk_closed s))"
proof -
  let ?s = "s\<lparr>sk_pin := (sk_pin s)\<lparr>pg_count := pg_count (sk_pin s) - 1\<rparr>\<rparr>"
  note L = assms [unfolded live_sock_def]
  consider (more) "1 < pg_count (sk_pin s)" | (held) "pg_count (sk_pin s) = 1" "0 < sk_held s"
    | (last) "pg_count (sk_pin s) = 1" "sk_held s = 0" using L by force
  then show ?thesis
  proof cases
    case more
    then have "unpin s = Inr ?s" by (simp add: unpin_def Let_def)
    moreover have "live_sock 0 ?s" using L more by (simp add: live_sock_def)
    ultimately show ?thesis by simp
  next
    case held
    let ?t = "?s\<lparr>sk_rc := sk_rc s - 1\<rparr>"
    let ?u = "?t\<lparr>sk_pin := (sk_pin ?t)\<lparr>pg_obj := False\<rparr>\<rparr>"
    have "JS_FreeObject ?s = Inr ?t" using L held by (simp add: JS_FreeObject_def Let_def)
    then have "unpin s = Inr ?u"
      using L held by (simp add: unpin_def Let_def use_this_def)
    moreover have "live_sock 0 ?u" using L held by (simp add: live_sock_def ops_def)
    ultimately show ?thesis by simp
  next
    case last
    have rc: "sk_rc s = 1" using L last by simp
    let ?t = "?s\<lparr>sk_rc := 0\<rparr>"
    have "\<exists>s'. jsFinalizer ?t = Inr s' \<and> dead_sock s' \<and> sk_closed s' = sk_closed ?t"
      using L last by (intro finalizer_dead) simp_all
    then obtain s' where s': "jsFinalizer ?t = Inr s'" "dead_sock s'" "sk_closed s' = sk_closed s" by auto
    have f: "JS_FreeObject ?s = Inr s'" using rc s'(1) by (simp add: JS_FreeObject_def Let_def)
    have "dead_sock (s'\<lparr>sk_pin := (sk_pin s')\<lparr>pg_obj := False\<rparr>\<rparr>)" using s'(2) by (simp add: dead_sock_def)
    with f s'(2,3) L last show ?thesis by (auto simp: unpin_def Let_def use_this_def dead_sock_def)
  qed
qed

section \<open>Scripts without close\<close>

text \<open>
  Such a script connects to addresses only, and only when every socket can be opened. The last
  condition is one on the environment, which the hypotheses below are about.
\<close>

definition safe_act :: "sock_env \<Rightarrow> sock_act \<Rightarrow> bool" where
  "safe_act E a = (case a of
     AClose \<Rightarrow> False
   | AConnect (AString h # ANumber n # _) \<Rightarrow>
       (case se_toCString E (AString h) of None \<Rightarrow> True | Some host \<Rightarrow> se_is_address E host \<and> (\<forall>s. se_can_open E s))
   | _ \<Rightarrow> True)"

lemma live_on: "live_sock k s \<Longrightarrow> live_sock k (snd (socket_on ev cb s)) \<and> sk_held (snd (socket_on ev cb s)) = sk_held s"
proof -
  assume l: "live_sock k s"
  obtain r e f where on: "emitter_on ev cb (sk_events s, sk_refs s) = (r, e, f)"
    by (cases "emitter_on ev cb (sk_events s, sk_refs s)") auto
  have "live_sock k (s\<lparr>sk_events := e, sk_refs := f\<rparr>)" using l by (rule live_cong) simp_all
  then show ?thesis
    using live_pin [of k "s\<lparr>sk_events := e, sk_refs := f\<rparr>"] live_mono [of "k + 1" _ k] l
    by (auto simp: socket_on_def on Let_def live_sock_def)
qed

lemma live_js_on: "live_sock k s \<Longrightarrow> live_sock k (snd (js_socket_on E argv s)) \<and> sk_held (snd (js_socket_on E argv s)) = sk_held s"
  using live_on by (auto simp: js_socket_on_def split: list.split option.split prod.splits sum.splits)
    (metis snd_conv)+

lemma live_write: "live_sock k s \<Longrightarrow> live_sock k (socket_write d s) \<and> sk_held (socket_write d s) = sk_held s"
  using live_pin [of k s] live_start [of k "pin s" "transport_write d (sk_transport s)"]
  by (auto simp: socket_write_def transport_write_def start_op_def live_sock_def)

lemma live_js_write: "live_sock k s \<Longrightarrow> live_sock k (snd (js_socket_write E argv s)) \<and> sk_held (snd (js_socket_write E argv s)) = sk_held s"
  using live_write by (auto simp: js_socket_write_def split: list.split sarg.split option.split)

lemma live_connect:
  assumes "live_sock k s" and "is_address host" and "can_open"
  shows "\<exists>s'. socket_connect is_address can_open host port s = Inr s' \<and> live_sock k s' \<and> sk_held s' = sk_held s"
  using assms live_pin [of k s] live_start [of k "pin s" "start_op (OpConnect host port) ((sk_transport s)\<lparr>tp_open := True\<rparr>)"]
    live_start [of k "pin s" "start_op (OpConnect host port) (sk_transport s)"]
  by (auto simp: socket_connect_def transport_connect_def Let_def start_op_def live_sock_def)

lemma live_js_connect:
  assumes "live_sock k s" and "safe_act E (AConnect argv)"
  shows "\<exists>x s'. js_socket_connect E argv s = Inr (x, s') \<and> live_sock k s' \<and> sk_held s' = sk_held s"
proof -
  consider h n r host where "argv = AString h # ANumber n # r" "se_toCString E (AString h) = Some host"
    | h n r where "argv = AString h # ANumber n # r" "se_toCString E (AString h) = None"
    | y where "js_socket_connect E argv s = Inr (y, s)"
    by (cases argv; cases "hd argv"; cases "tl argv"; cases "hd (tl argv)")
      (auto simp: js_socket_connect_def)
  then show ?thesis
  proof cases
    case (1 h n r host)
    with assms(2) have "se_is_address E host" "se_can_open E s" by (simp_all add: safe_act_def)
    from live_connect [of k s "se_is_address E" host "se_can_open E s" "ucast (se_toInt64 E (ANumber n))", OF assms(1) this]
    obtain s' where s': "socket_connect (se_is_address E) (se_can_open E s) host (ucast (se_toInt64 E (ANumber n))) s = Inr s'"
      "live_sock k s'" "sk_held s' = sk_held s" by blast
    moreover have "sk_opaque s" using assms(1) by (simp add: live_sock_def)
    ultimately show ?thesis using 1 by (simp add: js_socket_connect_def)
  qed (use assms(1) in \<open>auto simp: js_socket_connect_def\<close>)
qed

lemma live_act:
  assumes "live_sock k s" and "safe_act E a" and "0 < sk_held s"
  shows "\<exists>s'. do_sock_act E a s = Inr s' \<and>
    (live_sock k s' \<and> (a \<noteq> ADrop \<longrightarrow> sk_held s \<le> sk_held s') \<or> a = ADrop \<and> k = 0 \<and> dead_sock s' \<and> sk_closed s' = sk_closed s)"
proof (cases a)
  case (AConnect argv)
  with live_js_connect [OF assms(1), of E argv] assms(2) show ?thesis by auto
next
  case ADrop
  with live_drop [OF assms(1,3)] show ?thesis by auto
next
  case ADup
  with assms(1) show ?thesis by (simp add: live_sock_def ops_def)
qed (use assms live_js_on [of k s E] live_js_write [of k s E] in \<open>simp_all add: safe_act_def\<close>)

section \<open>Listeners and handlers\<close>

definition safe_acts :: "sock_env \<Rightarrow> sock_act list \<Rightarrow> bool" where
  "safe_acts E as \<longleftrightarrow> list_all (safe_act E) as"

text \<open>
  \<open>hold\<close>: no script gives up a reference on the socket, and JavaScript keeps the functions that it
  has registered, at least while they run.
\<close>

definition safe_env :: "bool \<Rightarrow> sock_env \<Rightarrow> bool" where
  "safe_env hold E \<longleftrightarrow> (\<forall>f arg s. safe_acts E (se_js E f arg s) \<and>
     (hold \<longrightarrow> ADrop \<notin> set (se_js E f arg s) \<and> se_kept E f s))"

text \<open>
  The outcome of a piece of code: with \<open>hold\<close> the object is still live and held; without, it may
  also be dead, if no handler runs, or the code may have stepped on its own deletion.
\<close>

definition good :: "bool \<Rightarrow> int \<Rightarrow> bool \<Rightarrow> sock \<Rightarrow> bool" where
  "good hold k d s \<longleftrightarrow> live_sock k s \<and> (hold \<longrightarrow> 0 < sk_held s) \<or> \<not> hold \<and> d \<and> k = 0 \<and> dead_sock s"

definition outcome :: "bool \<Rightarrow> int \<Rightarrow> bool \<Rightarrow> sock result \<Rightarrow> bool" where
  "outcome hold k d r \<longleftrightarrow> (case r of Inl f \<Rightarrow> \<not> hold \<and> f = UseAfterFree | Inr s \<Rightarrow> good hold k d s)"

lemma outcome_simps [simp]:
  "outcome hold k d (Inl f) \<longleftrightarrow> \<not> hold \<and> f = UseAfterFree" "outcome hold k d (Inr s) \<longleftrightarrow> good hold k d s"
  by (simp_all add: outcome_def)

lemma outcome_bnd: "outcome hold k d r \<Longrightarrow> (\<And>s. r = Inr s \<Longrightarrow> good hold k d s \<Longrightarrow> outcome hold k' d' (c s)) \<Longrightarrow> outcome hold k' d' (bnd r c)"
  by (cases r) simp_all

lemma good_live: "live_sock k s \<Longrightarrow> (hold \<Longrightarrow> 0 < sk_held s) \<Longrightarrow> good hold k d s"
  by (simp add: good_def)

lemma good_script:
  assumes "good hold k True s" and "safe_acts E as" and "hold \<Longrightarrow> ADrop \<notin> set as"
  shows "\<exists>s'. sock_script E as s = Inr s' \<and> good hold k True s'"
  using assms
proof (induction as arbitrary: s)
  case (Cons a as)
  show ?case
  proof (cases "sk_held s = 0")
    case False
    with Cons.prems(1) have l: "live_sock k s" by (auto simp: good_def dead_sock_def)
    have sa: "safe_act E a" "safe_acts E as" using Cons.prems(2) by (simp_all add: safe_acts_def)
    from live_act [OF l sa(1)] False obtain s1 where s1: "do_sock_act E a s = Inr s1"
      "live_sock k s1 \<and> (a \<noteq> ADrop \<longrightarrow> sk_held s \<le> sk_held s1) \<or> a = ADrop \<and> k = 0 \<and> dead_sock s1" by auto
    then have "good hold k True s1" using False Cons.prems(3) by (auto simp: good_def)
    from Cons.IH [OF this sa(2)] Cons.prems(3) s1(1) False show ?thesis by auto
  qed (use Cons.prems in simp)
qed simp

lemma good_call_listener:
  assumes "good hold k True s" and "safe_env hold E"
  shows "outcome hold k True (call_listener E f arg s)"
proof -
  have "\<exists>s'. sock_script E (se_js E f arg s) s = Inr s' \<and> good hold k True s'"
    using assms(2) by (intro good_script [OF assms(1)]) (auto simp: safe_env_def)
  then show ?thesis using assms(2) by (auto simp: call_listener_def safe_env_def)
qed

lemma good_emit:
  assumes "good hold k True s" and "safe_env hold E"
  shows "outcome hold k True (emit E ev arg s)"
proof (cases "emitter_listener (sk_events s) ev")
  case (Some f)
  let ?s = "s\<lparr>sk_calls := sk_calls s @ [(ev, arg)]\<rparr>"
  have "good hold k True ?s"
    using assms(1) live_cong [of k s ?s] by (auto simp: good_def dead_sock_def)
  from good_call_listener [OF this assms(2)] Some show ?thesis by (simp add: emit_def)
qed (use assms in \<open>simp add: emit_def\<close>)

text \<open>While a handler runs the object is not dead, so the use of a member behind a call is fine.\<close>

lemma good_1: "good hold 1 d s \<Longrightarrow> live_sock 1 s \<and> (hold \<longrightarrow> 0 < sk_held s)"
  by (auto simp: good_def)

lemma good_use: "good hold 1 d s \<Longrightarrow> use_this s = Inr s"
  using good_1 live_use by blast

lemma good_1_iff: "good hold 1 d s \<longleftrightarrow> live_sock 1 s \<and> (hold \<longrightarrow> 0 < sk_held s)"
  by (auto simp: good_def)

lemma good_down: "good hold 1 d s \<Longrightarrow> good hold 0 d' s"
  by (auto simp: good_def intro: live_mono)

lemma outcome_down: "outcome hold 1 d r \<Longrightarrow> outcome hold 0 d' r"
  by (cases r) (auto intro: good_down)

lemma good_emit_this:
  assumes "good hold 1 d s" and "safe_env hold E"
  shows "outcome hold 1 d (bnd (emit E ev arg s) use_this)"
proof (rule outcome_bnd)
  show "outcome hold 1 True (emit E ev arg s)" using assms by (intro good_emit) (auto simp: good_def)
  show "outcome hold 1 d (use_this s')" if "good hold 1 True s'" for s'
    using good_1 [OF that] by (auto simp: good_def)
qed

lemma good_handleError: "good hold 1 d s \<Longrightarrow> safe_env hold E \<Longrightarrow> outcome hold 1 d (handleError E m s)"
  using good_emit_this by (auto simp: handleError_def)

lemma good_handleData: "good hold 1 d s \<Longrightarrow> safe_env hold E \<Longrightarrow> outcome hold 1 d (handleData E m s)"
  using good_emit_this by (auto simp: handleData_def)

lemma good_transport:
  assumes "good hold 1 d s" and "length (tp_inflight t) + length (tp_ready t) \<le> ops s + n" and "n \<le> 1"
  shows "good hold (1 - int n) d' (s\<lparr>sk_transport := t\<rparr>)"
  using good_1 [OF assms(1)] assms(2,3) by (auto simp: good_def live_sock_def ops_def)

lemma good_doRead: "good hold 1 d s \<Longrightarrow> good hold 0 d' (on_transport doRead s)"
  using good_transport [of hold d s "doRead (sk_transport s)" 1 d']
  by (simp add: doRead_def start_op_def ops_def)

lemma good_connect:
  assumes "good hold 1 d s" and "safe_env hold E"
  shows "outcome hold 0 d (connect_handler E r s)"
proof -
  have here: "use_this s = Inr s" using good_1 [OF assms(1)] by (blast intro: live_use)
  let ?s = "on_transport (\<lambda>t. t\<lparr>tp_connected := True\<rparr>) s"
  have "good hold 1 d ?s" using good_transport [OF assms(1), of _ 0 d] by (simp add: ops_def)
  then have c: "outcome hold 1 d (handleConnect E ?s)"
    using good_emit_this assms(2) by (simp add: handleConnect_def)
  have "outcome hold 0 d (bnd (handleConnect E ?s)
      (\<lambda>s. if tp_reading (sk_transport s) then Inr (on_transport doRead s) else Inr s))"
    using c by (rule outcome_bnd) (auto intro: good_doRead good_down)
  then show ?thesis
    using good_handleError [OF assms] here
    by (cases r) (auto simp: connect_handler_def intro: outcome_down)
qed

lemma good_handleClose:
  assumes "good hold 1 d s" and "safe_env hold E"
  shows "outcome hold 0 True (handleClose E s)"
proof -
  let ?s = "s\<lparr>sk_closed := True\<rparr>"
  have l: "live_sock 1 ?s" and h: "hold \<Longrightarrow> 0 < sk_held s"
    using good_1 [OF assms(1)] live_cong [of 1 s ?s] by auto
  have p: "isPinned ?s" using l by (simp add: isPinned_def live_sock_def)
  show ?thesis
  proof (cases "unpin ?s")
    case (Inl f)
    with live_unpin [OF l] h show ?thesis using p by (auto simp: handleClose_def)
  next
    case (Inr s1)
    with live_unpin [OF l] have l1: "live_sock 0 s1" "sk_held s1 = sk_held s" by auto
    then have n: "\<not> sk_finalized s1" "use_this s1 = Inr s1" by (simp_all add: live_sock_def use_this_def)
    have "outcome hold 0 True (emit E ''close'' NoArg s1)"
      using l1 h by (intro good_emit [OF _ assms(2)]) (auto simp: good_def)
    then have "outcome hold 0 True (bnd (bnd (emit E ''close'' NoArg s1) use_this) maybeDestroy)"
    proof (cases "emit E ''close'' NoArg s1")
      case (Inr s2)
      with \<open>outcome hold 0 True (emit E ''close'' NoArg s1)\<close> have g: "good hold 0 True s2" by simp
      show ?thesis
      proof (cases "sk_deleted s2")
        case True
        with g Inr show ?thesis by (auto simp: good_def use_this_def live_sock_def)
      next
        case False
        have "maybeDestroy s2 = Inr s2" using g False
          by (auto simp: good_def live_sock_def dead_sock_def maybeDestroy_def)
        with Inr False g show ?thesis by (simp add: use_this_def)
      qed
    qed simp
    with Inr p n show ?thesis by (simp add: handleClose_def)
  qed
qed

lemma good_read:
  assumes "good hold 1 d s" and "safe_env hold E"
  shows "outcome hold 0 True (read_handler E r s)"
proof -
  have here: "use_this s = Inr s" using good_1 [OF assms(1)] by (blast intro: live_use)
  have off: "good hold 1 d (on_transport (\<lambda>t. t\<lparr>tp_reading := b\<rparr>) s)" for b
    using good_transport [OF assms(1), of _ 0 d] by (simp add: ops_def)
  show ?thesis
  proof (cases r)
    case (Done_ok data)
    have "outcome hold 1 d (if tp_callbacks (sk_transport s) then handleData E data s else Inr s)"
      using good_handleData [OF assms] assms(1) by simp
    then have "outcome hold 0 True (bnd (if tp_callbacks (sk_transport s) then handleData E data s else Inr s)
       (\<lambda>s. bnd (use_this s) (\<lambda>s. if tp_reading (sk_transport s) \<and> tp_connected (sk_transport s)
          then Inr (on_transport doRead s) else Inr s)))"
      by (rule outcome_bnd) (auto simp: good_use intro: good_doRead good_down)
    with Done_ok here show ?thesis by (simp add: read_handler_def Let_def)
  next
    case Aborted
    with here good_handleClose [OF off assms(2)] good_down [OF off] show ?thesis
      by (simp add: read_handler_def Let_def)
  next
    case (Failed m)
    let ?s = "on_transport (\<lambda>t. t\<lparr>tp_reading := False\<rparr>) s"
    have "outcome hold 1 d (if tp_callbacks (sk_transport s) then handleError E m ?s else Inr ?s)"
      using good_handleError [OF off assms(2)] off by simp
    then have "outcome hold 0 True (bnd (if tp_callbacks (sk_transport s) then handleError E m ?s else Inr ?s)
       (\<lambda>s. bnd (use_this s) (\<lambda>s. if tp_callbacks (sk_transport s) then handleClose E s else Inr s)))"
      by (rule outcome_bnd) (auto simp: good_use intro: good_down good_handleClose [OF _ assms(2)])
    with Failed here show ?thesis by (simp add: read_handler_def Let_def)
  qed
qed

lemma good_write:
  assumes "good hold 1 d s" and "safe_env hold E"
  shows "outcome hold 0 True (write_handler E r s)"
proof -
  have l: "live_sock 1 s" "hold \<longrightarrow> 0 < sk_held s" and here: "use_this s = Inr s"
    using good_1 [OF assms(1)] live_use by auto
  have "outcome hold 0 True (unpin s)"
    using live_unpin [OF l(1)] l(2) by (auto simp: good_def)
  then show ?thesis
    using good_handleError [OF assms] here
    by (cases r) (auto simp: write_handler_def intro: outcome_down)
qed

section \<open>Runs\<close>

definition safe_event :: "bool \<Rightarrow> sock_env \<Rightarrow> sock_event \<Rightarrow> bool" where
  "safe_event hold E ev = (case ev of
     Script as \<Rightarrow> safe_acts E as \<and> (hold \<longrightarrow> ADrop \<notin> set as)
   | Collect \<Rightarrow> \<not> hold
   | _ \<Rightarrow> True)"

lemma length_take_at: "k < length xs \<Longrightarrow> Suc (length (take_at k xs)) = length xs"
  by (simp add: take_at_def)

lemma good_handle:
  assumes "good hold 0 True s" and "safe_env hold E"
  shows "outcome hold 0 True (sock_step E Handle s)"
proof (cases "tp_ready (sk_transport s)")
  case (Cons x rest)
  obtain op r where x: "x = (op, r)" by (cases x)
  let ?s = "on_transport (\<lambda>t. t\<lparr>tp_ready := rest\<rparr>) s"
  have "good hold 1 True ?s"
    using assms(1) Cons by (auto simp: good_def live_sock_def dead_sock_def ops_def)
  from good_connect [OF this assms(2), of r] good_read [OF this assms(2), of r] good_write [OF this assms(2), of r]
  show ?thesis by (cases op) (simp_all add: sock_step_def Cons x)
qed (use assms in \<open>simp add: sock_step_def\<close>)

lemma good_collect:
  assumes "good False 0 True s"
  shows "outcome False 0 True (sock_step E Collect s)"
proof (cases "pg_obj (sk_pin s) \<or> sk_held s = 0")
  case False
  with assms have l: "live_sock 0 s" by (auto simp: good_def dead_sock_def)
  with False have c: "pg_count (sk_pin s) = 0" by (auto simp: live_sock_def)
  have "\<exists>s'. jsFinalizer (s\<lparr>sk_held := 0, sk_rc := 0\<rparr>) = Inr s' \<and> dead_sock s' \<and> sk_closed s' = sk_closed s"
    using finalizer_dead [of "s\<lparr>sk_held := 0, sk_rc := 0\<rparr>"] live_ops0 [OF l c] l c by (simp add: live_sock_def)
  with False show ?thesis by (auto simp: sock_step_def good_def)
qed (use assms in \<open>simp add: sock_step_def\<close>)

lemma good_step:
  assumes "good hold 0 True s" and "safe_env hold E" and "safe_event hold E ev"
  shows "outcome hold 0 True (sock_step E ev s)"
proof (cases ev)
  case (Script as)
  with good_script [OF assms(1), of E as] assms(3) show ?thesis
    by (auto simp: sock_step_def safe_event_def)
next
  case (Complete k r)
  with assms(1) length_take_at [of k "tp_inflight (sk_transport s)"] show ?thesis
    by (auto simp: sock_step_def Let_def good_def live_sock_def dead_sock_def ops_def)
next
  case Handle
  with good_handle [OF assms(1,2)] show ?thesis by simp
next
  case Collect
  with good_collect assms(1,3) show ?thesis by (cases hold) (auto simp: safe_event_def)
qed

lemma good_run:
  assumes "safe_env hold E" and "list_all (safe_event hold E) evs" and "good hold 0 True s"
  shows "outcome hold 0 True (sock_run E evs s)"
  using assms(2,3)
proof (induction evs arbitrary: s)
  case (Cons ev evs)
  have "outcome hold 0 True (sock_step E ev s)"
    using good_step [OF Cons.prems(2) assms(1)] Cons.prems(1) by simp
  then show ?case using Cons by (cases "sock_step E ev s") simp_all
qed simp

lemma good_fresh: "good hold 0 True js_socket_constructor"
  by (simp add: good_def live_sock_def ops_def js_socket_constructor_def socket_registerWith_def
      TcpSocket_ctor_def startRead_def TcpTransport_ctor_def Let_def)

end
