(* ===== verification/SocketRefs.thy ===== *)
theory SocketRefs
  imports SocketInv
begin

text \<open>
  What holds of a socket in every run, with or without \<open>close\<close>, that does not end in a fault: the
  listeners are counted right, and the C++ object is deleted exactly when the JavaScript object
  was finalized and the connection is closed.
\<close>

section \<open>The invariant\<close>

abbreviation socket_events :: "string list" where
  "socket_events \<equiv> [''connect'', ''data'', ''error'', ''close'']"

definition listeners_ok :: "sock \<Rightarrow> bool" where
  "listeners_ok s \<longleftrightarrow> emitter_ok (sk_events s) \<and>
     name_to_index (sk_events s) = name_to_index (EventEmitter_ctor socket_events) \<and> (\<forall>v. sk_refs s v = slot_refs (slots (sk_events s)) v)"

definition life_ok :: "sock \<Rightarrow> bool" where
  "life_ok s \<longleftrightarrow> listeners_ok s \<and>
     (sk_finalized s \<longrightarrow> \<not> sk_opaque s \<and> pg_count (sk_pin s) \<le> 0 \<and> set (slots (sk_events s)) \<subseteq> {None}) \<and>
     (\<not> sk_finalized s \<longrightarrow> sk_opaque s) \<and>
     (sk_deleted s \<longleftrightarrow> sk_finalized s \<and> sk_closed s) \<and> (sk_sctx s \<longleftrightarrow> \<not> sk_deleted s)"

lemma life_cong:
  "life_ok s \<Longrightarrow> sk_events s' = sk_events s \<Longrightarrow> sk_refs s' = sk_refs s \<Longrightarrow> sk_finalized s' = sk_finalized s \<Longrightarrow>
   sk_closed s' = sk_closed s \<Longrightarrow> sk_deleted s' = sk_deleted s \<Longrightarrow> sk_opaque s' = sk_opaque s \<Longrightarrow>
   sk_sctx s' = sk_sctx s \<Longrightarrow> (sk_finalized s \<longrightarrow> pg_count (sk_pin s) \<le> 0 \<longrightarrow> pg_count (sk_pin s') \<le> 0) \<Longrightarrow> life_ok s'"
  by (simp add: life_ok_def listeners_ok_def)

lemma life_transport: "life_ok s \<Longrightarrow> life_ok (s\<lparr>sk_transport := t\<rparr>)"
  by (erule life_cong) simp_all

lemma life_pin: "life_ok s \<Longrightarrow> \<not> sk_finalized s \<Longrightarrow> life_ok (pin s) \<and> \<not> sk_finalized (pin s)"
  by (auto simp: life_ok_def listeners_ok_def pin_def Let_def)

lemma listeners_finalize:
  assumes "listeners_ok s"
  shows "listeners_ok (events_finalize s)" "set (slots (sk_events (events_finalize s))) \<subseteq> {None}"
proof -
  have n: "slot_refs (map (\<lambda>_. None) ss) v = 0" for ss :: "jsval option list" and v
    by (induction ss) (simp_all add: slot_refs_def)
  show "listeners_ok (events_finalize s)"
    using assms n by (simp add: listeners_ok_def events_finalize_def emitter_finalize_def finalize_refs emitter_ok_def)
  show "set (slots (sk_events (events_finalize s))) \<subseteq> {None}"
    by (auto simp: events_finalize_def emitter_finalize_def)
qed

lemma life_finalizer:
  assumes "life_ok s" and "jsFinalizer s = Inr s'"
  shows "life_ok s' \<and> (sk_opaque s \<longrightarrow> sk_finalized s')"
proof (cases "sk_opaque s")
  case True
  then have f: "\<not> sk_finalized s" "\<not> sk_deleted s" "sk_sctx s" using assms(1) by (auto simp: life_ok_def)
  have l: "listeners_ok (events_finalize s)" "set (slots (sk_events (events_finalize s))) \<subseteq> {None}"
    using listeners_finalize assms(1) by (simp_all add: life_ok_def)
  have c: "pg_count (sk_pin s) \<le> 0" using assms(2) True by (auto simp: jsFinalizer_def forceRelease_def Let_def split: if_splits)
  show ?thesis
    using assms(2) True f l c
    by (auto simp: jsFinalizer_def forceRelease_def maybeDestroy_def delete_this_def unregisterFrom_def
        life_ok_def listeners_ok_def Let_def split: if_splits)
qed (use assms in \<open>simp add: jsFinalizer_def\<close>)

lemma life_free: "life_ok s \<Longrightarrow> JS_FreeObject s = Inr s' \<Longrightarrow> life_ok s'"
  using life_finalizer [of "s\<lparr>sk_rc := 0\<rparr>" s'] life_cong [of s "s\<lparr>sk_rc := sk_rc s - 1\<rparr>"]
    life_cong [of s "s\<lparr>sk_rc := 0\<rparr>"]
  by (auto simp: JS_FreeObject_def Let_def life_ok_def split: if_splits)

lemma life_force:
  assumes "life_ok s" and "forceRelease JS_FreeObject s = Inr s'"
  shows "life_ok s'"
proof (cases "pg_count (sk_pin s) > 0")
  case True
  with assms(2) obtain s1 where s1: "JS_FreeObject s = Inr s1"
    and s': "s' = s1\<lparr>sk_pin := \<lparr>pg_ctx = False, pg_obj = False, pg_count = 0\<rparr>\<rparr>"
    by (auto simp: forceRelease_def bnd_Inr use_this_def split: if_splits)
  from life_free [OF assms(1) s1] show ?thesis
    unfolding s' by (rule life_cong) simp_all
qed (use assms in \<open>simp add: forceRelease_def\<close>)

lemma life_maybeDestroy:
  assumes "listeners_ok s" and "\<not> sk_finalized s \<longrightarrow> sk_opaque s" and "sk_finalized s \<longrightarrow> \<not> sk_opaque s \<and> pg_count (sk_pin s) \<le> 0 \<and> set (slots (sk_events s)) \<subseteq> {None}"
    and "(sk_deleted s \<longrightarrow> sk_finalized s \<and> sk_closed s) \<and> (sk_sctx s \<longleftrightarrow> \<not> sk_deleted s)" and "maybeDestroy s = Inr s'"
  shows "life_ok s'"
  using assms by (auto simp: maybeDestroy_def delete_this_def unregisterFrom_def life_ok_def
      listeners_ok_def split: if_splits)

lemma life_unpin:
  assumes "life_ok s" and "unpin s = Inr s'"
  shows "life_ok s'"
proof -
  let ?s = "s\<lparr>sk_pin := (sk_pin s)\<lparr>pg_count := pg_count (sk_pin s) - 1\<rparr>\<rparr>"
  have pos: "0 < pg_count (sk_pin s)" using assms(2) by (auto simp: unpin_def split: if_splits)
  then have "\<not> sk_finalized s" using assms(1) by (auto simp: life_ok_def)
  then have l: "life_ok ?s" using assms(1) by (intro life_cong [OF assms(1)]) simp_all
  show ?thesis
  proof (cases "pg_count (sk_pin s) = 1 \<and> pg_ctx (sk_pin s)")
    case True
    with assms(2) pos obtain s1 where s1: "JS_FreeObject ?s = Inr s1" "s' = s1\<lparr>sk_pin := (sk_pin s1)\<lparr>pg_obj := False\<rparr>\<rparr>"
      by (auto simp: unpin_def Let_def bnd_Inr use_this_def split: if_splits)
    from life_free [OF l s1(1)] show ?thesis unfolding s1(2) by (rule life_cong) simp_all
  next
    case False
    then have "s' = ?s" using assms(2) pos by (auto simp: unpin_def Let_def split: if_splits)
    with l show ?thesis by simp
  qed
qed

section \<open>Methods\<close>

lemma life_on:
  assumes "life_ok s" and "\<not> sk_finalized s"
  shows "life_ok (snd (socket_on ev cb s))"
proof -
  obtain r e f where on: "emitter_on ev cb (sk_events s, sk_refs s) = (r, e, f)"
    by (cases "emitter_on ev cb (sk_events s, sk_refs s)") auto
  let ?s = "s\<lparr>sk_events := e, sk_refs := f\<rparr>"
  have l: "listeners_ok s" using assms(1) by (simp add: life_ok_def)
  have "listeners_ok ?s"
  proof (cases "map_of (name_to_index (sk_events s)) ev")
    case None
    with on l show ?thesis by (auto simp: emitter_on_eq listeners_ok_def)
  next
    case (Some i)
    then have i: "i < length (slots (sk_events s))" using l emitter_okD(1) by (auto simp: listeners_ok_def)
    from on Some have e: "e = (sk_events s)\<lparr>slots := (slots (sk_events s))[i := cb]\<rparr>"
      and f: "f = (case cb of None \<Rightarrow> id | Some x \<Rightarrow> ref_dup x) (case slots (sk_events s) ! i of None \<Rightarrow> sk_refs s | Some old \<Rightarrow> ref_free old (sk_refs s))"
      by (simp_all add: emitter_on_eq)
    have "f v = slot_refs (slots e) v" for v
      using l slot_refs_update [OF i, of cb v]
      by (auto simp: f e listeners_ok_def ref_dup_def ref_free_def split: option.split)
    moreover have "emitter_ok e" "name_to_index e = name_to_index (EventEmitter_ctor socket_events)"
      using l by (simp_all add: e listeners_ok_def emitter_ok_def)
    ultimately show ?thesis by (simp add: listeners_ok_def)
  qed
  then have "life_ok ?s" using assms by (simp add: life_ok_def)
  then show ?thesis using life_pin [of ?s] assms(2) by (simp add: socket_on_def on Let_def)
qed

lemma life_opaque: "life_ok s \<Longrightarrow> sk_opaque s \<Longrightarrow> \<not> sk_finalized s"
  by (simp add: life_ok_def)

lemma life_js_on: "life_ok s \<Longrightarrow> life_ok (snd (js_socket_on E argv s))"
  using life_on life_opaque by (auto simp: js_socket_on_def split: list.split option.split prod.splits sum.splits)
    (metis snd_conv)+

lemma life_write: "life_ok s \<Longrightarrow> \<not> sk_finalized s \<Longrightarrow> life_ok (socket_write d s)"
  using life_pin [of s] life_transport by (simp add: socket_write_def)

lemma life_js_write: "life_ok s \<Longrightarrow> life_ok (snd (js_socket_write E argv s))"
  using life_write life_opaque by (auto simp: js_socket_write_def split: list.split sarg.split option.split)

lemma life_connect: "life_ok s \<Longrightarrow> \<not> sk_finalized s \<Longrightarrow> socket_connect a c h p s = Inr s' \<Longrightarrow> life_ok s'"
  using life_pin [of s] life_transport by (auto simp: socket_connect_def Let_def split: sum.splits)

lemma life_js_connect: "life_ok s \<Longrightarrow> js_socket_connect E argv s = Inr (x, s') \<Longrightarrow> life_ok s'"
  using life_connect life_opaque
  by (auto simp: js_socket_connect_def bnd_Inr split: list.splits sarg.splits option.splits if_splits)

lemma life_close:
  assumes "life_ok s" and "socket_close s = Inr s'"
  shows "life_ok s'"
proof -
  from assms(2) obtain s1 where s1: "forceRelease JS_FreeObject s = Inr s1"
    and d: "maybeDestroy ((on_transport (\<lambda>t. transport_close (transport_cancel t)) s1)\<lparr>sk_closed := True\<rparr>) = Inr s'"
    by (auto simp: socket_close_def bnd_Inr Let_def)
  have "life_ok s1" using life_force [OF assms(1) s1] .
  then show ?thesis by (intro life_maybeDestroy [OF _ _ _ _ d]) (auto simp: life_ok_def listeners_ok_def)
qed

lemma life_js_close: "life_ok s \<Longrightarrow> js_socket_close s = Inr (x, s') \<Longrightarrow> life_ok s'"
  using life_close by (auto simp: js_socket_close_def bnd_Inr split: if_splits)

lemma life_act:
  assumes "life_ok s" and "do_sock_act E a s = Inr s'"
  shows "life_ok s'"
proof (cases a)
  case ADup
  have "life_ok (s\<lparr>sk_held := sk_held s + 1, sk_rc := sk_rc s + 1\<rparr>)"
    using assms(1) by (rule life_cong) simp_all
  with ADup assms(2) show ?thesis by simp
next
  case ADrop
  have "life_ok (s\<lparr>sk_held := sk_held s - 1\<rparr>)"
    using assms(1) by (rule life_cong) simp_all
  with ADrop assms(2) life_free show ?thesis by simp
next
  case AClose
  with assms life_js_close show ?thesis by (auto simp: bnd_Inr)
next
  case (AConnect argv)
  with assms life_js_connect show ?thesis by (auto simp: bnd_Inr)
qed (use assms life_js_on [OF assms(1), of E] life_js_write [OF assms(1), of E] in auto)

lemma life_script: "life_ok s \<Longrightarrow> sock_script E as s = Inr s' \<Longrightarrow> life_ok s'"
proof (induction as arbitrary: s)
  case (Cons a as)
  then show ?case by (auto simp: bnd_Inr split: if_splits dest: life_act)
qed simp

section \<open>Handlers\<close>

lemma life_emit: "life_ok s \<Longrightarrow> emit E ev arg s = Inr s' \<Longrightarrow> life_ok s'"
proof -
  assume l: "life_ok s" and e: "emit E ev arg s = Inr s'"
  have "life_ok (s\<lparr>sk_calls := cs\<rparr>)" for cs
    using l by (rule life_cong) simp_all
  from life_script [OF this] l e show ?thesis by (auto simp: emit_def split: option.splits dest!: call_listener_Inr)
qed

lemma life_emit_use: "life_ok s \<Longrightarrow> bnd (emit E ev arg s) use_this = Inr s' \<Longrightarrow> life_ok s'"
  by (auto simp: bnd_Inr use_this_def split: if_splits dest: life_emit)

lemma life_handlers:
  "life_ok s \<Longrightarrow> handleConnect E s = Inr s' \<Longrightarrow> life_ok s'"
  "life_ok s \<Longrightarrow> handleData E d s = Inr s' \<Longrightarrow> life_ok s'"
  "life_ok s \<Longrightarrow> handleError E m s = Inr s' \<Longrightarrow> life_ok s'"
  by (auto simp: handleConnect_def handleData_def handleError_def split: if_splits dest: life_emit_use)

lemma life_handleClose:
  assumes "life_ok s" and "handleClose E s = Inr s'"
  shows "life_ok s'"
proof (cases "sk_finalized s")
  case True
  let ?s = "s\<lparr>sk_closed := True\<rparr>"
  have "\<not> isPinned ?s" using True assms(1) by (simp add: isPinned_def life_ok_def)
  with assms(2) True have "maybeDestroy ?s = Inr s'"
    by (auto simp: handleClose_def bnd_Inr use_this_def split: if_splits)
  then show ?thesis using assms(1) by (intro life_maybeDestroy) (auto simp: life_ok_def listeners_ok_def)
next
  case False
  let ?s = "s\<lparr>sk_closed := True\<rparr>"
  have l: "life_ok ?s" using False assms(1) by (simp add: life_ok_def listeners_ok_def)
  from assms(2) obtain s1 s2 where s1: "(if isPinned ?s then unpin ?s else Inr ?s) = Inr s1"
    and s2: "(if \<not> sk_finalized s1 then bnd (emit E ''close'' NoArg s1) use_this else Inr s1) = Inr s2"
    and d: "maybeDestroy s2 = Inr s'"
    by (auto simp: handleClose_def bnd_Inr use_this_def Let_def split: if_splits)
  have "life_ok s1" using s1 l life_unpin by (auto split: if_splits)
  then have "life_ok s2" using s2 life_emit_use by (auto split: if_splits)
  then show ?thesis by (intro life_maybeDestroy [OF _ _ _ _ d]) (auto simp: life_ok_def)
qed

lemma life_connect_handler: "life_ok s \<Longrightarrow> connect_handler E r s = Inr s' \<Longrightarrow> life_ok s'"
proof -
  assume l: "life_ok s" and c: "connect_handler E r s = Inr s'"
  show ?thesis
  proof (cases r)
    case (Done_ok d)
    from c Done_ok obtain s1 where "handleConnect E (on_transport (\<lambda>t. t\<lparr>tp_connected := True\<rparr>) s) = Inr s1"
      "s' = s1 \<or> s' = on_transport doRead s1"
      by (auto simp: connect_handler_def bnd_Inr use_this_def split: if_splits)
    then show ?thesis using life_handlers(1) [OF life_transport [OF l]] life_transport by blast
  qed (use l c life_handlers(3) [OF l] in \<open>auto simp: connect_handler_def bnd_Inr use_this_def split: if_splits\<close>)
qed

lemma life_read_handler:
  assumes "life_ok s" and "read_handler E r s = Inr s'"
  shows "life_ok s'"
proof -
  have t: "life_ok (on_transport f s)" for f using assms(1) by (rule life_transport)
  show ?thesis
  proof (cases r)
    case (Done_ok d)
    then show ?thesis using assms life_handlers(2) [OF assms(1)]
      by (auto simp: read_handler_def bnd_Inr use_this_def Let_def split: if_splits intro: life_transport)
  next
    case Aborted
    then show ?thesis using assms life_handleClose [OF t] t
      by (auto simp: read_handler_def bnd_Inr use_this_def Let_def split: if_splits)
  next
    case (Failed m)
    with assms(2) obtain s1 where "(if tp_callbacks (sk_transport s)
        then handleError E m (on_transport (\<lambda>t. t\<lparr>tp_reading := False\<rparr>) s)
        else Inr (on_transport (\<lambda>t. t\<lparr>tp_reading := False\<rparr>) s)) = Inr s1"
      and s1: "s' = s1 \<or> handleClose E s1 = Inr s'"
      by (auto simp: read_handler_def bnd_Inr use_this_def Let_def split: if_splits)
    then have "life_ok s1" using life_handlers(3) [OF t] t by (auto split: if_splits)
    with s1 show ?thesis using life_handleClose by blast
  qed
qed

lemma life_write_handler: "life_ok s \<Longrightarrow> write_handler E r s = Inr s' \<Longrightarrow> life_ok s'"
  by (cases r) (auto simp: write_handler_def bnd_Inr use_this_def split: if_splits
      dest: life_handlers(3) life_unpin)

lemma life_run_handler: "life_ok s \<Longrightarrow> run_handler_of E op r s = Inr s' \<Longrightarrow> life_ok s'"
  using life_connect_handler [of s E r s'] life_read_handler [of s E r s'] life_write_handler [of s E r s']
  by (cases op) simp_all

lemma life_step:
  assumes "life_ok s" and "sock_step E ev s = Inr s'"
  shows "life_ok s'"
proof (cases ev)
  case Handle
  show ?thesis
  proof (cases "tp_ready (sk_transport s)")
    case (Cons x rest)
    obtain op r where x: "x = (op, r)" by (cases x)
    have "life_ok (on_transport (\<lambda>t. t\<lparr>tp_ready := rest\<rparr>) s)" using assms(1) by (rule life_transport)
    from life_run_handler [OF this, of E op r s'] show ?thesis
      using assms(2) Handle Cons x by (simp add: sock_step_def)
  qed (use assms Handle in \<open>simp add: sock_step_def\<close>)
next
  case Collect
  have "life_ok (s\<lparr>sk_held := 0, sk_rc := 0\<rparr>)"
    using assms(1) by (rule life_cong) simp_all
  from life_finalizer [OF this] assms Collect show ?thesis by (auto simp: sock_step_def split: if_splits)
next
  case (Script as)
  with assms life_script show ?thesis by (simp add: sock_step_def)
next
  case (Complete k r)
  with assms life_transport [OF assms(1)] show ?thesis by (auto simp: sock_step_def Let_def split: if_splits)
qed

lemma life_run: "life_ok s \<Longrightarrow> sock_run E evs s = Inr s' \<Longrightarrow> life_ok s'"
  by (induction evs arbitrary: s) (auto simp: bnd_Inr dest: life_step)

lemma life_fresh: "life_ok js_socket_constructor"
proof -
  let ?e = "EventEmitter_ctor [''connect'', ''data'', ''error'', ''close'']"
  have "slot_refs (slots ?e) v = 0" for v
    using emitter_ctor_ok [of "[''connect'', ''data'', ''error'', ''close'']"]
    by (auto simp: slot_refs_def count_list_0_iff)
  then show ?thesis
    using emitter_ctor_ok [of "[''connect'', ''data'', ''error'', ''close'']"]
    by (simp add: life_ok_def listeners_ok_def js_socket_constructor_def socket_registerWith_def TcpSocket_ctor_def)
qed

end
