(* ===== verification/SocketProps.thy ===== *)
theory SocketProps
  imports SocketRefs
begin

text \<open>
  The properties of sockets, and runs in which the code does less than it means to.
\<close>

section \<open>Examples\<close>

text \<open>
  A listener does nothing, except that of value 8, which closes the socket and gives it up; every
  host name is an address, every socket can be opened, and JavaScript keeps its functions. The value
  0 is undefined.
\<close>

definition quiet :: sock_env where
  "quiet = \<lparr>se_js = \<lambda>f arg s. if f = 8 then [AClose, ADrop] else [], se_kept = \<lambda>f s. True,
     se_is_address = \<lambda>h. True, se_can_open = \<lambda>s. True,
     se_val = \<lambda>a. (case a of AOther v \<Rightarrow> if v = 0 then None else Some v | _ \<Rightarrow> None),
     se_toCString = \<lambda>a. (case a of AString s \<Rightarrow> Some s | _ \<Rightarrow> None),
     se_toInt64 = \<lambda>a. (case a of ANumber n \<Rightarrow> word_of_int n | _ \<Rightarrow> 0), se_getArrayBuffer = \<lambda>a. None\<rparr>"

definition harmless :: sock_env where
  "harmless = quiet\<lparr>se_js := \<lambda>f arg s. []\<rparr>"

abbreviation connect_to :: "string \<Rightarrow> sock_act" where
  "connect_to h \<equiv> AConnect [AString h, ANumber 80]"

abbreviation connected_run :: "string \<Rightarrow> sock_event list" where
  "connected_run h \<equiv> [Script [connect_to h], Complete 0 (Done_ok []), Handle]"

lemma harmless_safe: "safe_env hold harmless"
  by (simp add: safe_env_def harmless_def quiet_def safe_acts_def)

lemma harmless_script: "safe_act harmless (connect_to h)" "safe_act harmless (AWrite xs)" "safe_act harmless (AOn xs)"
  by (simp_all add: safe_act_def harmless_def quiet_def)

section \<open>Pins\<close>

text \<open>
  C29. Pins keep the socket alive while asio works for it. When no script calls \<open>close\<close>, every
  host that is connected to is an address and every socket can be opened, then after every run a
  socket that is not finalized has a pin for each operation that is in flight or whose handler is
  ready, and a finalized one has none; no assertion fails, nothing is deleted twice, no exception
  leaves a C function, and the only fault there can be is the use of something freed, the socket or
  a listener while it runs. When moreover
  JavaScript keeps a reference on the socket and keeps the functions that it has registered while
  they run, no run has a fault at all.
\<close>

theorem socket_pinned:
  assumes "safe_env hold E" and "list_all (safe_event hold E) evs"
  shows "case sock_run E evs js_socket_constructor of
      Inl f \<Rightarrow> \<not> hold \<and> f = UseAfterFree
    | Inr s \<Rightarrow>
        (if sk_finalized s then \<not> hold \<and> tp_inflight (sk_transport s) = [] \<and> tp_ready (sk_transport s) = []
         else \<not> sk_deleted s \<and>
           int (length (tp_inflight (sk_transport s)) + length (tp_ready (sk_transport s))) \<le> pg_count (sk_pin s))"
proof -
  have "outcome hold 0 True (sock_run E evs js_socket_constructor)"
    using good_run [OF assms good_fresh] .
  then show ?thesis
    by (auto simp: outcome_def good_def live_sock_def dead_sock_def ops_def split: sum.splits)
qed

theorem socket_pinned_witness:
  "\<exists>s. sock_run harmless (connected_run ''h'' @ [Script [AWrite [AString ''x'']]]) js_socket_constructor = Inr s \<and>
     int (length (tp_inflight (sk_transport s))) \<le> pg_count (sk_pin s) \<and> pg_count (sk_pin s) = 2"
proof -
  let ?evs = "connected_run ''h'' @ [Script [AWrite [AString ''x'']]]"
  have "list_all (safe_event True harmless) ?evs"
    by (simp add: safe_event_def safe_acts_def harmless_script)
  note p = socket_pinned [OF harmless_safe this]
  obtain s where s: "sock_run harmless ?evs js_socket_constructor = Inr s"
    using p by (cases "sock_run harmless ?evs js_socket_constructor") simp_all
  have "map_sum id (\<lambda>s. (pg_count (sk_pin s), sk_finalized s)) (sock_run harmless ?evs js_socket_constructor) = Inr (2, False)"
    by code_simp
  with p s show ?thesis by simp
qed

text \<open>
  C30. Life cycle and listeners, in every run without a fault, \<open>close\<close> included: the C++ object is
  deleted exactly when the JavaScript object was finalized and the connection is closed, and it
  has left the registry of the context by then; a finalized object has no listeners and answers
  no method; and the references held on listeners are exactly those of the slots, which is also what
  the collector is told.
\<close>

theorem socket_life_cycle:
  assumes "sock_run E evs js_socket_constructor = Inr s"
  shows "(sk_deleted s \<longleftrightarrow> sk_finalized s \<and> sk_closed s) \<and> (sk_deleted s \<longrightarrow> \<not> sk_sctx s) \<and>
    (sk_finalized s \<longrightarrow> \<not> sk_opaque s \<and> (\<forall>event. emitter_listener (sk_events s) event = None) \<and> (\<forall>v. sk_refs s v = 0)) \<and>
    (\<forall>v. sk_refs s v = int (count_list (slots (sk_events s)) (Some v))) \<and>
    (\<forall>v. sk_refs s v = int (count_list (jsGcMark s) v))"
proof -
  have l: "life_ok s" using life_run [OF life_fresh assms] .
  have none: "emitter_listener (sk_events s) event = None" if "sk_finalized s" for event
  proof (cases "map_of (name_to_index (sk_events s)) event")
    case (Some i)
    then have "i < length (slots (sk_events s))"
      using l emitter_okD(1) by (auto simp: life_ok_def listeners_ok_def)
    with Some l that show ?thesis by (auto simp: life_ok_def emitter_listener_def dest: nth_mem)
  qed (simp add: emitter_listener_def)
  have "count_list (slots (sk_events s)) (Some v) = 0" if "sk_finalized s" for v
    using l that by (auto simp: life_ok_def count_list_0_iff)
  moreover have "count_list (emitter_mark e) v = count_list (slots e) (Some v)" for e v
    by (simp add: emitter_mark_def count_somes)
  ultimately show ?thesis
    using none l by (cases "sk_finalized s") (auto simp: life_ok_def listeners_ok_def slot_refs_def jsGcMark_def)
qed

theorem socket_life_cycle_witness:
  "\<exists>s. sock_run quiet [Script [AOn [AString ''data'', AOther 7], AClose, ADrop]] js_socket_constructor = Inr s \<and>
     sk_refs s 7 = 0 \<and> sk_deleted s \<and> \<not> sk_sctx s"
proof -
  let ?r = "sock_run quiet [Script [AOn [AString ''data'', AOther 7], AClose, ADrop]] js_socket_constructor"
  have d: "map_sum id (\<lambda>s. sk_deleted s) ?r = Inr True" by code_simp
  then obtain s where s: "?r = Inr s" "sk_deleted s" by (cases ?r) auto
  with socket_life_cycle [OF s(1)] show ?thesis by blast
qed

section \<open>Faults\<close>

text \<open>
  A socket that JavaScript no longer refers to is destroyed while its handler runs. After
  \<open>connect\<close>, when the script has dropped the object and the peer ends the connection, the handler
  releases the last pin, the finalizer deletes the socket, and the handler goes on using it.
\<close>

lemma peer_close_use_after_free:
  assumes "se_is_address E h" and "\<forall>s. se_can_open E s" and "se_toCString E (AString h) = Some h"
    and "\<forall>data. ec \<noteq> Done_ok data"
  shows "sock_run E (connected_run h @ [Script [ADrop], Complete 0 ec, Handle]) js_socket_constructor = Inl UseAfterFree"
proof -
  have l: "emitter_listener (EventEmitter_ctor [''connect'', ''data'', ''error'', ''close'']) ev = None" for ev
    by (simp add: EventEmitter_ctor_def emitter_listener_def)
  note d = js_socket_constructor_def socket_registerWith_def TcpSocket_ctor_def startRead_def TcpTransport_ctor_def
    sock_step_def js_socket_connect_def socket_connect_def pin_def transport_connect_def start_op_def take_at_def
    connect_handler_def use_this_def handleConnect_def emit_def l doRead_def JS_FreeObject_def
    read_handler_def handleClose_def handleError_def isPinned_def unpin_def jsFinalizer_def events_finalize_def
    forceRelease_def maybeDestroy_def delete_this_def unregisterFrom_def emitter_finalize_def Let_def
  show ?thesis using assms by (cases ec) (simp_all add: d)
qed

lemma dropped_socket_faults:
  "sock_run quiet (connected_run ''h'' @ [Script [ADrop], Complete 0 (Failed ''End of file''), Handle]) js_socket_constructor =
     Inl UseAfterFree"
  by (rule peer_close_use_after_free) (simp_all add: quiet_def)

definition fault_of :: "'a result \<Rightarrow> fault option" where
  "fault_of r = (case r of Inl f \<Rightarrow> Some f | Inr _ \<Rightarrow> None)"

text \<open>
  \<open>close\<close> releases every pin but leaves the handlers: if the object goes before they have run, the
  handler of the aborted operation uses it after its deletion.
\<close>

lemma close_then_drop_faults:
  "fault_of (sock_run quiet [Script [connect_to ''h'', AClose, ADrop], Handle] js_socket_constructor) = Some UseAfterFree"
  by code_simp

text \<open>
  The same from inside a listener: closing and giving up the socket in the data listener deletes
  it under the handler.
\<close>

lemma close_in_listener_faults:
  "fault_of (sock_run quiet ([Script [AOn [AString ''data'', AOther 8]]] @ connected_run ''h'' @ [Complete 0 (Done_ok [1]), Handle])
     js_socket_constructor) = Some UseAfterFree"
  by code_simp

text \<open>
  A write that has completed when \<open>close\<close> is called releases a pin that is gone: the assertion fails.
  The object is still referenced.
\<close>

lemma close_after_write_asserts:
  "fault_of (sock_run quiet (connected_run ''h'' @
     [Script [AWrite [AString ''x'']], Complete 1 (Done_ok []), Script [AClose], Handle]) js_socket_constructor) = Some AssertionFailed"
  by code_simp

text \<open>A host that is not an address: \<open>make_address\<close> throws through the C function of the binding.\<close>

lemma bad_address_throws:
  "fault_of (sock_run (quiet\<lparr>se_is_address := \<lambda>_. False\<rparr>) [Script [connect_to ''localhost'']] js_socket_constructor) = Some UncaughtException"
  by code_simp

text \<open>
  So does \<open>open\<close> when the process has no descriptor left; the pin of the connection is taken already.
\<close>

lemma no_descriptor_throws:
  "fault_of (sock_run (quiet\<lparr>se_can_open := \<lambda>_. False\<rparr>) [Script [connect_to ''127.0.0.1'']] js_socket_constructor) = Some UncaughtException"
  by code_simp

text \<open>
  A listener that replaces itself, or is removed by registering undefined, is freed while it runs,
  when JavaScript has no other reference on it.
\<close>

definition replacing :: "sarg \<Rightarrow> sock_env" where
  "replacing a = quiet\<lparr>se_js := \<lambda>f arg s. if f = 7 then [AOn [AString ''data'', a]] else [], se_kept := \<lambda>f s. False\<rparr>"

abbreviation replacing_run :: "sock_event list" where
  "replacing_run \<equiv> [Script [AOn [AString ''data'', AOther 7]]] @ connected_run ''h'' @ [Complete 0 (Done_ok [1]), Handle]"

lemma replaced_listener_faults:
  "fault_of (sock_run (replacing (AOther 6)) replacing_run js_socket_constructor) = Some UseAfterFree"
  "fault_of (sock_run (replacing (AOther 0)) replacing_run js_socket_constructor) = Some UseAfterFree"
  by code_simp+

lemma replaced_listener_kept:
  "fault_of (sock_run ((replacing (AOther 6))\<lparr>se_kept := \<lambda>f s. True\<rparr>) replacing_run js_socket_constructor) = None"
  by code_simp

text \<open>
  A connection that fails, and a write that fails, never release their pin: once JavaScript has
  dropped the object, nothing is in flight and it is still pinned.
\<close>

lemma failed_connect_leaks:
  "map_sum id (\<lambda>s. (pg_count (sk_pin s), sk_finalized s, tp_inflight (sk_transport s), tp_ready (sk_transport s)))
     (sock_run harmless [Script [connect_to ''h''], Complete 0 (Failed ''refused''), Handle, Script [ADrop], Collect]
        js_socket_constructor) = Inr (1, False, [], [])"
  by code_simp

text \<open>The port is taken modulo 65536.\<close>

lemma port_wraps:
  "map_sum id (\<lambda>s. tp_inflight (sk_transport s))
     (sock_run quiet [Script [AConnect [AString ''h'', ANumber 65616]]] js_socket_constructor) = Inr [OpConnect ''h'' 80]"
  by code_simp

text \<open>
  \<open>write\<close> asks whether its argument is an Array and then takes it as an ArrayBuffer; an ArrayBuffer
  is not an Array, so only strings can be written, whatever the conversions are.
\<close>

lemma write_rejects_buffers:
  assumes "\<And>n. se_getArrayBuffer E (AArray n) = None" and "sk_opaque s"
  shows "js_socket_write E (AOther v # args) s = (RTypeError ''write() requires ArrayBuffer or string'', s)"
    and "js_socket_write E (AArray n # args) s = (RTypeError ''write() requires ArrayBuffer or string'', s)"
  using assms by (simp_all add: js_socket_write_def)

end
