(* ===== verification/SocketTypes.thy ===== *)
theory SocketTypes
  imports SocketProps
begin

text \<open>
  The methods of a socket as JavaScript sees them: which arguments they take and what they return.
\<close>

section \<open>Conversions that run JavaScript\<close>

text \<open>
  \<open>on\<close> with an event name whose conversion to a string makes the calls \<open>as\<close> on this socket: its
  \<open>toString\<close> runs after the object has been asked for its socket, and the C++ object is used after it.
\<close>

definition js_socket_on_converting :: "sock_env \<Rightarrow> sock_act list \<Rightarrow> sarg list \<Rightarrow> sock \<Rightarrow> (sret \<times> sock) result" where
  "js_socket_on_converting E as argv s =
     (case argv of
        a0 # a1 # _ \<Rightarrow>
          if \<not> sk_opaque s then Inr (RTypeError ''not a Socket'', s)
          else
            bnd (sock_script E as s)
              (\<lambda>s. case se_toCString E a0 of
                 None \<Rightarrow> Inr (RException, s)
               | Some event \<Rightarrow>
                   bnd (use_this s)
                     (\<lambda>s. case socket_on (c_str event) (se_val E a1) s of
                        (Inl _, s) \<Rightarrow> Inr (RTypeError ''unknown event'', s)
                      | (Inr _, s) \<Rightarrow> Inr (RUndefined, s)))
      | _ \<Rightarrow> Inr (RTypeError ''on(event, handler) requires 2 arguments'', s))"

text \<open>
  A script that leaves JavaScript with a reference, and the receiver of a call has one, leaves the
  object with its socket.
\<close>

definition counted :: "sock \<Rightarrow> bool" where
  "counted s \<longleftrightarrow> sk_opaque s \<and> \<not> sk_finalized s \<and> \<not> sk_deleted s \<and> 0 \<le> pg_count (sk_pin s) \<and>
     sk_rc s = int (sk_held s) + of_bool (0 < pg_count (sk_pin s))"

lemma live_counted: "live_sock k s \<Longrightarrow> counted s"
  by (auto simp: live_sock_def counted_def)

lemma counted_pin: "counted s \<Longrightarrow> counted (pin s) \<and> sk_held (pin s) = sk_held s"
  by (auto simp: counted_def pin_def Let_def)

lemma counted_on: "counted s \<Longrightarrow> counted (snd (socket_on ev cb s)) \<and> sk_held (snd (socket_on ev cb s)) = sk_held s"
proof -
  assume c: "counted s"
  obtain r e f where on: "emitter_on ev cb (sk_events s, sk_refs s) = (r, e, f)"
    by (cases "emitter_on ev cb (sk_events s, sk_refs s)") auto
  have "counted (s\<lparr>sk_events := e, sk_refs := f\<rparr>)" using c by (simp add: counted_def)
  then show ?thesis using counted_pin by (fastforce simp: socket_on_def on Let_def)
qed

lemma counted_close:
  assumes "counted s" and "0 < sk_held s" and "socket_close s = Inr s'"
  shows "counted s'"
  using assms
  by (auto simp: socket_close_def forceRelease_def JS_FreeObject_def jsFinalizer_def maybeDestroy_def counted_def
      use_this_def bnd_Inr Let_def split: if_splits)

lemma counted_act:
  assumes "counted s" and "0 < sk_held s" and "do_sock_act E a s = Inr s'" and "0 < sk_held s'"
  shows "counted s'"
proof (cases a)
  case (AOn argv)
  with assms(1,3) counted_on show ?thesis
    by (auto simp: js_socket_on_def split: list.splits option.splits prod.splits sum.splits if_splits)
      (metis snd_conv)+
next
  case AClose
  with assms counted_close show ?thesis by (auto simp: js_socket_close_def bnd_Inr split: if_splits)
next
  case (AWrite argv)
  have "counted (socket_write d s)" for d
    using counted_pin [OF assms(1)] by (simp add: socket_write_def counted_def)
  with AWrite assms(1,3) show ?thesis
    by (auto simp: js_socket_write_def split: list.splits sarg.splits option.splits)
next
  case (AConnect argv)
  have "counted s1" if "socket_connect i c h p s = Inr s1" for i c h p s1
    using counted_pin [OF assms(1)] that by (auto simp: socket_connect_def counted_def Let_def split: sum.splits)
  with AConnect assms(1,3) show ?thesis
    by (auto simp: js_socket_connect_def bnd_Inr split: list.splits sarg.splits option.splits if_splits)
next
  case ADup
  with assms(1,3) show ?thesis by (auto simp: counted_def)
next
  case ADrop
  have "sk_held s' = sk_held s - 1"
    using ADrop assms(1-3) by (auto simp: JS_FreeObject_def jsFinalizer_def forceRelease_def maybeDestroy_def
        delete_this_def unregisterFrom_def bnd_Inr Let_def split: if_splits)
  then have "1 < sk_held s" using assms(4) by simp
  then have "1 < sk_rc s" using assms(1) by (auto simp: counted_def)
  with ADrop assms(1,3) \<open>1 < sk_held s\<close> show ?thesis by (auto simp: JS_FreeObject_def counted_def Let_def)
qed

lemma counted_script:
  "counted s \<Longrightarrow> sock_script E as s = Inr s' \<Longrightarrow> 0 < sk_held s' \<Longrightarrow> counted s'"
proof (induction as arbitrary: s)
  case (Cons a as)
  show ?case
  proof (cases "sk_held s = 0")
    case False
    with Cons.prems(2) obtain s1 where s1: "do_sock_act E a s = Inr s1" "sock_script E as s1 = Inr s'"
      by (auto simp: bnd_Inr)
    have "0 < sk_held s1"
    proof (rule ccontr)
      assume "\<not> 0 < sk_held s1"
      with s1(2) Cons.prems(3) show False by (cases as) auto
    qed
    with Cons.IH [OF counted_act [OF Cons.prems(1) _ s1(1)] s1(2) Cons.prems(3)] False show ?thesis by simp
  qed (use Cons.prems in auto)
qed simp

text \<open>So the calls of the conversion may as well stand in the script before the call that converts.\<close>

lemma on_with_conversion:
  assumes "counted s" and "sock_script E as s = Inr s1" and "0 < sk_held s1"
  shows "js_socket_on_converting E as (a0 # a1 # rest) s = Inr (js_socket_on E (a0 # a1 # rest) s1)"
proof -
  have "counted s1" using counted_script [OF assms] .
  with assms(1,2) show ?thesis
    by (auto simp: js_socket_on_converting_def js_socket_on_def counted_def use_this_def split: option.split prod.split sum.split)
qed

section \<open>Types\<close>

datatype sock_method = MOn | MClose | MWrite | MConnect

text \<open>
  A call of a method from JavaScript, on any object. Of the arguments that are converted only those of
  \<open>on\<close> can be objects, so only there a conversion can make calls.
\<close>

fun call_method :: "sock_env \<Rightarrow> sock_act list \<Rightarrow> sock_method \<Rightarrow> sarg list \<Rightarrow> sock \<Rightarrow> (sret \<times> sock) result" where
  "call_method E as MOn argv s = js_socket_on_converting E as argv s"
| "call_method E as MClose argv s = js_socket_close s"
| "call_method E as MWrite argv s = Inr (js_socket_write E argv s)"
| "call_method E as MConnect argv s = js_socket_connect E argv s"

fun after_conversion :: "sock_env \<Rightarrow> sock_act list \<Rightarrow> sock_method \<Rightarrow> sarg list \<Rightarrow> sock \<Rightarrow> sock result" where
  "after_conversion E as MOn (_ # _ # _) s = (if sk_opaque s then sock_script E as s else Inr s)"
| "after_conversion E as _ _ s = Inr s"

text \<open>
  The arguments that a method takes, once those that are converted to strings have been, and those
  that it does not take. Arguments beyond those are ignored. Of \<open>write\<close> with an object neither is
  said: the code means to take an ArrayBuffer, and does not.
\<close>

fun args_typed :: "sock_env \<Rightarrow> sock_method \<Rightarrow> sarg list \<Rightarrow> bool" where
  "args_typed E MOn (a # _ # _) = (case se_toCString E a of None \<Rightarrow> True | Some ev \<Rightarrow> c_str ev \<in> set socket_events)"
| "args_typed E MClose _ = True"
| "args_typed E MWrite (AString _ # _) = True"
| "args_typed E MConnect (AString _ # ANumber _ # _) = True"
| "args_typed E _ _ = False"

fun args_wrong :: "sock_env \<Rightarrow> sock_method \<Rightarrow> sarg list \<Rightarrow> bool" where
  "args_wrong E MWrite argv = (case argv of [] \<Rightarrow> True | ANumber _ # _ \<Rightarrow> True | _ \<Rightarrow> False)"
| "args_wrong E m argv = (\<not> args_typed E m argv)"

text \<open>The argument whose conversion to a string can throw\<close>

fun converted :: "sock_method \<Rightarrow> sarg list \<Rightarrow> sarg option" where
  "converted MOn (a # _ # _) = Some a"
| "converted MWrite (AString x # _) = Some (AString x)"
| "converted MConnect (AString x # ANumber _ # _) = Some (AString x)"
| "converted _ _ = None"

text \<open>The type of the result: the number of bytes for \<open>write\<close>, undefined for the others.\<close>

fun result_typed :: "sock_method \<Rightarrow> sret \<Rightarrow> bool" where
  "result_typed MWrite r = (\<exists>n. r = RInt64 n \<and> 0 \<le> n)"
| "result_typed _ r = (r = RUndefined)"

definition throws_in :: "sock_env \<Rightarrow> sock_method \<Rightarrow> sarg list \<Rightarrow> bool" where
  "throws_in E m argv = (case converted m argv of None \<Rightarrow> False | Some a \<Rightarrow> se_toCString E a = None)"

section \<open>Each method\<close>

lemma use_this_same: "use_this s = Inr s' \<Longrightarrow> s' = s"
  by (simp add: use_this_def split: if_splits)

lemma socket_on_event:
  assumes "life_ok s"
  shows "isl (fst (socket_on ev cb s)) \<longleftrightarrow> ev \<notin> set socket_events"
    and "ev \<notin> set socket_events \<Longrightarrow> snd (socket_on ev cb s) = s"
proof -
  have n: "name_to_index (sk_events s) = name_to_index (EventEmitter_ctor socket_events)"
    using assms by (simp add: life_ok_def listeners_ok_def)
  have m: "map_of (name_to_index (sk_events s)) ev = None \<longleftrightarrow> ev \<notin> set socket_events"
    by (simp add: n EventEmitter_ctor_def)
  show "isl (fst (socket_on ev cb s)) \<longleftrightarrow> ev \<notin> set socket_events"
    unfolding m [symmetric] by (auto simp: socket_on_def emitter_on_def Let_def split: option.split)
  show "snd (socket_on ev cb s) = s" if "ev \<notin> set socket_events"
    using that m by (auto simp: socket_on_def emitter_on_def Let_def emitter_hasListener_def)
qed

lemma typed_on:
  assumes "life_ok s" and "js_socket_on_converting E as argv s = Inr (r, s')"
  shows "\<exists>s1. after_conversion E as MOn argv s = Inr s1 \<and>
    (if sk_opaque s \<and> args_typed E MOn argv
     then if throws_in E MOn argv then r = RException \<and> s' = s1 else r = RUndefined
     else (\<exists>msg. r = RTypeError msg) \<and> s' = s1)"
proof -
  consider (few) "argv = [] \<or> (\<exists>a. argv = [a])" | (none) "\<not> sk_opaque s" "2 \<le> length argv"
    | (two) a b rest where "argv = a # b # rest" "sk_opaque s"
    by (cases argv; cases "tl argv") auto
  then show ?thesis
  proof cases
    case few
    then show ?thesis using assms(2) by (auto simp: js_socket_on_converting_def)
  next
    case none
    then obtain a b rest where "argv = a # b # rest" by (cases argv; cases "tl argv") auto
    with none assms(2) show ?thesis by (auto simp: js_socket_on_converting_def)
  next
    case (two a b rest)
    then obtain s1 where s1: "sock_script E as s = Inr s1"
      using assms(2) by (auto simp: js_socket_on_converting_def bnd_Inr)
    have l: "life_ok s1" using life_script [OF assms(1) s1] .
    show ?thesis
    proof (cases "se_toCString E a")
      case None
      then show ?thesis using assms(2) two s1 by (simp add: js_socket_on_converting_def throws_in_def)
    next
      case (Some ev)
      obtain x s2 where "socket_on (c_str ev) (se_val E b) s1 = (x, s2)" by (cases "socket_on (c_str ev) (se_val E b) s1")
      then show ?thesis
        using socket_on_event [OF l, of "c_str ev" "se_val E b"] assms(2) two Some s1
        by (cases x) (auto simp: js_socket_on_converting_def throws_in_def bnd_Inr dest!: use_this_same)
    qed
  qed
qed

lemma typed_write:
  assumes "js_socket_write E argv s = (r, s')"
  shows "if sk_opaque s \<and> args_typed E MWrite argv
    then if throws_in E MWrite argv then r = RException \<and> s' = s else \<exists>n. r = RInt64 n \<and> 0 \<le> n
    else \<not> sk_opaque s \<or> args_wrong E MWrite argv \<longrightarrow> (\<exists>msg. r = RTypeError msg) \<and> s' = s"
  using assms
  by (cases "(E, MWrite, argv)" rule: args_typed.cases)
    (auto simp: js_socket_write_def throws_in_def split: option.splits if_splits)

lemma typed_connect:
  assumes "js_socket_connect E argv s = Inr (r, s')"
  shows "if sk_opaque s \<and> args_typed E MConnect argv
    then if throws_in E MConnect argv then r = RException \<and> s' = s else r = RUndefined
    else (\<exists>msg. r = RTypeError msg) \<and> s' = s"
  using assms
  by (cases "(E, MConnect, argv)" rule: args_typed.cases)
    (auto simp: js_socket_connect_def throws_in_def bnd_Inr split: list.splits sarg.splits option.splits if_splits)

lemma connect_throws:
  "js_socket_connect E argv s = Inl f \<Longrightarrow> sk_opaque s \<and> args_typed E MConnect argv \<and> f = UncaughtException"
  by (auto simp: js_socket_connect_def socket_connect_def transport_connect_def bnd_def Let_def
      split: list.splits sarg.splits option.splits if_splits sum.splits)

lemma on_faults:
  "js_socket_on_converting E as argv s = Inl f \<Longrightarrow>
   sk_opaque s \<and> (sock_script E as s = Inl f \<or> (\<exists>s1. sock_script E as s = Inr s1 \<and> sk_deleted s1 \<and> f = UseAfterFree))"
  by (auto simp: js_socket_on_converting_def bnd_def use_this_def split: list.splits option.splits if_splits sum.splits prod.splits)

text \<open>
  C31. The methods of a socket are typed, in every state that a run reaches. A call on a socket with
  arguments of the types that the method takes returns a value of its result type, or the exception
  of the conversion of an argument; any other call, on an object that is no socket or with arguments
  of other types, returns a type error. (Of \<open>write\<close> with an object nothing is said.) A call that
  returns an exception or a type error has done nothing to the socket but what JavaScript did that
  the conversion has run: the calls \<open>as\<close>, which only \<open>on\<close> can make, because the other methods convert
  only strings and numbers. A call has no result only for \<open>close\<close>, for a \<open>connect\<close> with arguments of the
  right types, which throws, and for \<open>on\<close> when those calls have a fault or have deleted the socket.
\<close>

theorem socket_methods_typed:
  assumes "sock_run E0 evs js_socket_constructor = Inr s"
  shows "case call_method E as m argv s of
      Inl f \<Rightarrow> sk_opaque s \<and>
        (m = MClose \<or> m = MConnect \<and> args_typed E m argv \<and> f = UncaughtException \<or>
         m = MOn \<and> (sock_script E as s = Inl f \<or>
           (\<exists>s1. sock_script E as s = Inr s1 \<and> sk_deleted s1 \<and> f = UseAfterFree)))
    | Inr (r, s') \<Rightarrow>
        (\<exists>s1. after_conversion E as m argv s = Inr s1 \<and>
          (if sk_opaque s \<and> args_typed E m argv
           then if throws_in E m argv then r = RException \<and> s' = s1 else result_typed m r
           else \<not> sk_opaque s \<or> args_wrong E m argv \<longrightarrow> (\<exists>msg. r = RTypeError msg) \<and> s' = s1))"
proof -
  have l: "life_ok s" using life_run [OF life_fresh assms] .
  show ?thesis
  proof (cases m)
    case MOn
    show ?thesis
    proof (cases "js_socket_on_converting E as argv s")
      case (Inl f)
      then show ?thesis using MOn on_faults [of E as argv s f] by simp
    next
      case (Inr p)
      obtain r s' where p: "p = (r, s')" by (cases p)
      from typed_on [OF l Inr [unfolded p]] obtain s1 where "after_conversion E as MOn argv s = Inr s1"
        "if sk_opaque s \<and> args_typed E MOn argv
         then if throws_in E MOn argv then r = RException \<and> s' = s1 else r = RUndefined
         else (\<exists>msg. r = RTypeError msg) \<and> s' = s1" by blast
      then show ?thesis using MOn Inr p by (intro sum.split [THEN iffD2]) auto
    qed
  next
    case MClose
    then show ?thesis by (cases "js_socket_close s")
        (auto simp: js_socket_close_def throws_in_def bnd_Inr split: if_splits)
  next
    case MWrite
    then show ?thesis using typed_write [of E argv s] by (auto split: prod.split)
  next
    case MConnect
    then show ?thesis using typed_connect [of E argv s] connect_throws [of E argv s] by (auto split: sum.split prod.split)
  qed
qed

text \<open>An unknown event, and a name whose conversion registers a data listener and then throws.\<close>

theorem socket_methods_typed_witness:
  "(\<exists>msg. js_socket_on_converting quiet [] [AString ''end'', AOther 7] js_socket_constructor =
      Inr (RTypeError msg, js_socket_constructor)) \<and>
   (\<exists>s1. sock_script quiet [AOn [AString ''data'', AOther 6]] js_socket_constructor = Inr s1 \<and>
      js_socket_on_converting quiet [AOn [AString ''data'', AOther 6]] [AOther 9, AOther 7] js_socket_constructor =
        Inr (RException, s1))"
proof -
  let ?as = "[AOn [AString ''data'', AOther 6]]"
  have r: "sock_run quiet [] js_socket_constructor = Inr js_socket_constructor" by simp
  have v: "\<not> isl (js_socket_on_converting quiet [] [AString ''end'', AOther 7] js_socket_constructor)"
    "\<not> isl (js_socket_on_converting quiet ?as [AOther 9, AOther 7] js_socket_constructor)" "sk_opaque js_socket_constructor"
    by code_simp+
  have a: "args_wrong quiet MOn [AString ''end'', AOther 7]" "\<not> args_typed quiet MOn [AString ''end'', AOther 7]"
    "args_typed quiet MOn [AOther 9, AOther 7]" "throws_in quiet MOn [AOther 9, AOther 7]"
    by (simp_all add: quiet_def throws_in_def c_str_def)
  from socket_methods_typed [OF r, where E = quiet and as = "[]" and m = MOn and argv = "[AString ''end'', AOther 7]"]
    socket_methods_typed [OF r, where E = quiet and as = ?as and m = MOn and argv = "[AOther 9, AOther 7]"] v a
  show ?thesis by (auto split: sum.splits)
qed

end
