(* ===== verification/SocketOrder.thy ===== *)
theory SocketOrder
  imports SocketProps "HOL-Library.Sublist"
begin

text \<open>
  The order in which a socket calls its listeners: what a stream promises, whatever the scripts do in
  between, as long as they connect once.
\<close>

section \<open>What the order depends on\<close>

fun is_read :: "net_op \<Rightarrow> bool" where
  "is_read OpRead = True"
| "is_read _ = False"

fun is_connect :: "net_op \<Rightarrow> bool" where
  "is_connect (OpConnect _ _) = True"
| "is_connect _ = False"

definition pending :: "(net_op \<Rightarrow> bool) \<Rightarrow> transport \<Rightarrow> nat" where
  "pending P t = length (filter P (tp_inflight t)) + length (filter P (map fst (tp_ready t)))"

abbreviation reads :: "sock \<Rightarrow> nat" where
  "reads s \<equiv> pending is_read (sk_transport s)"

abbreviation connects :: "sock \<Rightarrow> nat" where
  "connects s \<equiv> pending is_connect (sk_transport s)"

text \<open>Nothing of it changes.\<close>

definition same_order :: "sock \<Rightarrow> sock \<Rightarrow> bool" where
  "same_order s s' \<longleftrightarrow> sk_calls s' = sk_calls s \<and> reads s' = reads s \<and> connects s' = connects s \<and>
     (tp_connected (sk_transport s') \<longrightarrow> tp_connected (sk_transport s))"

lemma same_refl [simp]: "same_order s s"
  by (simp add: same_order_def)

lemma same_trans [trans]: "same_order s s1 \<Longrightarrow> same_order s1 s2 \<Longrightarrow> same_order s s2"
  by (simp add: same_order_def)

lemma same_frame: "sk_calls s' = sk_calls s \<Longrightarrow> sk_transport s' = sk_transport s \<Longrightarrow> same_order s s'"
  by (simp add: same_order_def)

lemma pending_abort [simp]: "pending P (abort_all t) = pending P t"
  by (simp add: pending_def abort_all_def comp_def)

lemma same_cancel: "same_order s (on_transport transport_cancel s)"
  by (simp add: same_order_def transport_cancel_def) (simp add: abort_all_def)

lemma same_close: "same_order s (on_transport transport_close s)"
  by (simp add: same_order_def transport_close_def Let_def pending_def abort_all_def comp_def)

lemma same_delete: "delete_this s = Inr s' \<Longrightarrow> same_order s s'"
  using same_close [of s] by (auto simp: delete_this_def same_order_def split: if_splits)

lemma same_maybeDestroy: "maybeDestroy s = Inr s' \<Longrightarrow> same_order s s'"
  using same_delete [of "unregisterFrom s" s'] same_frame [of "unregisterFrom s" s]
  by (auto simp: maybeDestroy_def unregisterFrom_def intro: same_trans split: if_splits)

lemma same_finalizer:
  assumes "jsFinalizer s = Inr s'"
  shows "same_order s s'"
proof (cases "sk_opaque s")
  case True
  let ?f = "(events_finalize s)\<lparr>sk_finalized := True, sk_opaque := False\<rparr>"
  have f: "same_order s ?f" by (rule same_frame) simp_all
  from assms True have "(if sk_closed ?f then maybeDestroy ?f else Inr (on_transport transport_cancel ?f)) = Inr s'"
    by (auto simp: jsFinalizer_def forceRelease_def Let_def split: if_splits)
  then have "same_order ?f s'"
    using same_maybeDestroy [of ?f s'] same_cancel [of ?f] by (auto split: if_splits)
  with f show ?thesis by (rule same_trans)
qed (use assms in \<open>simp add: jsFinalizer_def\<close>)

lemma same_free: "JS_FreeObject s = Inr s' \<Longrightarrow> same_order s s'"
  using same_finalizer [of "s\<lparr>sk_rc := 0\<rparr>" s'] same_frame [of "s\<lparr>sk_rc := 0\<rparr>" s]
    same_frame [of "s\<lparr>sk_rc := sk_rc s - 1\<rparr>" s]
  by (auto simp: JS_FreeObject_def Let_def intro: same_trans split: if_splits)

lemma same_force: "forceRelease JS_FreeObject s = Inr s' \<Longrightarrow> same_order s s'"
  using same_free [of s] by (auto simp: forceRelease_def bnd_Inr use_this_def same_order_def split: if_splits)

lemma same_unpin:
  assumes "unpin s = Inr s'"
  shows "same_order s s'"
proof -
  let ?s = "s\<lparr>sk_pin := (sk_pin s)\<lparr>pg_count := pg_count (sk_pin s) - 1\<rparr>\<rparr>"
  have "same_order s ?s" by (rule same_frame) simp_all
  moreover have "same_order ?s s'"
    using assms same_free [of ?s]
    by (auto simp: unpin_def Let_def bnd_Inr use_this_def same_order_def split: if_splits)
  ultimately show ?thesis by (rule same_trans)
qed

lemma same_pin: "same_order s (pin s)"
  by (rule same_frame) (simp_all add: pin_def Let_def)

section \<open>Scripts\<close>

text \<open>Scripts call no listener and start no read; \<open>connect\<close> starts the connection.\<close>

definition is_AConnect :: "sock_act \<Rightarrow> bool" where
  "is_AConnect a = (case a of AConnect _ \<Rightarrow> True | _ \<Rightarrow> False)"

definition after_script :: "nat \<Rightarrow> sock \<Rightarrow> sock \<Rightarrow> bool" where
  "after_script k s s' \<longleftrightarrow> sk_calls s' = sk_calls s \<and> reads s' = reads s \<and> connects s' \<le> connects s + k \<and>
     (tp_connected (sk_transport s') \<longrightarrow> tp_connected (sk_transport s))"

lemma same_after: "same_order s s' \<Longrightarrow> after_script k s s'"
  by (simp add: same_order_def after_script_def)

lemma after_trans: "after_script k s s1 \<Longrightarrow> after_script m s1 s2 \<Longrightarrow> after_script (k + m) s s2"
  by (auto simp: after_script_def)

lemma same_on: "same_order s (snd (js_socket_on E argv s))"
proof -
  have "same_order s (snd (socket_on ev cb s))" for ev cb
    by (rule same_frame) (auto simp: socket_on_def Let_def pin_def split: prod.split)
  then show ?thesis
    by (auto simp: js_socket_on_def split: list.split option.split prod.splits sum.splits) (metis snd_conv)+
qed

lemma same_write: "same_order s (snd (js_socket_write E argv s))"
proof -
  have "same_order s (socket_write d s)" for d
    using same_pin [of s]
    by (simp add: same_order_def socket_write_def transport_write_def start_op_def pending_def)
  then show ?thesis by (auto simp: js_socket_write_def split: list.split sarg.split option.split)
qed

lemma after_connect: "js_socket_connect E argv s = Inr (r, s') \<Longrightarrow> after_script 1 s s'"
  using same_pin [of s]
  by (auto simp: js_socket_connect_def socket_connect_def transport_connect_def bnd_Inr after_script_def same_order_def
      start_op_def pending_def Let_def split: list.splits sarg.splits option.splits if_splits sum.splits)

lemma same_js_close:
  assumes "js_socket_close s = Inr (r, s')"
  shows "same_order s s'"
proof (cases "sk_opaque s")
  case True
  with assms obtain s1 where s1: "forceRelease JS_FreeObject s = Inr s1"
    and d: "maybeDestroy ((on_transport (\<lambda>t. transport_close (transport_cancel t)) s1)\<lparr>sk_closed := True\<rparr>) = Inr s'"
    by (auto simp: js_socket_close_def socket_close_def bnd_Inr Let_def)
  have "same_order s1 (on_transport transport_cancel s1)" by (rule same_cancel)
  moreover have "same_order (on_transport transport_cancel s1) (on_transport (\<lambda>t. transport_close (transport_cancel t)) s1)"
    using same_close [of "on_transport transport_cancel s1"] by simp
  ultimately have "same_order s1 (on_transport (\<lambda>t. transport_close (transport_cancel t)) s1)" by (rule same_trans)
  with same_maybeDestroy [OF d] have "same_order s1 s'" by (simp add: same_order_def)
  with same_force [OF s1] show ?thesis by (rule same_trans)
qed (use assms in \<open>simp add: js_socket_close_def\<close>)

lemma after_act:
  assumes "do_sock_act E a s = Inr s'"
  shows "after_script (of_bool (is_AConnect a)) s s'"
proof (cases a)
  case ADrop
  have "same_order s (s\<lparr>sk_held := sk_held s - 1\<rparr>)" by (rule same_frame) simp_all
  moreover have "same_order (s\<lparr>sk_held := sk_held s - 1\<rparr>) s'" using assms ADrop same_free by simp
  ultimately show ?thesis by (blast intro: same_trans same_after)
next
  case ADup
  then have "same_order s s'" using assms by (intro same_frame) auto
  then show ?thesis by (rule same_after)
next
  case (AConnect argv)
  then show ?thesis using assms after_connect [of E argv s] by (auto simp: bnd_Inr is_AConnect_def)
next
  case AClose
  then show ?thesis using assms same_js_close [of s] by (auto simp: bnd_Inr intro: same_after)
next
  case (AOn argv)
  then show ?thesis using assms same_on [of s E argv] by (auto intro: same_after)
next
  case (AWrite argv)
  then show ?thesis using assms same_write [of s E argv] by (auto intro: same_after)
qed

lemma after_sock_script:
  "sock_script E as s = Inr s' \<Longrightarrow> after_script (length (filter is_AConnect as)) s s'"
proof (induction as arbitrary: s)
  case (Cons a as)
  show ?case
  proof (cases "sk_held s = 0")
    case True
    then show ?thesis using Cons.prems by (auto intro: same_after)
  next
    case False
    then obtain s1 where s1: "do_sock_act E a s = Inr s1" "sock_script E as s1 = Inr s'"
      using Cons.prems by (auto simp: bnd_Inr)
    from after_trans [OF after_act [OF s1(1)] Cons.IH [OF s1(2)]] show ?thesis by (simp add: of_bool_def split: if_splits)
  qed
qed (auto intro: same_after)

section \<open>Listener calls\<close>

definition connects_once :: "sock_env \<Rightarrow> bool" where
  "connects_once E \<longleftrightarrow> (\<forall>f arg s. list_all (\<lambda>a. \<not> is_AConnect a) (se_js E f arg s))"

definition connect_acts :: "sock_event \<Rightarrow> nat" where
  "connect_acts ev = (case ev of Script as \<Rightarrow> length (filter is_AConnect as) | _ \<Rightarrow> 0)"

text \<open>The names of the events, without errors, and a piece of code that fires at most the events \<open>w\<close>.\<close>

definition event_names :: "sock \<Rightarrow> string list" where
  "event_names s = filter (\<lambda>x. x \<noteq> ''error'') (map fst (sk_calls s))"

definition fires :: "string list \<Rightarrow> sock \<Rightarrow> sock \<Rightarrow> bool" where
  "fires w s s' \<longleftrightarrow> (event_names s' = event_names s \<or> event_names s' = event_names s @ w) \<and>
     reads s' = reads s \<and> connects s' \<le> connects s"

lemma fires_refl [simp]: "fires w s s"
  by (simp add: fires_def)

lemma fires_frame: "event_names s' = event_names s \<Longrightarrow> sk_transport s' = sk_transport s \<Longrightarrow> fires w s s'"
  by (simp add: fires_def)

lemma fires_trans: "fires [] s s1 \<Longrightarrow> fires w s1 s2 \<Longrightarrow> fires w s s2"
  by (auto simp: fires_def)

lemma fires_trans2: "fires w s s1 \<Longrightarrow> fires [] s1 s2 \<Longrightarrow> fires w s s2"
  by (auto simp: fires_def)

lemma same_fires: "same_order s s' \<Longrightarrow> fires w s s'"
  by (simp add: same_order_def fires_def event_names_def)

lemma event_names_simps [simp]:
  "event_names (s\<lparr>sk_transport := t\<rparr>) = event_names s" "event_names (s\<lparr>sk_closed := b\<rparr>) = event_names s"
  "event_names (s\<lparr>sk_held := n, sk_rc := r\<rparr>) = event_names s"
  by (simp_all add: event_names_def)

lemma use_this_Inr: "use_this s = Inr s' \<Longrightarrow> s' = s"
  by (simp add: use_this_def split: if_splits)

lemma fires_emit:
  assumes "connects_once E" and "emit E event arg s = Inr s'"
  shows "fires (filter (\<lambda>x. x \<noteq> ''error'') [event]) s s'"
proof (cases "emitter_listener (sk_events s) event")
  case (Some f)
  have "sock_script E (se_js E f arg (s\<lparr>sk_calls := sk_calls s @ [(event, arg)]\<rparr>))
      (s\<lparr>sk_calls := sk_calls s @ [(event, arg)]\<rparr>) = Inr s'"
    using assms(2) Some by (intro call_listener_Inr) (simp add: emit_def)
  moreover have "filter is_AConnect (se_js E f arg (s\<lparr>sk_calls := sk_calls s @ [(event, arg)]\<rparr>)) = []"
    using assms(1) by (auto simp: connects_once_def list_all_iff filter_empty_conv)
  ultimately have "after_script 0 (s\<lparr>sk_calls := sk_calls s @ [(event, arg)]\<rparr>) s'"
    using after_sock_script by fastforce
  then show ?thesis by (simp add: after_script_def fires_def event_names_def)
qed (use assms(2) in \<open>simp add: emit_def\<close>)

lemma fires_handlers:
  assumes "connects_once E"
  shows "handleConnect E s = Inr s' \<Longrightarrow> fires [''connect''] s s'"
    and "handleData E data s = Inr s' \<Longrightarrow> fires [''data''] s s'"
    and "handleError E err s = Inr s' \<Longrightarrow> fires [] s s'"
  using fires_emit [OF assms, of "''connect''"] fires_emit [OF assms, of "''data''"] fires_emit [OF assms, of "''error''"]
  by (auto simp: handleConnect_def handleData_def handleError_def bnd_Inr dest!: use_this_Inr split: if_splits)

lemma fires_handleClose:
  assumes "connects_once E" and "handleClose E s = Inr s'"
  shows "fires [''close''] s s'"
proof -
  let ?s = "s\<lparr>sk_closed := True\<rparr>"
  obtain s1 s2 where 1: "(if isPinned ?s then unpin ?s else Inr ?s) = Inr s1"
    and 2: "(if \<not> sk_finalized s1 then bnd (emit E ''close'' NoArg s1) use_this else Inr s1) = Inr s2"
    and 3: "maybeDestroy s2 = Inr s'"
    using assms(2) by (auto simp: handleClose_def Let_def bnd_Inr dest!: use_this_Inr)
  have "fires [] s ?s" by (rule fires_frame) simp_all
  also have "fires [] ?s s1" using 1 same_unpin [of ?s s1] by (auto intro: same_fires split: if_splits)
  finally (fires_trans) have "fires [] s s1" .
  moreover have "fires [''close''] s1 s2"
    using 2 fires_emit [OF assms(1), of "''close''" NoArg s1 s2]
    by (auto simp: bnd_Inr dest!: use_this_Inr split: if_splits)
  ultimately have "fires [''close''] s s2" by (rule fires_trans)
  with same_fires [OF same_maybeDestroy [OF 3]] show ?thesis by (rule fires_trans2 [rotated])
qed

section \<open>Phases\<close>

text \<open>
  A socket that may still connect, at most \<open>b\<close> times by scripts to come; one that reads, with \<open>r\<close>
  reads at most; and one whose close listener was called, if it has one.
\<close>

abbreviation stream :: "nat \<Rightarrow> string list" where
  "stream n \<equiv> ''connect'' # replicate n ''data''"

definition fresh_sock :: "nat \<Rightarrow> sock \<Rightarrow> bool" where
  "fresh_sock b s \<longleftrightarrow> event_names s = [] \<and> reads s = 0 \<and> connects s + b \<le> 1"

definition streaming :: "nat \<Rightarrow> sock \<Rightarrow> bool" where
  "streaming r s \<longleftrightarrow> (\<exists>n. subseq (event_names s) (stream n)) \<and> reads s \<le> r \<and> connects s = 0"

definition ended :: "sock \<Rightarrow> bool" where
  "ended s \<longleftrightarrow> (\<exists>n. subseq (event_names s) (stream n @ [''close''])) \<and> reads s = 0 \<and> connects s = 0"

definition order_ok :: "nat \<Rightarrow> sock \<Rightarrow> bool" where
  "order_ok b s \<longleftrightarrow> fresh_sock b s \<or> b = 0 \<and> (streaming 1 s \<or> ended s)"

lemma streaming_mono: "streaming r s \<Longrightarrow> r \<le> r' \<Longrightarrow> streaming r' s"
  by (auto simp: streaming_def)

lemma phase_quiet:
  assumes "fires [] s s'"
  shows "fresh_sock b s \<Longrightarrow> fresh_sock b s'" and "streaming r s \<Longrightarrow> streaming r s'" and "ended s \<Longrightarrow> ended s'"
    and "order_ok b s \<Longrightarrow> order_ok b s'"
proof -
  show f: "fresh_sock b s \<Longrightarrow> fresh_sock b s'" for b using assms by (auto simp: fires_def fresh_sock_def)
  show t: "streaming r s \<Longrightarrow> streaming r s'" for r using assms by (auto simp: fires_def streaming_def)
  show e: "ended s \<Longrightarrow> ended s'" using assms by (auto simp: fires_def ended_def)
  show "order_ok b s \<Longrightarrow> order_ok b s'" using f t e by (auto simp: order_ok_def)
qed

lemma phase_connect: "fires [''connect''] s s' \<Longrightarrow> fresh_sock b s \<Longrightarrow> connects s = 0 \<Longrightarrow> streaming 0 s'"
  by (auto simp: fires_def fresh_sock_def streaming_def intro: exI [of _ 0])

lemma stream_data:
  assumes "subseq xs (stream n)"
  shows "\<exists>m. subseq (xs @ [''data'']) (stream m)"
proof -
  have "subseq (xs @ [''data'']) (stream n @ [''data''])" using assms by (rule list_emb_append_mono) simp
  moreover have "stream n @ [''data''] = stream (Suc n)" by (simp add: replicate_append_same)
  ultimately show ?thesis by metis
qed

lemma phase_data: "fires [''data''] s s' \<Longrightarrow> streaming r s \<Longrightarrow> streaming r s'"
  using stream_data [of "event_names s"] by (auto simp: fires_def streaming_def)

lemma phase_close:
  assumes "fires [''close''] s s'" and "streaming 0 s"
  shows "ended s'"
proof -
  obtain n where n: "subseq (event_names s) (stream n)" using assms(2) by (auto simp: streaming_def)
  have "subseq (event_names s) (stream n @ [''close''])" using list_emb_append_mono [OF n, of "[]" "[''close'']"] by simp
  moreover have "subseq (event_names s @ [''close'']) (stream n @ [''close''])"
    using n by (rule list_emb_append_mono) simp
  ultimately show ?thesis using assms by (auto simp: fires_def ended_def streaming_def)
qed

lemma phase_doRead: "streaming 0 s \<Longrightarrow> streaming 1 (on_transport doRead s)"
  by (auto simp: streaming_def doRead_def start_op_def pending_def)

lemma phase_script: "order_ok (b + k) s \<Longrightarrow> after_script k s s' \<Longrightarrow> order_ok b s'"
  by (auto simp: order_ok_def after_script_def fresh_sock_def streaming_def ended_def event_names_def)

section \<open>Handlers and runs\<close>

lemma order_connect:
  assumes "connects_once E" and "fresh_sock 0 s" and "connects s = 0" and "connect_handler E r s = Inr s'"
  shows "order_ok 0 s'"
proof -
  note h = fires_handlers [OF assms(1)]
  show ?thesis
  proof (cases r)
    case (Done_ok d)
    let ?s = "on_transport (\<lambda>t. t\<lparr>tp_connected := True\<rparr>) s"
    have "bnd (handleConnect E ?s) (\<lambda>s. if tp_reading (sk_transport s) then Inr (on_transport doRead s) else Inr s) = Inr s'"
      using Done_ok assms(4) by (cases "use_this s") (auto simp: connect_handler_def dest: use_this_Inr)
    then obtain s1 where s1: "handleConnect E ?s = Inr s1"
      and s1': "(if tp_reading (sk_transport s1) then Inr (on_transport doRead s1) else Inr s1) = (Inr s' :: sock result)"
      unfolding bnd_Inr by blast
    have s': "s' = s1 \<or> s' = on_transport doRead s1" using s1' by (simp split: if_splits)
    have "pending P (sk_transport ?s) = pending P (sk_transport s)" for P by (simp add: pending_def)
    then have "fresh_sock 0 ?s" "connects ?s = 0" using assms(2,3) by (simp_all add: fresh_sock_def)
    then have "streaming 0 s1" by (rule phase_connect [OF h(1) [OF s1]])
    then show ?thesis using s' phase_doRead [of s1] streaming_mono [of 0 s1 1] by (auto simp: order_ok_def)
  next
    case Aborted
    then have "fires [] s s'" using assms(4) h(3) by (auto simp: connect_handler_def bnd_Inr dest!: use_this_Inr)
    from phase_quiet(1) [OF this assms(2)] show ?thesis by (simp add: order_ok_def)
  next
    case (Failed m)
    then have "fires [] s s'" using assms(4) h(3) by (auto simp: connect_handler_def bnd_Inr dest!: use_this_Inr)
    from phase_quiet(1) [OF this assms(2)] show ?thesis by (simp add: order_ok_def)
  qed
qed

lemma order_close:
  assumes "connects_once E" and "streaming 0 s" and "(if b then handleClose E s else Inr s) = Inr s'"
  shows "order_ok 0 s'"
proof (cases b)
  case True
  then show ?thesis using phase_close [OF fires_handleClose [OF assms(1)] assms(2)] assms(3) by (simp add: order_ok_def)
next
  case False
  then show ?thesis using assms(2,3) streaming_mono [of 0 s 1] by (simp add: order_ok_def)
qed

lemma order_read:
  assumes "connects_once E" and "streaming 0 s" and "read_handler E r s = Inr s'"
  shows "order_ok 0 s'"
proof -
  note h = fires_handlers [OF assms(1)]
  let ?cb = "tp_callbacks (sk_transport s)"
  let ?s = "on_transport (\<lambda>t. t\<lparr>tp_reading := False\<rparr>) s"
  have here: "use_this s = Inr s"
    using assms(3) by (auto simp: read_handler_def use_this_def split: if_splits)
  have off: "streaming 0 ?s" using assms(2) by (simp add: streaming_def pending_def)
  show ?thesis
  proof (cases r)
    case (Done_ok d)
    have "bnd (if ?cb then handleData E d s else Inr s) (\<lambda>s. bnd (use_this s)
        (\<lambda>s. if tp_reading (sk_transport s) \<and> tp_connected (sk_transport s) then Inr (on_transport doRead s) else Inr s)) = Inr s'"
      using Done_ok assms(3) here by (simp add: read_handler_def Let_def)
    then obtain s1 where s1: "(if ?cb then handleData E d s else Inr s) = Inr s1"
      and s1': "bnd (use_this s1)
        (\<lambda>s. if tp_reading (sk_transport s) \<and> tp_connected (sk_transport s) then Inr (on_transport doRead s) else Inr s) = Inr s'"
      unfolding bnd_Inr by blast
    have s': "s' = s1 \<or> s' = on_transport doRead s1"
      using s1' by (cases "use_this s1") (auto dest: use_this_Inr split: if_splits)
    have "fires [''data''] s s1" using s1 h(2) [of d s s1] by (auto split: if_splits)
    then have "streaming 0 s1" using assms(2) by (rule phase_data)
    then show ?thesis using s' phase_doRead [of s1] streaming_mono [of 0 s1 1] by (auto simp: order_ok_def)
  next
    case Aborted
    then have "(if ?cb then handleClose E ?s else Inr ?s) = Inr s'"
      using assms(3) here by (simp add: read_handler_def Let_def)
    then show ?thesis by (rule order_close [OF assms(1) off])
  next
    case (Failed m)
    have "bnd (if ?cb then handleError E m ?s else Inr ?s) (\<lambda>s. bnd (use_this s)
        (\<lambda>s. if tp_callbacks (sk_transport s) then handleClose E s else Inr s)) = Inr s'"
      using Failed assms(3) here by (simp add: read_handler_def Let_def)
    then obtain s1 where s1: "(if ?cb then handleError E m ?s else Inr ?s) = Inr s1"
      and s1': "bnd (use_this s1) (\<lambda>s. if tp_callbacks (sk_transport s) then handleClose E s else Inr s) = Inr s'"
      unfolding bnd_Inr by blast
    have s': "(if tp_callbacks (sk_transport s1) then handleClose E s1 else Inr s1) = Inr s'"
      using s1' by (cases "use_this s1") (auto dest: use_this_Inr)
    have "fires [] ?s s1" using s1 h(3) [of m ?s s1] by (auto split: if_splits)
    from phase_quiet(2) [OF this off] s' show ?thesis by (intro order_close [OF assms(1)])
  qed
qed

lemma fires_write:
  assumes "connects_once E" and "write_handler E r s = Inr s'"
  shows "fires [] s s'"
  using assms(2) fires_handlers(3) [OF assms(1)] same_fires [OF same_unpin]
  by (cases r; cases "use_this s") (auto simp: write_handler_def dest: use_this_Inr)

lemma order_handle:
  assumes "connects_once E" and "order_ok b s" and "sock_step E Handle s = Inr s'"
  shows "order_ok b s'"
proof (cases "tp_ready (sk_transport s)")
  case (Cons x rest)
  obtain op r where x: "x = (op, r)" by (cases x)
  let ?s = "on_transport (\<lambda>t. t\<lparr>tp_ready := rest\<rparr>) s"
  have run: "run_handler_of E op r ?s = Inr s'" using assms(3) Cons x by (simp add: sock_step_def)
  have p: "pending P (sk_transport s) = of_bool (P op) + pending P (sk_transport ?s)" for P
    using Cons x by (simp add: pending_def)
  have n: "event_names ?s = event_names s" by simp
  show ?thesis
  proof (cases op)
    case (OpConnect host port)
    then have "fresh_sock 0 ?s" "connects ?s = 0" "b = 0" using assms(2) p [of is_connect] p [of is_read] n
      by (auto simp: order_ok_def fresh_sock_def streaming_def ended_def)
    then show ?thesis using order_connect [OF assms(1)] run OpConnect by simp
  next
    case OpRead
    then have "streaming 0 ?s" "b = 0" using assms(2) p [of is_connect] p [of is_read] n
      by (auto simp: order_ok_def fresh_sock_def streaming_def ended_def)
    then show ?thesis using order_read [OF assms(1)] run OpRead by simp
  next
    case (OpWrite d)
    then have "order_ok b ?s" using assms(2) p [of is_connect] p [of is_read] n
      by (auto simp: order_ok_def fresh_sock_def streaming_def ended_def)
    moreover have "fires [] ?s s'" using fires_write [OF assms(1)] run OpWrite by simp
    ultimately show ?thesis by (rule phase_quiet(4) [rotated])
  qed
qed (use assms in \<open>simp add: sock_step_def\<close>)

lemma filter_take_at: "k < length xs \<Longrightarrow> length (filter P (take_at k xs)) + of_bool (P (xs ! k)) = length (filter P xs)"
  by (subst (3) id_take_nth_drop [of k xs]) (simp_all add: take_at_def)

lemma order_step:
  assumes "connects_once E" and "order_ok (b + connect_acts ev) s" and "sock_step E ev s = Inr s'"
  shows "order_ok b s'"
proof (cases ev)
  case (Script as)
  then show ?thesis using assms(2,3) phase_script [of b "connect_acts ev" s s'] after_sock_script [of E as s s']
    by (simp add: sock_step_def connect_acts_def)
next
  case (Complete k r)
  have "fires [] s s'"
    using assms(3) Complete filter_take_at [of k "tp_inflight (sk_transport s)" is_read]
      filter_take_at [of k "tp_inflight (sk_transport s)" is_connect]
    by (auto simp: sock_step_def Let_def fires_def pending_def split: if_splits)
  then show ?thesis using assms(2) Complete phase_quiet(4) by (simp add: connect_acts_def)
next
  case Handle
  then show ?thesis using order_handle [OF assms(1), of b s s'] assms(2,3) by (simp add: connect_acts_def)
next
  case Collect
  let ?s = "s\<lparr>sk_held := 0, sk_rc := 0\<rparr>"
  have "fires [] s ?s" by (rule fires_frame) (simp_all add: event_names_def)
  moreover have "fires [] ?s s'" if "jsFinalizer ?s = Inr s'" using same_fires [OF same_finalizer [OF that]] .
  ultimately have "fires [] s s'" using assms(3) Collect by (auto simp: sock_step_def intro: fires_trans split: if_splits)
  then show ?thesis using assms(2) Collect phase_quiet(4) by (simp add: connect_acts_def)
qed

lemma order_run:
  assumes "connects_once E"
  shows "order_ok (sum_list (map connect_acts evs)) s \<Longrightarrow> sock_run E evs s = Inr s' \<Longrightarrow> order_ok 0 s'"
proof (induction evs arbitrary: s)
  case (Cons ev evs)
  obtain s1 where s1: "sock_step E ev s = Inr s1" "sock_run E evs s1 = Inr s'"
    using Cons.prems(2) by (auto simp: bnd_Inr)
  have "order_ok (sum_list (map connect_acts evs)) s1"
    using order_step [OF assms _ s1(1)] Cons.prems(1) by (simp add: add.commute)
  then show ?case using s1(2) by (rule Cons.IH)
qed simp

lemma order_fresh: "b \<le> 1 \<Longrightarrow> order_ok b js_socket_constructor"
  by (simp add: order_ok_def fresh_sock_def event_names_def js_socket_constructor_def socket_registerWith_def
      TcpSocket_ctor_def startRead_def TcpTransport_ctor_def pending_def Let_def)

text \<open>
  C32. The order of events on a stream. When the scripts connect at most once, and not from a
  listener, then in every run without a fault, whatever else the scripts do and in whatever order
  operations end, the connect listener is called at most once and before any data, the close
  listener at most once and after all data, and nothing but an error comes after the close:
  without the errors, the calls are a subsequence of one connect, some data and one close.
\<close>

theorem socket_event_order:
  assumes "\<forall>f arg s. list_all (\<lambda>a. \<not> is_AConnect a) (se_js E f arg s)"
    and "(\<Sum>ev\<leftarrow>evs. connect_acts ev) \<le> 1"
    and "sock_run E evs js_socket_constructor = Inr s"
  shows "\<exists>n. subseq (filter (\<lambda>event. event \<noteq> ''error'') (map fst (sk_calls s)))
    (''connect'' # replicate n ''data'' @ [''close''])"
proof -
  have "connects_once E" using assms(1) by (simp add: connects_once_def)
  then have "order_ok 0 s" using order_run assms(3) order_fresh [OF assms(2)] by blast
  then consider "event_names s = []" | n where "subseq (event_names s) (stream n)"
    | n where "subseq (event_names s) (stream n @ [''close''])"
    by (auto simp: order_ok_def fresh_sock_def streaming_def ended_def)
  then have "\<exists>n. subseq (event_names s) (stream n @ [''close''])"
  proof cases
    case (2 n)
    from list_emb_append_mono [OF 2, of "[]" "[''close'']"] show ?thesis by auto
  qed auto
  then show ?thesis by (simp add: event_names_def)
qed

theorem socket_event_order_witness:
  "\<exists>s. sock_run harmless ([Script (map (\<lambda>ev. AOn [AString ev, AOther 7]) [''connect'', ''data'', ''close''])] @
      connected_run ''h'' @ [Complete 0 (Done_ok [1]), Handle, Complete 0 (Failed ''End of file''), Handle])
      js_socket_constructor = Inr s \<and>
    map fst (sk_calls s) = [''connect'', ''data'', ''close''] \<and>
    (\<exists>n. subseq (filter (\<lambda>event. event \<noteq> ''error'') (map fst (sk_calls s))) (''connect'' # replicate n ''data'' @ [''close'']))"
proof -
  let ?evs = "[Script (map (\<lambda>ev. AOn [AString ev, AOther 7]) [''connect'', ''data'', ''close''])] @
      connected_run ''h'' @ [Complete 0 (Done_ok [1]), Handle, Complete 0 (Failed ''End of file''), Handle]"
  have "map_sum id (\<lambda>s. map fst (sk_calls s)) (sock_run harmless ?evs js_socket_constructor) = Inr [''connect'', ''data'', ''close'']"
    by code_simp
  then obtain s where s: "sock_run harmless ?evs js_socket_constructor = Inr s"
    "map fst (sk_calls s) = [''connect'', ''data'', ''close'']"
    by (cases "sock_run harmless ?evs js_socket_constructor") auto
  have "\<exists>n. subseq (filter (\<lambda>event. event \<noteq> ''error'') (map fst (sk_calls s))) (''connect'' # replicate n ''data'' @ [''close''])"
    by (rule socket_event_order [OF _ _ s(1)]) (simp_all add: harmless_def connect_acts_def is_AConnect_def)
  from s this show ?thesis by (intro exI [of _ s] conjI)
qed

end
