(* ===== verification/EventEnd.thy ===== *)
theory EventEnd
  imports EventProps
begin

text \<open>
  Properties of promise rejections, of the references that a context holds, and of the end of
  \<open>run\<close>.
\<close>

section \<open>References\<close>





text \<open>
  A rejection that is handled before it was reported is taken off the list without being freed:
  the references that the context took on the promise and on the reason stay counted for ever,
  also after the destructor.
\<close>

lemma handled_rejection_leaks:
  assumes "v = p \<or> v = r"
  shows "0 < c_refs (SandboxContext_dtor
    (fold (do_act E) [Reject p r, Handle p] (SandboxContext_init clock))) v"
  using assms
  by (auto simp: dtor_refs slack_def owned_def promiseRejectionTracker_def JS_DupValue_def Let_def
      SandboxContext_init_def entry_refs_def rejection_refs_def)

section \<open>Rejections\<close>











section \<open>The end of run\<close>

lemma drain_jobs: "drainMicrotasks E n c = Some (Inr (), c') \<Longrightarrow> c_jobs c' = []"
proof (induction n arbitrary: c)
  case (Suc n)
  then show ?case
    by (cases "c_jobs c") (auto simp: Let_def case_prod_unfold split: option.splits)
qed simp

lemma drain_frame:
  "drainMicrotasks E n c = Some (r, c') \<Longrightarrow> c_called c' = c_called c \<and> c_stopped c' = c_stopped c"
proof (induction n arbitrary: c)
  case (Suc n)
  then show ?case
    by (cases "c_jobs c") (auto simp: Let_def case_prod_unfold script_frame split: option.splits)
qed simp

text \<open>One turn of \<open>run\<close>.\<close>

lemma run_loop_cases:
  assumes "run_loop E (Suc n) c = Some c'"
  obtains (fatal) "c_fatal c' \<noteq> None" "c_stopped c \<Longrightarrow> c_called c' = c_called c"
  | (ended) c1 where "drainMicrotasks E n c = Some (Inr (), c1)" "pending_rejections c1 = []"
      "run_one E n c1 = Some (Inr 0, c')"
  | (again) c1 m c2 where "drainMicrotasks E n c = Some (Inr (), c1)" "pending_rejections c1 = []"
      "run_one E n c1 = Some (Inr (Suc m), c2)" "run_loop E n c2 = Some c'"
proof -
  obtain r1 c1 where d: "drainMicrotasks E n c = Some (r1, c1)"
    using assms by (cases "drainMicrotasks E n c") auto
  obtain r2 c2 where k: "checkUnhandledRejections (js_toString E) c1 = (r2, c2)"
    by (cases "checkUnhandledRejections (js_toString E) c1")
  show thesis
  proof (cases "isl r1 \<or> isl r2")
    case True
    have "c_fatal c' \<noteq> None" using True assms d k
      by (cases r1; cases r2) (auto simp: reportFatal_def)
    moreover have "c_called c' = c_called c"
      using True assms d k drain_frame [OF d] check_simps(4) [OF k]
      by (cases r1; cases r2) (auto simp: reportFatal_def)
    ultimately show thesis by (rule fatal)
  next
    case False
    then have rr: "r1 = Inr ()" "r2 = Inr ()" by (cases r1, simp_all) (cases r2, simp_all)
    have c2: "c2 = c1" "pending_rejections c1 = []"
      using k rr(2) by (auto simp: checkUnhandledRejections_def Let_def split: if_splits prod.splits)
    obtain r3 c3 where o: "run_one E n c1 = Some (r3, c3)"
      using assms d k rr c2 by (cases "run_one E n c1") auto
    show thesis
    proof (cases r3)
      case (Inl e)
      have "\<not> c_stopped c1" using o Inl by (auto simp: run_one_def)
      then show thesis using fatal assms d k rr c2 o Inl drain_frame [OF d] by (auto simp: reportFatal_def)
    next
      case (Inr m)
      then show thesis using ended again assms d k rr c2 o by (cases m) auto
    qed
  qed
qed

lemma loop_stopped:
  "process_loop E n now c = Some (r, c') \<Longrightarrow> c_stopped c' = c_stopped c"
proof (induction n arbitrary: c)
  case (Suc n)
  have "c_stopped (snd (process_step E now c)) = c_stopped c"
    by (simp add: process_step_def JS_Call_def after_call_def erase_entry_def JS_FreeValue_def script_frame
        case_prod_unfold Let_def split: list.split option.split)
  with Suc show ?case by (auto split: prod.splits round_result.splits)
qed simp

lemma ready_stopped:
  assumes "run_ready E n c = Some (r, c')"
  shows "c_stopped c' = c_stopped c"
  using assms
proof (cases rule: run_ready_cases)
  case (timer t r1)
  have s: "c_stopped (snd (steady_now (c\<lparr>c_wait := None\<rparr>))) = c_stopped c" by (simp add: steady_now_def)
  from timer(2) show ?thesis
    by (cases rule: timer_fired_cases) (use loop_stopped [where c' = c'] loop_stopped s in fastforce)+
qed simp_all

lemma run_one_stops:
  assumes "run_one E n c = Some (Inr k, c')" and "c_stopped c' \<or> k = 0" and "\<not> c_stopped c"
  shows "c_ready c' = [] \<and> c_wait c' = None \<and> c_stopped c'"
proof -
  obtain c1 where c1: "run_ready E n c = Some (Inr k, c1)" "c' = out_of_work c1"
    using assms(1,3) by (auto simp: run_one_def split: option.splits)
  have "\<not> c_stopped c1" using ready_stopped [OF c1(1)] assms(3) by simp
  moreover have "c_ready c1 = [] \<and> c_wait c1 = None" if "k = 0"
    using c1(1) that by (auto simp: run_ready_def split: list.splits option.splits sum.splits prod.splits)
  ultimately show ?thesis using assms(2) c1(2) by (auto simp: out_of_work_def split: if_splits)
qed

text \<open>
  C27. In a context in which no timer function has thrown before and \<open>stop\<close> was not called: \<open>run\<close>
  returns only when something fatal was reported or when no job and no unhandled rejection is left
  and the \<open>io_context\<close> is stopped. That happens as soon as a handler leaves nothing to wait for: at
  that point there is no ready handler and no live timer. Only the microtasks that are drained after
  it can then make new timers, which nobody waits for any more; and a \<open>run\<close> on a stopped \<open>io_context\<close>
  calls no function of a timer, whatever timers there are.
\<close>

theorem run_returns_idle:
  assumes "run_from E UNIV (SandboxContext_init clock) True c" and "run_loop E n c = Some c'"
  shows "(c_fatal c' \<noteq> None \<or> c_jobs c' = [] \<and> pending_rejections c' = [] \<and> c_stopped c') \<and>
    (\<not> c_stopped c \<longrightarrow> c_fatal c' = None \<longrightarrow>
       (\<exists>c1 m. c_ready c1 = [] \<and> c_wait c1 = None \<and> live c1 = {} \<and> drainMicrotasks E m c1 = Some (Inr (), c'))) \<and>
    (c_stopped c \<longrightarrow> c_called c' = c_called c)"
  using assms
proof (induction n arbitrary: c)
  case (Suc n)
  have idle: "live x = {}" if "run_from E UNIV (SandboxContext_init clock) True x" "c_wait x = None" for x
    using timer_armed_aux [OF that(1)] that(2) by auto
  from Suc.prems(2) show ?case
  proof (cases rule: run_loop_cases)
    case (ended c1)
    note D = drain_frame [OF ended(1)]
    note jobs = drain_jobs [OF ended(1)]
    have R: "run_from E UNIV (SandboxContext_init clock) True c'"
      using run_from_run_one [OF run_drain [OF Suc.prems(1) ended(1)] ended(3)] by simp
    show ?thesis
    proof (cases "c_stopped c1")
      case True
      with ended(3) have "c' = c1" by (simp add: run_one_def)
      with True D jobs ended show ?thesis by simp
    next
      case False
      note w = run_one_stops [OF ended(3) disjI2 [OF refl] False]
      have c': "c' = c1\<lparr>c_stopped := True\<rparr>"
        using ended(3) False
        by (auto simp: run_one_def run_ready_def out_of_work_def split: list.splits option.splits sum.splits prod.splits if_splits)
      with jobs have "drainMicrotasks E 1 c' = Some (Inr (), c')" by simp
      with w idle [OF R] have "\<exists>c1 m. c_ready c1 = [] \<and> c_wait c1 = None \<and> live c1 = {} \<and>
          drainMicrotasks E m c1 = Some (Inr (), c')" by blast
      with w c' jobs ended(2) D False show ?thesis by simp
    qed
  next
    case (again c1 m c2)
    note D = drain_frame [OF again(1)]
    have ns: "\<not> c_stopped c1" using again(3) by (auto simp: run_one_def)
    have R: "run_from E UNIV (SandboxContext_init clock) True c2"
      using run_from_run_one [OF run_drain [OF Suc.prems(1) again(1)] again(3)] by simp
    note IH = Suc.IH [OF R again(4)]
    show ?thesis
    proof (cases "c_stopped c2")
      case True
      then have w: "c_ready c2 = []" "c_wait c2 = None"
        using run_one_stops [OF again(3) disjI1 ns] by simp_all
      have "\<exists>k. drainMicrotasks E k c2 = Some (Inr (), c')" if f: "c_fatal c' = None"
      proof -
        obtain n' where n': "n = Suc n'" using again(4) by (cases n) simp_all
        with again(4) have "run_loop E (Suc n') c2 = Some c'" by simp
        then show ?thesis
        proof (cases rule: run_loop_cases)
          case (ended d1)
          then have "c' = d1" using True drain_frame [OF ended(1)] by (simp add: run_one_def)
          with ended(1) show ?thesis by blast
        next
          case (again d1 m d2)
          then show ?thesis using True drain_frame [OF again(1)] by (simp add: run_one_def)
        qed (use f in simp)
      qed
      with w idle [OF R w(2)] IH ns D show ?thesis by blast
    qed (use IH ns D in simp)
  qed auto
qed simp

theorem run_returns_idle_witness:
  "\<exists>c' c1 m. run_loop idle_env 5 one_timer = Some c' \<and> live c1 = {} \<and> drainMicrotasks idle_env m c1 = Some (Inr (), c')"
proof -
  have "map_option c_fatal (run_loop idle_env 5 one_timer) = Some None" by code_simp
  then obtain c' where c': "run_loop idle_env 5 one_timer = Some c'" "c_fatal c' = None" by auto
  have "\<not> c_stopped one_timer" by code_simp
  with c' run_returns_idle [OF run_one_timer [OF UNIV_I], of 5] show ?thesis by blast
qed

text \<open>
  A timer function that leaves its work to a promise: it only enqueues a job, the job sets the next
  timer. The handler of the wait leaves no work behind, so the \<open>io_context\<close> is stopped when the
  job sets the timer: \<open>run\<close> returns with a live timer whose function is never called.
\<close>

lemma run_stops_early:
  "let E = idle_env\<lparr>js_body := \<lambda>f c. (if f = 7 then [EnqueueJob 9] else if f = 9 then [SetTimeout [JFun 8, JOther 0]] else [], None)\<rparr>;
       c = fold (do_act E) [SetTimeout [JFun 7, JOther 0]] (SandboxContext_init (\<lambda>i. 10000000 * int i));
       c' = the (run_loop E 9 c)
   in c_fatal c' = None \<and> map fi_func (c_called c') = [7] \<and> map hp_id (timer_heap c') = [2] \<and>
     map (te_cancelled \<circ> snd) (timer_entries c') = [False] \<and> c_wait c' \<noteq> None \<and>
     map_option (map fi_func \<circ> c_called) (run_loop E 9 c') = Some [7]"
  by code_simp

section \<open>What a cancelled timer leaves\<close>

text \<open>
  \<open>armNextTimer\<close> takes cancelled timers off the heap but not out of the table: here \<open>run\<close> returns
  with nothing left to do, and the entry of the cancelled timer 1 and its reference are still there.
\<close>

lemma cancelled_entry_stays:
  "let E = idle_env\<lparr>js_toInt64 := \<lambda>a. (case a of JFun _ \<Rightarrow> 0 | JOther n \<Rightarrow> int n)\<rparr>;
       c = fold (do_act E) [SetTimeout [JFun 7, JOther 50], ClearTimeout [JOther 1], SetTimeout [JFun 8, JOther 1]]
             (SandboxContext_init (\<lambda>i. 2000000 * int i));
       c' = the (run_loop E 9 c)
   in c_fatal c' = None \<and> timer_heap c' = [] \<and> map fst (timer_entries c') = [1] \<and> c_refs c' 7 = 1"
  by code_simp

end
