(* ===== verification/SocketShutdown.thy ===== *)
theory SocketShutdown
  imports SocketProps
begin

text \<open>
  All sockets of a \<open>SandboxContext\<close>: the registry \<open>active_resources\<close>, runs in which the scripts and
  handlers of several sockets are interleaved on the one loop, and the part of the destructor that
  is about I/O: every registered resource is cancelled, the loop runs until no handler is left, and
  what is still registered is cleaned up and deleted.
\<close>

section \<open>Registry and runs\<close>

text \<open>A resource is a position in the list of sockets made so far. The order of the set is left open by C++.\<close>

record io_state =
  io_socks :: "sock list"
  active_resources :: "nat list"

definition io_start :: io_state where
  "io_start = \<lparr>io_socks = [], active_resources = []\<rparr>"

definition registerResource :: "nat \<Rightarrow> io_state \<Rightarrow> io_state" where
  "registerResource r w = w\<lparr>active_resources := List.insert r (active_resources w)\<rparr>"

definition unregisterResource :: "nat \<Rightarrow> io_state \<Rightarrow> io_state" where
  "unregisterResource r w = w\<lparr>active_resources := removeAll r (active_resources w)\<rparr>"

text \<open>\<open>E i\<close> is what the listeners of socket \<open>i\<close> do.\<close>

datatype io_event = NewSocket | At nat sock_event

definition io_step :: "(nat \<Rightarrow> sock_env) \<Rightarrow> io_event \<Rightarrow> io_state \<Rightarrow> io_state result" where
  "io_step E ev w =
     (case ev of
        NewSocket \<Rightarrow>
          Inr (registerResource (length (io_socks w)) (w\<lparr>io_socks := io_socks w @ [js_socket_constructor]\<rparr>))
      | At i ev \<Rightarrow>
          if i < length (io_socks w) then
            bnd (sock_step (E i) ev (io_socks w ! i))
              (\<lambda>s. let w' = w\<lparr>io_socks := (io_socks w)[i := s]\<rparr>
                   in Inr (if sk_sctx (io_socks w ! i) \<and> \<not> sk_sctx s then unregisterResource i w' else w'))
          else Inr w)"

fun io_run :: "(nat \<Rightarrow> sock_env) \<Rightarrow> io_event list \<Rightarrow> io_state \<Rightarrow> io_state result" where
  "io_run E [] w = Inr w"
| "io_run E (ev # evs) w = bnd (io_step E ev w) (io_run E evs)"

section \<open>The destructor\<close>

definition cancel_resource :: "nat \<Rightarrow> io_state \<Rightarrow> io_state" where
  "cancel_resource r w = w\<lparr>io_socks := (io_socks w)[r := socket_cancel (io_socks w ! r)]\<rparr>"

fun cleanup_resources :: "nat list \<Rightarrow> io_state \<Rightarrow> io_state result" where
  "cleanup_resources [] w = Inr w"
| "cleanup_resources (r # rs) w =
     bnd (bnd (socket_forceCleanup (io_socks w ! r)) (\<lambda>s. bnd (use_this s) delete_this))
       (\<lambda>s. cleanup_resources rs (w\<lparr>io_socks := (io_socks w)[r := s]\<rparr>))"

text \<open>\<open>evs\<close> is what happens while the collector and the loop run: nothing when the \<open>io_context\<close> is stopped.\<close>

definition io_dtor :: "(nat \<Rightarrow> sock_env) \<Rightarrow> io_event list \<Rightarrow> io_state \<Rightarrow> io_state result" where
  "io_dtor E evs w =
     (let w = fold cancel_resource (active_resources w) w
      in bnd (io_run E evs w)
           (\<lambda>w. let remaining = active_resources w
                in cleanup_resources remaining (w\<lparr>active_resources := []\<rparr>)))"

section \<open>Invariants of all sockets\<close>

text \<open>
  What holds of a new socket and is kept by its own steps holds of every socket in an interleaved
  run. \<open>ok\<close> restricts the events.
\<close>

locale socket_invariant =
  fixes E :: "nat \<Rightarrow> sock_env" and ok :: "nat \<Rightarrow> sock_event \<Rightarrow> bool" and P :: "nat \<Rightarrow> sock \<Rightarrow> bool"
  assumes new: "P i js_socket_constructor"
    and step: "P i s \<Longrightarrow> ok i ev \<Longrightarrow> sock_step (E i) ev s = Inr s' \<Longrightarrow> P i s'"
begin

definition every :: "io_state \<Rightarrow> bool" where
  "every w \<longleftrightarrow> (\<forall>i < length (io_socks w). P i (io_socks w ! i))"

definition allowed :: "io_event \<Rightarrow> bool" where
  "allowed x \<longleftrightarrow> (case x of NewSocket \<Rightarrow> True | At i ev \<Rightarrow> ok i ev)"

lemma every_step: "every w \<Longrightarrow> allowed x \<Longrightarrow> io_step E x w = Inr w' \<Longrightarrow> every w'"
proof (cases x)
  case NewSocket
  then show "every w \<Longrightarrow> io_step E x w = Inr w' \<Longrightarrow> every w'"
    using new by (auto simp: io_step_def every_def registerResource_def nth_append less_Suc_eq)
next
  case (At i ev)
  then show "every w \<Longrightarrow> allowed x \<Longrightarrow> io_step E x w = Inr w' \<Longrightarrow> every w'"
    using step [of i "io_socks w ! i" ev]
    by (auto simp: io_step_def every_def allowed_def bnd_Inr unregisterResource_def Let_def nth_list_update
        split: if_splits)
qed

lemma every_run: "every w \<Longrightarrow> list_all allowed evs \<Longrightarrow> io_run E evs w = Inr w' \<Longrightarrow> every w'"
  by (induction evs arbitrary: w) (auto simp: bnd_Inr dest: every_step)

lemma every_start: "every io_start"
  by (simp add: every_def io_start_def)

end

text \<open>When moreover the steps of every socket succeed, so does the run.\<close>

locale socket_progress = socket_invariant +
  assumes total: "P i s \<Longrightarrow> ok i ev \<Longrightarrow> \<exists>s'. sock_step (E i) ev s = Inr s'"
begin

lemma step_total: "every w \<Longrightarrow> allowed x \<Longrightarrow> \<exists>w'. io_step E x w = Inr w'"
  using total by (auto simp: io_step_def every_def allowed_def Let_def bnd_def split: io_event.split sum.split)
    (metis sum.distinct(1))

lemma run_total: "every w \<Longrightarrow> list_all allowed evs \<Longrightarrow> \<exists>w'. io_run E evs w = Inr w' \<and> every w'"
proof (induction evs arbitrary: w)
  case (Cons x evs)
  then obtain w1 where "io_step E x w = Inr w1" using step_total [of w x] by auto
  with Cons every_step [of w x w1] show ?case by auto
qed simp

end

interpretation life: socket_invariant E "\<lambda>i ev. True" "\<lambda>i. life_ok"
  for E
proof
  show "life_ok js_socket_constructor" by (rule life_fresh)
  show "life_ok s'" if "life_ok s" "sock_step (E i) ev s = Inr s'" for i s ev s'
    using life_run [of s "E i" "[ev]" s'] that by simp
qed

section \<open>The registry\<close>

lemma deleted_act:
  assumes "\<not> sk_opaque s" and "do_sock_act E a s = Inr s'"
  shows "\<not> sk_opaque s' \<and> sk_deleted s' = sk_deleted s"
  using assms
  by (cases a) (auto simp: js_socket_on_def js_socket_close_def js_socket_write_def js_socket_connect_def JS_FreeObject_def
      jsFinalizer_def Let_def split: list.splits sarg.splits if_splits)

lemma deleted_script:
  "\<not> sk_opaque s \<Longrightarrow> sock_script E as s = Inr s' \<Longrightarrow> sk_deleted s' = sk_deleted s"
proof (induction as arbitrary: s)
  case (Cons a as)
  then show ?case using deleted_act [of s E a] by (auto simp: bnd_Inr split: if_splits)
qed simp

lemma deleted_stays:
  assumes "life_ok s" and "sk_deleted s" and "sock_step E ev s = Inr s'"
  shows "sk_deleted s'"
proof -
  have o: "\<not> sk_opaque s" using assms(1,2) by (simp add: life_ok_def)
  show ?thesis
  proof (cases ev)
    case (Script as)
    with deleted_script [OF o] assms(2,3) show ?thesis by (simp add: sock_step_def)
  next
    case (Complete k r)
    with assms(2,3) show ?thesis by (auto simp: sock_step_def Let_def split: if_splits)
  next
    case Handle
    have "run_handler_of E op r (on_transport f s) = Inl UseAfterFree" for op r f
      using assms(2) by (cases op) (simp_all add: connect_handler_def read_handler_def write_handler_def use_this_def)
    with Handle assms(2,3) show ?thesis by (auto simp: sock_step_def split: list.splits prod.splits)
  next
    case Collect
    with o assms(2,3) show ?thesis by (auto simp: sock_step_def jsFinalizer_def split: if_splits)
  qed
qed

definition registry_ok :: "io_state \<Rightarrow> bool" where
  "registry_ok w \<longleftrightarrow> distinct (active_resources w) \<and>
     set (active_resources w) = {i. i < length (io_socks w) \<and> sk_sctx (io_socks w ! i)}"

lemma registry_step:
  assumes "registry_ok w" and "life.every w" and "io_step E x w = Inr w'"
  shows "registry_ok w'"
proof (cases x)
  case NewSocket
  let ?n = "length (io_socks w)"
  have c: "sk_sctx js_socket_constructor" by (simp add: js_socket_constructor_def socket_registerWith_def)
  have w': "w' = registerResource ?n (w\<lparr>io_socks := io_socks w @ [js_socket_constructor]\<rparr>)"
    using NewSocket assms(3) by (simp add: io_step_def)
  have "{j. j < Suc ?n \<and> sk_sctx ((io_socks w @ [js_socket_constructor]) ! j)} =
      insert ?n {j. j < ?n \<and> sk_sctx (io_socks w ! j)}"
    using c by (intro set_eqI) (simp add: nth_append less_Suc_eq conj_disj_distribR disj_commute cong: conj_cong)
  with assms(1) show ?thesis unfolding w' by (simp add: registry_ok_def registerResource_def)
next
  case (At i ev)
  show ?thesis
  proof (cases "i < length (io_socks w)")
    case True
    with At assms(3) obtain s where s: "sock_step (E i) ev (io_socks w ! i) = Inr s"
      and w': "w' = (let w' = w\<lparr>io_socks := (io_socks w)[i := s]\<rparr>
        in if sk_sctx (io_socks w ! i) \<and> \<not> sk_sctx s then unregisterResource i w' else w')"
      by (auto simp: io_step_def bnd_Inr Let_def)
    have l: "life_ok (io_socks w ! i)" using True assms(2) by (simp add: life.every_def)
    from l s have "life_ok s" by (rule life_step)
    with l deleted_stays [OF l _ s] have "sk_sctx s \<Longrightarrow> sk_sctx (io_socks w ! i)" by (auto simp: life_ok_def)
    then have "{j. j < length (io_socks w) \<and> sk_sctx ((io_socks w)[i := s] ! j)} =
        {j. j < length (io_socks w) \<and> sk_sctx (io_socks w ! j)} - (if sk_sctx (io_socks w ! i) \<and> \<not> sk_sctx s then {i} else {})"
      using True by (auto simp: nth_list_update)
    with assms(1) show ?thesis unfolding w'
      by (simp add: registry_ok_def unregisterResource_def Let_def distinct_removeAll)
  qed (use At assms in \<open>simp add: io_step_def\<close>)
qed

lemma registry_run:
  "registry_ok w \<Longrightarrow> life.every w \<Longrightarrow> io_run E evs w = Inr w' \<Longrightarrow> registry_ok w' \<and> life.every w'"
proof (induction evs arbitrary: w)
  case (Cons x evs)
  then obtain w1 where w1: "io_step E x w = Inr w1" "io_run E evs w1 = Inr w'" by (auto simp: bnd_Inr)
  with Cons.IH [of w1] registry_step [OF Cons.prems(1,2) w1(1)] life.every_step [OF Cons.prems(2) _ w1(1)]
  show ?case by (simp add: life.allowed_def split: io_event.split)
qed simp

lemma registry_start: "registry_ok io_start"
  by (simp add: registry_ok_def io_start_def)

section \<open>Sockets that JavaScript keeps\<close>

lemma live_cancel: "live_sock 0 s \<Longrightarrow> live_sock 0 (socket_cancel s)"
  by (erule live_cong) (simp_all add: socket_cancel_def)

lemma good_shutdown:
  assumes "live_sock 0 s" and "0 < sk_held s" and "life_ok s"
  shows "\<exists>s'. bnd (socket_forceCleanup s) (\<lambda>s. bnd (use_this s) delete_this) = Inr s' \<and> sk_deleted s' \<and>
    \<not> sk_opaque s' \<and> pg_count (sk_pin s') = 0 \<and> sk_rc s' = int (sk_held s') \<and> sk_held s' = sk_held s \<and>
    (\<forall>v. sk_refs s' v = 0)"
proof -
  let ?e = "events_finalize s"
  have z: "sk_refs ?e v = 0" for v
  proof -
    have "listeners_ok ?e" "set (slots (sk_events ?e)) \<subseteq> {None}"
      using listeners_finalize [of s] assms(3) by (simp_all add: life_ok_def)
    then show ?thesis by (auto simp: listeners_ok_def slot_refs_def count_list_0_iff)
  qed
  note L = assms(1) [unfolded live_sock_def]
  show ?thesis
  proof (cases "0 < pg_count (sk_pin s)")
    case True
    have "JS_FreeObject ?e = Inr (?e\<lparr>sk_rc := sk_rc s - 1\<rparr>)"
      using L True assms(2) by (simp add: JS_FreeObject_def Let_def)
    with L True z show ?thesis
      by (simp add: socket_forceCleanup_def forceRelease_def use_this_def delete_this_def)
  next
    case False
    with L have "pg_count (sk_pin s) = 0" by simp
    with L False z show ?thesis
      by (simp add: socket_forceCleanup_def forceRelease_def use_this_def delete_this_def)
  qed
qed


text \<open>A socket as \<open>shutdown\<close> leaves it.\<close>

definition cleaned_up :: "sock \<Rightarrow> bool" where
  "cleaned_up s \<longleftrightarrow> sk_deleted s \<and> \<not> sk_opaque s \<and> pg_count (sk_pin s) = 0 \<and> sk_rc s = int (sk_held s) \<and>
     (\<forall>v. sk_refs s v = 0)"

definition held_live :: "sock \<Rightarrow> bool" where
  "held_live s \<longleftrightarrow> live_sock 0 s \<and> 0 < sk_held s \<and> life_ok s"

lemma held_live_good: "held_live s \<longleftrightarrow> good True 0 True s \<and> life_ok s"
  by (auto simp: held_live_def good_def)

lemma held_live_cancel: "held_live s \<Longrightarrow> held_live (socket_cancel s)"
  using live_cancel life_transport by (auto simp: held_live_def socket_cancel_def)

definition io_safe :: "(nat \<Rightarrow> sock_env) \<Rightarrow> nat \<Rightarrow> sock_event \<Rightarrow> bool" where
  "io_safe E i ev \<longleftrightarrow> safe_env True (E i) \<and> safe_event True (E i) ev"

interpretation held: socket_progress E "io_safe E" "\<lambda>i. held_live"
  for E
proof
  show "held_live js_socket_constructor" using good_fresh [of True] life_fresh by (simp add: held_live_good)
  fix i s ev s'
  assume h: "held_live s" and ok: "io_safe E i ev"
  then have o: "outcome True 0 True (sock_step (E i) ev s)"
    by (intro good_step) (auto simp: held_live_good io_safe_def)
  then show "\<exists>s'. sock_step (E i) ev s = Inr s'" by (cases "sock_step (E i) ev s") auto
  assume "sock_step (E i) ev s = Inr s'"
  with o h life_step [of s "E i" ev s'] show "held_live s'" by (simp add: held_live_good)
qed

lemma held_cancel:
  "held.every w \<Longrightarrow> set rs \<subseteq> {i. i < length (io_socks w)} \<Longrightarrow>
   held.every (fold cancel_resource rs w) \<and> length (io_socks (fold cancel_resource rs w)) = length (io_socks w)"
proof (induction rs arbitrary: w)
  case (Cons r rs)
  have "held.every (cancel_resource r w)" "length (io_socks (cancel_resource r w)) = length (io_socks w)"
    using Cons.prems held_live_cancel by (auto simp: held.every_def cancel_resource_def nth_list_update)
  with Cons.IH [of "cancel_resource r w"] Cons.prems(2) show ?case by simp
qed simp

lemma registry_cancel: "registry_ok w \<Longrightarrow> set rs \<subseteq> {i. i < length (io_socks w)} \<Longrightarrow> registry_ok (fold cancel_resource rs w)"
proof (induction rs arbitrary: w)
  case (Cons r rs)
  have "sk_sctx ((io_socks w)[r := socket_cancel (io_socks w ! r)] ! i) = sk_sctx (io_socks w ! i)" if "i < length (io_socks w)" for i
    using that by (cases "i = r") (simp_all add: socket_cancel_def)
  then have "registry_ok (cancel_resource r w)"
    using Cons.prems(1) by (auto simp: registry_ok_def cancel_resource_def)
  with Cons show ?case by (simp add: cancel_resource_def)
qed simp

lemma cleanup_all:
  assumes "distinct rs" and "\<forall>r\<in>set rs. r < length (io_socks w) \<and> held_live (io_socks w ! r)"
  shows "\<exists>w'. cleanup_resources rs w = Inr w' \<and> active_resources w' = active_resources w \<and>
    length (io_socks w') = length (io_socks w) \<and>
    (\<forall>i < length (io_socks w). if i \<in> set rs then cleaned_up (io_socks w' ! i) else io_socks w' ! i = io_socks w ! i)"
  using assms
proof (induction rs arbitrary: w)
  case (Cons r rs)
  have r: "r < length (io_socks w)" "held_live (io_socks w ! r)" using Cons.prems by auto
  then obtain s where s: "bnd (socket_forceCleanup (io_socks w ! r)) (\<lambda>s. bnd (use_this s) delete_this) = Inr s" "cleaned_up s"
    using good_shutdown [of "io_socks w ! r"] by (auto simp: held_live_def cleaned_up_def)
  let ?w = "w\<lparr>io_socks := (io_socks w)[r := s]\<rparr>"
  have "\<forall>x\<in>set rs. x < length (io_socks ?w) \<and> held_live (io_socks ?w ! x)"
    using Cons.prems by (auto simp: nth_list_update)
  from Cons.IH [OF _ this] Cons.prems(1) obtain w' where w': "cleanup_resources rs ?w = Inr w'"
    "active_resources w' = active_resources w" "length (io_socks w') = length (io_socks w)"
    "\<forall>i < length (io_socks w). if i \<in> set rs then cleaned_up (io_socks w' ! i) else io_socks w' ! i = io_socks ?w ! i"
    by auto
  moreover have "cleaned_up (io_socks w' ! r)" using w'(4) r(1) s(2) Cons.prems(1) by auto
  moreover have "cleanup_resources (r # rs) w = Inr w'" using s(1) w'(1) by simp
  ultimately show ?case by (intro exI [of _ w']) (auto simp: nth_list_update split: if_splits)
qed simp

lemma io_run_length: "io_run E evs w = Inr w' \<Longrightarrow> length (io_socks w) \<le> length (io_socks w')"
proof (induction evs arbitrary: w)
  case (Cons x evs)
  then obtain w1 where w1: "io_step E x w = Inr w1" "length (io_socks w1) \<le> length (io_socks w')" by (auto simp: bnd_Inr)
  have "length (io_socks w) \<le> length (io_socks w1)"
    using w1(1) by (auto simp: io_step_def bnd_Inr registerResource_def unregisterResource_def Let_def
        split: io_event.splits if_splits)
  with w1(2) show ?case by simp
qed simp

lemma held_life: "held.every w \<Longrightarrow> life.every w"
  by (simp add: held.every_def life.every_def held_live_def)

lemma cleanup_held:
  assumes "held.every w" and "registry_ok w"
  shows "\<exists>w'. cleanup_resources (active_resources w) (w\<lparr>active_resources := []\<rparr>) = Inr w' \<and> active_resources w' = [] \<and>
    list_all cleaned_up (io_socks w') \<and> length (io_socks w') = length (io_socks w)"
proof -
  have all: "set (active_resources w) = {i. i < length (io_socks w)}"
    using assms by (auto simp: registry_ok_def held.every_def held_live_def live_sock_def)
  let ?w = "w\<lparr>active_resources := []\<rparr>"
  have "\<forall>r\<in>set (active_resources w). r < length (io_socks ?w) \<and> held_live (io_socks ?w ! r)"
    using all assms(1) by (simp add: held.every_def)
  moreover have "distinct (active_resources w)" using assms(2) by (simp add: registry_ok_def)
  ultimately obtain w' where "cleanup_resources (active_resources w) ?w = Inr w'" "active_resources w' = []"
    "length (io_socks w') = length (io_socks w)" "\<forall>i < length (io_socks w). cleaned_up (io_socks w' ! i)"
    using cleanup_all [of "active_resources w" ?w] unfolding all by auto
  then show ?thesis by (auto simp: list_all_length)
qed

lemma shutdown_held:
  assumes "held.every w" and "registry_ok w" and "list_all (held.allowed E) evs"
  shows "\<exists>w'. io_dtor E evs w = Inr w' \<and> active_resources w' = [] \<and> list_all cleaned_up (io_socks w') \<and>
    length (io_socks w) \<le> length (io_socks w')"
proof -
  have r: "set (active_resources w) \<subseteq> {i. i < length (io_socks w)}" using assms(2) by (auto simp: registry_ok_def)
  let ?w = "fold cancel_resource (active_resources w) w"
  have c: "held.every ?w" "length (io_socks ?w) = length (io_socks w)" "registry_ok ?w"
    using held_cancel [OF assms(1) r] registry_cancel [OF assms(2) r] by simp_all
  obtain w2 where w2: "io_run E evs ?w = Inr w2" "held.every w2" using held.run_total [OF c(1) assms(3)] by blast
  have reg: "registry_ok w2" using registry_run [OF c(3) held_life [OF c(1)] w2(1)] by simp
  obtain w3 where w3: "cleanup_resources (active_resources w2) (w2\<lparr>active_resources := []\<rparr>) = Inr w3" "active_resources w3 = []"
    "list_all cleaned_up (io_socks w3)" "length (io_socks w3) = length (io_socks w2)"
    using cleanup_held [OF w2(2) reg] by blast
  have "length (io_socks w) \<le> length (io_socks w2)"
    using io_run_length [OF w2(1)] c(2) by simp
  with w2(1) w3 show ?thesis by (simp add: io_dtor_def)
qed

text \<open>
  C33. The registry and its use at shutdown, for any number of sockets interleaved on the loop. In
  every run without a fault, whatever scripts do, the registry of the context has exactly the
  sockets that are not deleted, each once. If JavaScript keeps its sockets and keeps its listeners
  while they run, no script calls \<open>close\<close>, every host that is connected to is an address and every
  socket can be opened, then no run has a fault, and the destructor, whatever handlers still run and
  whatever sockets they still create, has none either: it ends with an empty registry and every socket deleted, no
  pin and no listener reference left, the objects with exactly the references of JavaScript, and
  their methods find no socket any more.
\<close>

theorem shutdown_deletes_all:
  "(io_run E evs io_start = Inr w \<longrightarrow>
      distinct (active_resources w) \<and>
      set (active_resources w) = {i. i < length (io_socks w) \<and> \<not> sk_deleted (io_socks w ! i)}) \<and>
   ((\<forall>i. safe_env True (E i)) \<longrightarrow>
      (\<forall>i ev. At i ev \<in> set (evs @ evs') \<longrightarrow> safe_event True (E i) ev) \<longrightarrow>
      (\<exists>w w'. io_run E evs io_start = Inr w \<and> io_dtor E evs' w = Inr w' \<and> active_resources w' = [] \<and>
         length (io_socks w) \<le> length (io_socks w') \<and> list_all cleaned_up (io_socks w')))"
proof (intro conjI impI)
  assume run: "io_run E evs io_start = Inr w"
  from registry_run [OF registry_start life.every_start this] have r: "registry_ok w" "life.every w" by simp_all
  then show "distinct (active_resources w)" by (simp add: registry_ok_def)
  show "set (active_resources w) = {i. i < length (io_socks w) \<and> \<not> sk_deleted (io_socks w ! i)}"
    using r by (auto simp: registry_ok_def life.every_def life_ok_def)
next
  assume safe: "\<forall>i. safe_env True (E i)" and ev: "\<forall>i ev. At i ev \<in> set (evs @ evs') \<longrightarrow> safe_event True (E i) ev"
  have "held.allowed E x" if "x \<in> set (evs @ evs')" for x
  proof (cases x)
    case (At i y)
    with that ev have "safe_event True (E i) y" by blast
    with At safe show ?thesis by (simp add: held.allowed_def io_safe_def)
  qed (simp add: held.allowed_def)
  then have a: "list_all (held.allowed E) evs" "list_all (held.allowed E) evs'" by (auto simp: list_all_iff)
  obtain w where w: "io_run E evs io_start = Inr w" "held.every w" using held.run_total [OF held.every_start a(1)] by blast
  have "registry_ok w" using registry_run [OF registry_start life.every_start w(1)] by simp
  from shutdown_held [OF w(2) this a(2)] w(1)
  show "\<exists>w w'. io_run E evs io_start = Inr w \<and> io_dtor E evs' w = Inr w' \<and> active_resources w' = [] \<and>
      length (io_socks w) \<le> length (io_socks w') \<and> list_all cleaned_up (io_socks w')" by blast
qed

theorem shutdown_deletes_all_witness:
  "\<exists>w w'. io_run (\<lambda>_. harmless) [NewSocket, At 0 (Script [connect_to ''h'']), NewSocket] io_start = Inr w \<and>
     io_dtor (\<lambda>_. harmless) [At 0 Handle] w = Inr w' \<and> active_resources w' = [] \<and> list_all cleaned_up (io_socks w')"
proof -
  have "\<forall>i ev. At i ev \<in> set ([NewSocket, At 0 (Script [connect_to ''h'']), NewSocket] @ [At 0 Handle]) \<longrightarrow>
      safe_event True harmless ev"
    by (auto simp: safe_event_def safe_acts_def harmless_script)
  then show ?thesis
    using shutdown_deletes_all [of "\<lambda>_. harmless" "[NewSocket, At 0 (Script [connect_to ''h'']), NewSocket]" _ "[At 0 Handle]"]
      harmless_safe by blast
qed

text \<open>
  A socket that only its pin keeps alive, here after a failed connection, is freed once too often:
  releasing the pin runs the finalizer, which releases it again.
\<close>

lemma shutdown_of_leaked_pin_faults:
  "fault_of (bnd (io_run (\<lambda>_. harmless) [NewSocket, At 0 (Script [connect_to ''h'', ADrop]),
       At 0 (Complete 0 (Failed ''refused'')), At 0 Handle] io_start) (io_dtor (\<lambda>_. harmless) [])) = Some OverFree"
  by code_simp

end
