(* ===== verification/Host.thy ===== *)
theory Host
  imports EventEnd SocketShutdown
begin

text \<open>
  The whole context: timers, rejections, microtasks and any number of sockets on the one
  \<open>io_context\<close>, \<open>run\<close> over all of them, and the destructor (\<^verbatim>\<open>src/context.cpp\<close>).

  The state is that of the theory \<open>EventLoop\<close> next to that of \<open>SocketShutdown\<close>. Timer functions and jobs may
  use sockets, listeners may use timers, jobs, rejections and other sockets. What one function does to
  the timers and what it does to sockets are two lists, because the two do not see each other: calls
  of the one kind and calls of the other can be exchanged.
\<close>

section \<open>State and scripts\<close>

record host =
  h_ctx :: cstate
  h_io :: io_state

definition host_start :: "(nat \<Rightarrow> int) \<Rightarrow> host" where
  "host_start clock = \<lparr>h_ctx = SandboxContext_init clock, h_io = io_start\<rparr>"

datatype io_act = OnSocket nat sock_act | MakeSocket

text \<open>
  JavaScript: what functions, jobs and listeners do to the context and, for listeners, to the socket they
  are called for; and what a timer function, a job and a listener (of a socket, with the name of the event and
  the argument) do beyond that.
\<close>

record host_env =
  he_js :: js_env
  he_socks :: "nat \<Rightarrow> sock_env"
  he_timer :: "firing \<Rightarrow> host \<Rightarrow> io_act list"
  he_job :: "jsval \<Rightarrow> host \<Rightarrow> io_act list"
  he_listener :: "nat \<Rightarrow> string \<times> event_arg \<Rightarrow> host \<Rightarrow> js_act list \<times> io_act list"

definition io_event_of :: "io_act \<Rightarrow> io_event" where
  "io_event_of a = (case a of OnSocket i a \<Rightarrow> At i (Script [a]) | MakeSocket \<Rightarrow> NewSocket)"

definition host_script :: "host_env \<Rightarrow> js_act list \<Rightarrow> io_act list \<Rightarrow> host \<Rightarrow> host result" where
  "host_script HE js ios h =
     bnd (io_run (he_socks HE) (map io_event_of ios) (h_io h))
       (\<lambda>w. Inr (h\<lparr>h_ctx := fold (do_act (he_js HE)) js (h_ctx h), h_io := w\<rparr>))"

section \<open>The parts of run\<close>

text \<open>
  How a piece of the loop ends: without fuel, in a fault, with a \<open>JsError\<close>, with the loop to go on, or
  with the loop returned.
\<close>

datatype progress = NoFuel | Crash fault | JsThrew string host | Go host | Returned host

definition and_then :: "progress \<Rightarrow> (host \<Rightarrow> progress) \<Rightarrow> progress" where
  "and_then p k = (case p of Go h \<Rightarrow> k h | _ \<Rightarrow> p)"

definition of_result :: "host result \<Rightarrow> progress" where
  "of_result r = (case r of Inl f \<Rightarrow> Crash f | Inr h \<Rightarrow> Go h)"

lemma and_then_simps [simp]:
  "and_then NoFuel k = NoFuel" "and_then (Crash f) k = Crash f" "and_then (JsThrew e h) k = JsThrew e h"
  "and_then (Go h) k = k h" "and_then (Returned h) k = Returned h"
  "of_result (Inl f) = Crash f" "of_result (Inr h) = Go h"
  by (simp_all add: and_then_def of_result_def)

fun host_drain :: "host_env \<Rightarrow> nat \<Rightarrow> host \<Rightarrow> progress" where
  "host_drain HE 0 h = NoFuel"
| "host_drain HE (Suc n) h =
     (case c_jobs (h_ctx h) of
        [] \<Rightarrow> Go h
      | j # js \<Rightarrow>
          (let (acts, exc) = js_body (he_js HE) j (h_ctx h)
           in and_then
                (of_result (host_script HE acts (he_job HE j h) (h\<lparr>h_ctx := (h_ctx h)\<lparr>c_jobs := js\<rparr>\<rparr>)))
                (\<lambda>h. case exc of Some x \<Rightarrow> JsThrew x h | None \<Rightarrow> host_drain HE n h)))"

text \<open>The work of the \<open>io_context\<close>: handlers that are ready, the wait of the timer, operations in flight.\<close>

definition sock_idle :: "sock \<Rightarrow> bool" where
  "sock_idle s \<longleftrightarrow> tp_inflight (sk_transport s) = [] \<and> tp_ready (sk_transport s) = []"

definition has_work :: "host \<Rightarrow> bool" where
  "has_work h \<longleftrightarrow> c_ready (h_ctx h) \<noteq> [] \<or> c_wait (h_ctx h) \<noteq> None \<or> \<not> list_all sock_idle (io_socks (h_io h))"

definition host_settle :: "host \<Rightarrow> host" where
  "host_settle h = (if has_work h then h else h\<lparr>h_ctx := (h_ctx h)\<lparr>c_stopped := True\<rparr>\<rparr>)"

text \<open>
  Which handler is next is not in our hands. A handler of the context is \<open>run_ready\<close>; after it come
  the calls into sockets by the timer functions that it has called. A handler of a socket is the step
  \<open>Handle\<close>; after it comes what the listeners that it has called do elsewhere.
\<close>

datatype pick = ContextHandler | SocketHandler nat

definition new_calls :: "nat \<Rightarrow> host \<Rightarrow> host \<Rightarrow> (string \<times> event_arg) list" where
  "new_calls i h h' =
     (if i < length (io_socks (h_io h))
      then drop (length (sk_calls (io_socks (h_io h) ! i))) (sk_calls (io_socks (h_io h') ! i)) else [])"

definition call_handler :: "host_env \<Rightarrow> nat \<Rightarrow> pick \<Rightarrow> host \<Rightarrow> progress" where
  "call_handler HE n p h =
     (case p of
        ContextHandler \<Rightarrow>
          (case run_ready (he_js HE) n (h_ctx h) of
             None \<Rightarrow> NoFuel
           | Some (r, c) \<Rightarrow>
               let fired = drop (length (c_called (h_ctx h))) (c_called c);
                   h' = h\<lparr>h_ctx := c\<rparr>
               in and_then (of_result (host_script HE [] (concat (map (\<lambda>f. he_timer HE f h') fired)) h'))
                    (\<lambda>h. case r of Inl e \<Rightarrow> JsThrew e (host_settle h) | Inr _ \<Rightarrow> Go (host_settle h)))
      | SocketHandler i \<Rightarrow>
          and_then (of_result (bnd (io_step (he_socks HE) (At i Handle) (h_io h)) (\<lambda>w. Inr (h\<lparr>h_io := w\<rparr>))))
            (\<lambda>h'. let acts = map (\<lambda>call. he_listener HE i call h') (new_calls i h h')
                  in and_then (of_result (host_script HE (concat (map fst acts)) (concat (map snd acts)) h'))
                       (\<lambda>h. Go (host_settle h))))"

text \<open>
  \<open>run_one\<close> returns 0 when the \<open>io_context\<close> is stopped or has nothing left to do. When there is work but the
  handler picked is not ready, nothing happens: \<open>run_one\<close> blocks.
\<close>

definition host_fatal :: "string \<Rightarrow> host \<Rightarrow> host" where
  "host_fatal e h = h\<lparr>h_ctx := reportFatal e (h_ctx h)\<rparr>"

definition host_turn :: "host_env \<Rightarrow> nat \<Rightarrow> pick \<Rightarrow> host \<Rightarrow> progress" where
  "host_turn HE n p h =
     (case host_drain HE n h of
        JsThrew e h \<Rightarrow> Returned (host_fatal e h)
      | Go h \<Rightarrow>
          (case checkUnhandledRejections (js_toString (he_js HE)) (h_ctx h) of
             (Inl e, c) \<Rightarrow> Returned (host_fatal e (h\<lparr>h_ctx := c\<rparr>))
           | (Inr _, c) \<Rightarrow>
               let h = h\<lparr>h_ctx := c\<rparr>
               in if c_stopped (h_ctx h) \<or> \<not> has_work h then Returned (host_settle h)
                  else (case call_handler HE n p h of
                          JsThrew e h \<Rightarrow> Returned (host_fatal e h)
                        | x \<Rightarrow> x))
      | x \<Rightarrow> x)"

section \<open>run and the destructor\<close>

text \<open>
  The world decides how operations end, when the collector runs and which handler is next. When it
  has no more to offer, the loop is waiting.
\<close>

datatype host_event = Net nat nat net_result | Gc nat | Call pick

definition outside :: "host_env \<Rightarrow> nat \<Rightarrow> sock_event \<Rightarrow> host \<Rightarrow> progress" where
  "outside HE i ev h = of_result (bnd (io_step (he_socks HE) (At i ev) (h_io h)) (\<lambda>w. Inr (h\<lparr>h_io := w\<rparr>)))"

fun host_run :: "host_env \<Rightarrow> nat \<Rightarrow> host_event list \<Rightarrow> host \<Rightarrow> progress" where
  "host_run HE n [] h = Go h"
| "host_run HE n (Net i k r # evs) h = and_then (outside HE i (Complete k r) h) (host_run HE n evs)"
| "host_run HE n (Gc i # evs) h = and_then (outside HE i Collect h) (host_run HE n evs)"
| "host_run HE n (Call p # evs) h = and_then (host_turn HE n p h) (host_run HE n evs)"

text \<open>
  \<open>io_ctx_.run()\<close> in the destructor: handlers only, no microtasks, and nobody catches what they
  throw.
\<close>

fun io_ctx_run :: "host_env \<Rightarrow> nat \<Rightarrow> host_event list \<Rightarrow> host \<Rightarrow> progress" where
  "io_ctx_run HE n [] h = (if c_stopped (h_ctx h) \<or> \<not> has_work h then Returned (host_settle h) else Go h)"
| "io_ctx_run HE n (ev # evs) h =
     (if c_stopped (h_ctx h) \<or> \<not> has_work h then Returned (host_settle h)
      else
        and_then
          (case ev of
             Net i k r \<Rightarrow> outside HE i (Complete k r) h
           | Gc i \<Rightarrow> outside HE i Collect h
           | Call p \<Rightarrow> (case call_handler HE n p h of JsThrew e h \<Rightarrow> Crash UncaughtException | x \<Rightarrow> x))
          (io_ctx_run HE n evs))"

text \<open>The destructor takes the rejection tracker away first.\<close>

definition tracked :: "js_act \<Rightarrow> bool" where
  "tracked a = (case a of Reject _ _ \<Rightarrow> True | EventLoop.Handle _ \<Rightarrow> True | _ \<Rightarrow> False)"

definition untracked :: "host_env \<Rightarrow> host_env" where
  "untracked HE = HE\<lparr>
     he_js := (he_js HE)\<lparr>js_body := \<lambda>f c. apfst (filter (\<lambda>a. \<not> tracked a)) (js_body (he_js HE) f c)\<rparr>,
     he_listener := \<lambda>i call h. apfst (filter (\<lambda>a. \<not> tracked a)) (he_listener HE i call h)\<rparr>"

fun host_gc :: "host_env \<Rightarrow> nat list \<Rightarrow> host \<Rightarrow> progress" where
  "host_gc HE [] h = Go h"
| "host_gc HE (i # is) h = and_then (outside HE i Collect h) (host_gc HE is)"

definition host_cleanup :: "host \<Rightarrow> progress" where
  "host_cleanup h =
     and_then
       (of_result (bnd (cleanup_resources (active_resources (h_io h)) ((h_io h)\<lparr>active_resources := []\<rparr>))
          (\<lambda>w. Inr (h\<lparr>h_io := w\<rparr>))))
       Returned"

text \<open>\<open>gcs\<close> are the sockets that \<open>JS_RunGC\<close> finds to be garbage.\<close>

definition host_dtor :: "host_env \<Rightarrow> nat \<Rightarrow> nat list \<Rightarrow> host_event list \<Rightarrow> host \<Rightarrow> progress" where
  "host_dtor HE n gcs evs h =
     (let h = h\<lparr>h_ctx := SandboxContext_dtor (h_ctx h)\<rparr>;
          h = h\<lparr>h_io := fold cancel_resource (active_resources (h_io h)) (h_io h)\<rparr>
      in and_then (host_gc (untracked HE) gcs h)
           (\<lambda>h. case io_ctx_run (untracked HE) n evs h of
              Returned h \<Rightarrow> host_cleanup h
            | x \<Rightarrow> x))"

end
