(* ===== verification/HostProps.thy ===== *)
theory HostProps
  imports Host
begin

text \<open>
  What holds of a whole context whose scripts keep their sockets and listeners, never close a socket,
  connect to addresses only and can open every socket: no step has a fault, \<open>run\<close> does not return before the work is done, and the destructor leaves
  nothing behind.
\<close>

section \<open>The invariant\<close>

text \<open>\<open>A\<close> are the calls that scripts make into the context.\<close>

definition keeps_socket :: "host_env \<Rightarrow> io_act \<Rightarrow> bool" where
  "keeps_socket HE a \<longleftrightarrow> (case a of OnSocket i a \<Rightarrow> safe_act (he_socks HE i) a \<and> a \<noteq> ADrop | MakeSocket \<Rightarrow> True)"

definition keeps_sockets :: "host_env \<Rightarrow> bool" where
  "keeps_sockets HE \<longleftrightarrow> (\<forall>i. safe_env True (he_socks HE i)) \<and> (\<forall>f h. list_all (keeps_socket HE) (he_timer HE f h)) \<and>
     (\<forall>j h. list_all (keeps_socket HE) (he_job HE j h)) \<and> (\<forall>i call h. list_all (keeps_socket HE) (snd (he_listener HE i call h)))"

definition calls_in :: "host_env \<Rightarrow> js_act set \<Rightarrow> bool" where
  "calls_in HE A \<longleftrightarrow> bodies_in (he_js HE) A \<and> (\<forall>i call h. set (fst (he_listener HE i call h)) \<subseteq> A)"

lemma calls_in_UNIV [simp]: "calls_in HE UNIV"
  by (simp add: calls_in_def)

definition io_ok :: "io_state \<Rightarrow> bool" where
  "io_ok w \<longleftrightarrow> held.every w \<and> registry_ok w"

definition host_ok :: "js_env \<Rightarrow> js_act set \<Rightarrow> (nat \<Rightarrow> int) \<Rightarrow> bool \<Rightarrow> host \<Rightarrow> bool" where
  "host_ok E A clock ok h \<longleftrightarrow> run_from E A (SandboxContext_init clock) ok (h_ctx h) \<and> io_ok (h_io h)"

lemma io_start_ok: "io_ok io_start"
  by (simp add: io_ok_def held.every_start registry_start)

lemma host_start_ok: "host_ok E A clock True (host_start clock)"
  by (simp add: host_ok_def host_start_def io_start_ok run_start)

lemma io_run_ok:
  assumes "io_ok w" and "list_all (held.allowed S) evs"
  shows "\<exists>w'. io_run S evs w = Inr w' \<and> io_ok w'"
proof -
  have h: "held.every w" "registry_ok w" using assms(1) by (simp_all add: io_ok_def)
  obtain w' where w': "io_run S evs w = Inr w'" "held.every w'" using held.run_total [OF h(1) assms(2)] by blast
  with registry_run [OF h(2) held_life [OF h(1)]] show ?thesis by (auto simp: io_ok_def)
qed

lemma io_step_ok:
  assumes "io_ok w" and "held.allowed S x"
  shows "\<exists>w'. io_step S x w = Inr w' \<and> io_ok w'"
  using io_run_ok [OF assms(1), of S "[x]"] assms(2) by (auto simp: bnd_Inr)

lemma allowed_acts:
  assumes "keeps_sockets HE" and "list_all (keeps_socket HE) ios"
  shows "list_all (held.allowed (he_socks HE)) (map io_event_of ios)"
  using assms by (auto simp: list_all_iff keeps_socket_def keeps_sockets_def io_event_of_def held.allowed_def io_safe_def
      safe_event_def safe_acts_def split: io_act.splits)

lemma allowed_event:
  "keeps_sockets HE \<Longrightarrow> ev = Handle \<or> (\<exists>k r. ev = Complete k r) \<Longrightarrow> held.allowed (he_socks HE) (At i ev)"
  by (auto simp: held.allowed_def io_safe_def safe_event_def keeps_sockets_def)

section \<open>Steps\<close>

lemma host_script_ok:
  assumes "keeps_sockets HE" and "host_ok (he_js HE) A clock ok h" and "set js \<subseteq> A" and "list_all (keeps_socket HE) ios"
  shows "\<exists>h'. host_script HE js ios h = Inr h' \<and> host_ok (he_js HE) A clock ok h' \<and>
    h_ctx h' = fold (do_act (he_js HE)) js (h_ctx h)"
proof -
  have w: "io_ok (h_io h)" using assms(2) by (simp add: host_ok_def)
  obtain w' where "io_run (he_socks HE) (map io_event_of ios) (h_io h) = Inr w'" "io_ok w'"
    using io_run_ok [OF w allowed_acts [OF assms(1,4)]] by blast
  moreover have "run_from (he_js HE) A (SandboxContext_init clock) ok (fold (do_act (he_js HE)) js (h_ctx h))"
    using assms(2,3) by (simp add: host_ok_def run_script)
  ultimately show ?thesis by (simp add: host_script_def host_ok_def)
qed

lemma host_ctx_ok:
  assumes "host_ok E A clock ok h" and "run_from E A (SandboxContext_init clock) ok (h_ctx h) \<Longrightarrow>
    run_from E A (SandboxContext_init clock) ok' c"
  shows "host_ok E A clock ok' (h\<lparr>h_ctx := c\<rparr>)"
  using assms by (auto simp: host_ok_def)

lemma host_settle_ok: "host_ok E A clock ok h \<Longrightarrow> host_ok E A clock ok (host_settle h)"
  by (auto simp: host_settle_def intro: host_ctx_ok run_stopped)

lemma host_fatal_ok: "host_ok E A clock ok h \<Longrightarrow> host_ok E A clock ok (host_fatal e h)"
  by (auto simp: host_fatal_def intro: host_ctx_ok run_fatal)

text \<open>The outcomes of code that has no fault: \<open>G\<close> holds when it goes on, \<open>T\<close> when it throws, \<open>R\<close> when \<open>run\<close> returns.\<close>

definition ends_in :: "(host \<Rightarrow> bool) \<Rightarrow> (host \<Rightarrow> bool) \<Rightarrow> (host \<Rightarrow> bool) \<Rightarrow> progress \<Rightarrow> bool" where
  "ends_in G T R p \<longleftrightarrow>
     (case p of NoFuel \<Rightarrow> True | Crash f \<Rightarrow> False | JsThrew e h \<Rightarrow> T h | Go h \<Rightarrow> G h | Returned h \<Rightarrow> R h)"

lemma ends_in_simps [simp]:
  "ends_in G T R NoFuel" "\<not> ends_in G T R (Crash f)" "ends_in G T R (JsThrew e h) \<longleftrightarrow> T h"
  "ends_in G T R (Go h) \<longleftrightarrow> G h" "ends_in G T R (Returned h) \<longleftrightarrow> R h"
  by (simp_all add: ends_in_def)

abbreviation no_host :: "host \<Rightarrow> bool" where
  "no_host \<equiv> \<lambda>_. False"

lemma host_drain_ok:
  assumes "keeps_sockets HE" and "calls_in HE A" and "host_ok (he_js HE) A clock ok h"
  shows "ends_in (\<lambda>h. host_ok (he_js HE) A clock ok h \<and> c_jobs (h_ctx h) = []) (host_ok (he_js HE) A clock ok) no_host (host_drain HE n h)"
  using assms(3)
proof (induction n arbitrary: h)
  case (Suc n)
  show ?case
  proof (cases "c_jobs (h_ctx h)")
    case (Cons j js)
    let ?h = "h\<lparr>h_ctx := (h_ctx h)\<lparr>c_jobs := js\<rparr>\<rparr>"
    obtain acts exc where b: "js_body (he_js HE) j (h_ctx h) = (acts, exc)" by fastforce
    then have "set acts \<subseteq> A" using assms(2) by (metis calls_in_def bodies_in_def fst_conv)
    moreover have "host_ok (he_js HE) A clock ok ?h" using Suc.prems by (rule host_ctx_ok) (rule run_job)
    moreover have "list_all (keeps_socket HE) (he_job HE j h)" using assms(1) by (simp add: keeps_sockets_def)
    ultimately obtain h' where "host_script HE acts (he_job HE j h) ?h = Inr h'" "host_ok (he_js HE) A clock ok h'"
      using host_script_ok [OF assms(1)] by blast
    with Suc.IH [of h'] Cons b show ?thesis by (cases exc) simp_all
  qed (use Suc.prems in simp)
qed simp

lemma call_handler_ok:
  assumes "keeps_sockets HE" and "calls_in HE A" and "host_ok (he_js HE) A clock ok h"
  shows "ends_in (host_ok (he_js HE) A clock ok) (host_ok (he_js HE) A clock False) no_host (call_handler HE n p h)"
proof (cases p)
  case ContextHandler
  show ?thesis
  proof (cases "run_ready (he_js HE) n (h_ctx h)")
    case (Some rc)
    obtain r c where rc: "rc = (r, c)" by (cases rc)
    let ?ios = "concat (map (\<lambda>f. he_timer HE f (h\<lparr>h_ctx := c\<rparr>)) (drop (length (c_called (h_ctx h))) (c_called c)))"
    have "host_ok (he_js HE) A clock (ok \<and> \<not> isl r) (h\<lparr>h_ctx := c\<rparr>)"
      using assms(3) by (rule host_ctx_ok) (use run_handler Some rc in blast)
    moreover have "list_all (keeps_socket HE) ?ios" using assms(1) by (auto simp: keeps_sockets_def list_all_iff)
    ultimately obtain h' where h': "host_script HE [] ?ios (h\<lparr>h_ctx := c\<rparr>) = Inr h'" "host_ok (he_js HE) A clock (ok \<and> \<not> isl r) h'"
      using host_script_ok [OF assms(1), of A clock "ok \<and> \<not> isl r" _ "[]"] by force
    with host_settle_ok [OF h'(2)] ContextHandler Some rc show ?thesis
      by (cases r) (simp_all add: call_handler_def Let_def)
  qed (use ContextHandler in \<open>simp add: call_handler_def\<close>)
next
  case (SocketHandler i)
  have io: "io_ok (h_io h)" using assms(3) by (simp add: host_ok_def)
  obtain w where w: "io_step (he_socks HE) (At i Handle) (h_io h) = Inr w" "io_ok w"
    using io_step_ok [OF io allowed_event [OF assms(1)]] by blast
  let ?h = "h\<lparr>h_io := w\<rparr>"
  let ?acts = "map (\<lambda>call. he_listener HE i call ?h) (new_calls i h ?h)"
  have "host_ok (he_js HE) A clock ok ?h" using assms(3) w(2) by (simp add: host_ok_def)
  moreover have "set (fst (he_listener HE i call ?h)) \<subseteq> A" for call using assms(2) unfolding calls_in_def by blast
  then have "set (concat (map fst ?acts)) \<subseteq> A" by auto
  moreover have "list_all (keeps_socket HE) (concat (map snd ?acts))"
    using assms(1) by (auto simp: keeps_sockets_def list_all_iff)
  ultimately obtain h' where h': "host_script HE (concat (map fst ?acts)) (concat (map snd ?acts)) ?h = Inr h'"
    "host_ok (he_js HE) A clock ok h'"
    using host_script_ok [OF assms(1)] by blast
  with host_settle_ok [OF h'(2)] SocketHandler w(1) show ?thesis by (simp add: call_handler_def Let_def)
qed

section \<open>run\<close>

text \<open>The \<open>io_context\<close> is only stopped when there was nothing left to do.\<close>

definition stop_ok :: "host \<Rightarrow> bool" where
  "stop_ok h \<longleftrightarrow> c_stopped (h_ctx h) \<longrightarrow> \<not> has_work h"

lemma host_script_stopped: "host_script HE js ios h = Inr h' \<Longrightarrow> c_stopped (h_ctx h') = c_stopped (h_ctx h)"
  by (auto simp: host_script_def bnd_Inr script_frame)

lemma host_drain_stopped: "host_drain HE n h = Go h' \<Longrightarrow> c_stopped (h_ctx h') = c_stopped (h_ctx h)"
proof (induction n arbitrary: h)
  case (Suc n)
  show ?case
  proof (cases "c_jobs (h_ctx h)")
    case (Cons j js)
    obtain acts exc where b: "js_body (he_js HE) j (h_ctx h) = (acts, exc)" by fastforce
    let ?r = "host_script HE acts (he_job HE j h) (h\<lparr>h_ctx := (h_ctx h)\<lparr>c_jobs := js\<rparr>\<rparr>)"
    obtain h1 where h1: "?r = Inr h1" using Suc.prems Cons b by (cases ?r) simp_all
    with Suc.prems Cons b have "exc = None" "host_drain HE n h1 = Go h'" by (cases exc, simp_all)+
    with Suc.IH host_script_stopped [OF h1] show ?thesis by simp
  qed (use Suc.prems in simp)
qed simp

lemma settle_work [simp]: "has_work (host_settle h) = has_work h"
  by (simp add: host_settle_def has_work_def)

lemma settle_stopped: "\<not> c_stopped (h_ctx h) \<Longrightarrow> stop_ok (host_settle h)"
  by (simp add: stop_ok_def) (simp add: host_settle_def split: if_splits)

lemma call_handler_stop:
  assumes "call_handler HE n p h = Go h'" and "\<not> c_stopped (h_ctx h)"
  shows "stop_ok h'"
proof (cases p)
  case ContextHandler
  from assms(1) ContextHandler obtain r c where rc: "run_ready (he_js HE) n (h_ctx h) = Some (r, c)"
    by (auto simp: call_handler_def split: option.splits)
  let ?ios = "concat (map (\<lambda>f. he_timer HE f (h\<lparr>h_ctx := c\<rparr>)) (drop (length (c_called (h_ctx h))) (c_called c)))"
  obtain h1 where h1: "host_script HE [] ?ios (h\<lparr>h_ctx := c\<rparr>) = Inr h1"
    using assms(1) ContextHandler rc
    by (cases "host_script HE [] ?ios (h\<lparr>h_ctx := c\<rparr>)") (simp_all add: call_handler_def Let_def)
  then have "h' = host_settle h1"
    using assms(1) ContextHandler rc by (cases r) (simp_all add: call_handler_def Let_def)
  moreover have "\<not> c_stopped (h_ctx h1)" using host_script_stopped [OF h1] ready_stopped [OF rc] assms(2) by simp
  ultimately show ?thesis by (simp add: settle_stopped)
next
  case (SocketHandler i)
  let ?r = "io_step (he_socks HE) (At i Handle) (h_io h)"
  obtain w where w: "?r = Inr w"
    using assms(1) SocketHandler by (cases ?r) (simp_all add: call_handler_def)
  let ?h = "h\<lparr>h_io := w\<rparr>"
  let ?acts = "map (\<lambda>call. he_listener HE i call ?h) (new_calls i h ?h)"
  let ?s = "host_script HE (concat (map fst ?acts)) (concat (map snd ?acts)) ?h"
  obtain h1 where h1: "?s = Inr h1"
    using assms(1) SocketHandler w by (cases ?s) (simp_all add: call_handler_def Let_def)
  then have "h' = host_settle h1" using assms(1) SocketHandler w by (simp add: call_handler_def Let_def)
  moreover have "\<not> c_stopped (h_ctx h1)" using host_script_stopped [OF h1] assms(2) by simp
  ultimately show ?thesis by (simp add: settle_stopped)
qed

text \<open>What is left when \<open>run\<close> returns without a fatal error: nothing but what the last microtasks made.\<close>

definition ran_out :: "host_env \<Rightarrow> host \<Rightarrow> bool" where
  "ran_out HE h \<longleftrightarrow> c_jobs (h_ctx h) = [] \<and> pending_rejections (h_ctx h) = [] \<and> c_stopped (h_ctx h) \<and>
     (\<exists>h1 m. \<not> has_work h1 \<and> live (h_ctx h1) = {} \<and> host_drain HE m h1 = Go h)"

lemma no_live:
  assumes "host_ok E A clock True h" and "\<not> has_work h"
  shows "live (h_ctx h) = {}"
proof -
  have "run_from E A (SandboxContext_init clock) True (h_ctx h)" using assms(1) by (simp add: host_ok_def)
  from timer_armed_aux [OF run_from_mono [OF this subset_UNIV]] assms(2) show ?thesis by (auto simp: has_work_def)
qed

lemma host_turn_ok:
  assumes "keeps_sockets HE" and "calls_in HE A" and ok: "host_ok (he_js HE) A clock True h" and "stop_ok h"
  shows "ends_in (\<lambda>h. host_ok (he_js HE) A clock True h \<and> stop_ok h) no_host
    (\<lambda>h. (\<exists>ok. host_ok (he_js HE) A clock ok h) \<and> (c_fatal (h_ctx h) \<noteq> None \<or> ran_out HE h)) (host_turn HE n p h)"
proof -
  have fatal: "c_fatal (h_ctx (host_fatal e x)) \<noteq> None" for e x by (simp add: host_fatal_def reportFatal_def)
  note D = host_drain_ok [OF assms(1,2) ok, of n]
  show ?thesis
  proof (cases "host_drain HE n h")
    case (JsThrew e h1)
    with D host_fatal_ok [of _ A clock True h1 e] fatal show ?thesis by (auto simp: host_turn_def)
  next
    case (Go h1)
    with D have h1: "host_ok (he_js HE) A clock True h1" "c_jobs (h_ctx h1) = []" by simp_all
    obtain r c where rc: "checkUnhandledRejections (js_toString (he_js HE)) (h_ctx h1) = (r, c)" by fastforce
    let ?h = "h1\<lparr>h_ctx := c\<rparr>"
    have okc: "host_ok (he_js HE) A clock True ?h" using h1(1) by (rule host_ctx_ok) (rule run_check [OF _ rc])
    show ?thesis
    proof (cases r)
      case (Inl e)
      with Go rc host_fatal_ok [OF okc, of e] fatal show ?thesis by (auto simp: host_turn_def)
    next
      case (Inr u)
      then have c: "c = h_ctx h1" "pending_rejections c = []"
        using rc by (auto simp: checkUnhandledRejections_def Let_def split: if_splits prod.splits)
      then have same: "?h = h1" by simp
      have jobs: "host_drain HE 1 h2 = Go h2" if "c_jobs (h_ctx h2) = []" for h2 using that by simp
      have sj: "c_jobs (h_ctx (host_settle h1)) = []" "pending_rejections (h_ctx (host_settle h1)) = []"
        using h1(2) c by (simp_all add: host_settle_def)
      consider (stopped) "c_stopped (h_ctx h1)" | (idle) "\<not> c_stopped (h_ctx h1)" "\<not> has_work h1"
        | (work) "\<not> c_stopped (h_ctx h1)" "has_work h1" by blast
      then show ?thesis
      proof cases
        case stopped
        then have "\<not> has_work h" "live (h_ctx h) = {}"
          using assms(4) host_drain_stopped [OF Go] no_live [OF ok] by (simp_all add: stop_ok_def)
        moreover have "host_settle h1 = h1" using stopped by (cases h1; cases "h_ctx h1") (simp add: host_settle_def)
        ultimately have "ran_out HE (host_settle h1)" using Go stopped sj by (auto simp: ran_out_def)
        moreover have "host_turn HE n p h = Returned (host_settle h1)"
          using Go rc Inr same stopped c(1) by (simp add: host_turn_def Let_def)
        ultimately show ?thesis using host_settle_ok [OF h1(1)] by auto
      next
        case idle
        note s = host_settle_ok [OF h1(1)]
        have "ran_out HE (host_settle h1)"
        proof -
          have "\<not> has_work (host_settle h1)" using idle(2) by simp
          moreover have "c_stopped (h_ctx (host_settle h1))" using idle(2) by (simp add: host_settle_def)
          ultimately show ?thesis unfolding ran_out_def using jobs [OF sj(1)] sj no_live [OF s] by blast
        qed
        moreover have "host_turn HE n p h = Returned (host_settle h1)"
          using Go rc Inr same idle by (simp add: host_turn_def Let_def)
        ultimately show ?thesis using s by auto
      next
        case work
        have t: "host_turn HE n p h = (case call_handler HE n p h1 of JsThrew e h \<Rightarrow> Returned (host_fatal e h) | x \<Rightarrow> x)"
          using Go rc Inr same work c(1) by (simp add: host_turn_def Let_def)
        note C = call_handler_ok [OF assms(1,2) h1(1), of n p]
        show ?thesis
        proof (cases "call_handler HE n p h1")
          case (JsThrew e h2)
          with C host_fatal_ok [of _ A clock False h2 e] fatal t show ?thesis by auto
        next
          case (Go h2)
          with C t call_handler_stop [OF Go work(1)] show ?thesis by simp
        qed (use C t in simp_all)
      qed
    qed
  qed (use D in \<open>simp_all add: host_turn_def\<close>)
qed

text \<open>Nothing happens to an \<open>io_context\<close> that has no work.\<close>

lemma outside_ok:
  assumes "keeps_sockets HE" and "host_ok E A clock ok h" and "stop_ok h"
  shows "\<exists>h'. outside HE i (Complete k r) h = Go h' \<and> host_ok E A clock ok h' \<and> stop_ok h'"
proof -
  have io: "io_ok (h_io h)" using assms(2) by (simp add: host_ok_def)
  obtain w where w: "io_step (he_socks HE) (At i (Complete k r)) (h_io h) = Inr w" "io_ok w"
    using io_step_ok [OF io allowed_event [OF assms(1)]] by blast
  have "w = h_io h" if "\<not> has_work h"
  proof (cases "i < length (io_socks (h_io h))")
    case True
    then have "tp_inflight (sk_transport (io_socks (h_io h) ! i)) = []"
      using that by (auto simp: has_work_def list_all_length sock_idle_def)
    with w(1) True show ?thesis by (simp add: io_step_def sock_step_def Let_def split: if_splits)
  qed (use w(1) in \<open>simp add: io_step_def\<close>)
  with assms(2,3) w have "host_ok E A clock ok (h\<lparr>h_io := w\<rparr>) \<and> stop_ok (h\<lparr>h_io := w\<rparr>)"
    by (cases "has_work h") (auto simp: host_ok_def stop_ok_def)
  with w(1) show ?thesis by (simp add: outside_def)
qed

definition no_gc :: "host_event list \<Rightarrow> bool" where
  "no_gc evs \<longleftrightarrow> list_all (\<lambda>ev. case ev of Gc i \<Rightarrow> False | _ \<Rightarrow> True) evs"

lemma no_gc_simps [simp]: "no_gc []" "no_gc (Net i k r # evs) = no_gc evs" "no_gc (Call p # evs) = no_gc evs"
  "\<not> no_gc (Gc i # evs)"
  by (simp_all add: no_gc_def)

lemma host_run_ok:
  assumes "keeps_sockets HE" and "calls_in HE A" and "host_ok (he_js HE) A clock True h" and "stop_ok h" and "no_gc evs"
  shows "ends_in (host_ok (he_js HE) A clock True) no_host
    (\<lambda>h. (\<exists>ok. host_ok (he_js HE) A clock ok h) \<and> (c_fatal (h_ctx h) \<noteq> None \<or> ran_out HE h)) (host_run HE n evs h)"
  using assms(3-5)
proof (induction evs arbitrary: h)
  case (Cons ev evs)
  show ?case
  proof (cases ev)
    case (Net i k r)
    with outside_ok [OF assms(1) Cons.prems(1,2), of i k r] Cons show ?thesis by auto
  next
    case (Call p)
    with host_turn_ok [OF assms(1,2) Cons.prems(1,2), of n p] Cons show ?thesis
      by (cases "host_turn HE n p h") simp_all
  qed (use Cons.prems in simp)
qed simp

section \<open>The destructor\<close>

definition no_timer :: "js_act set" where
  "no_timer = {a. case a of SetTimeout _ \<Rightarrow> False | SetInterval _ \<Rightarrow> False | _ \<Rightarrow> True}"

lemma no_timer_act:
  assumes "a \<in> no_timer" and "\<not> tracked a"
  shows "c_wait (do_act E a c) = c_wait c \<and> c_refs (do_act E a c) = c_refs c"
  using assms
  by (intro do_act_rule [where P = "\<lambda>c'. c_wait c' = c_wait c \<and> c_refs c' = c_refs c"])
    (auto simp: no_timer_def tracked_def sched_of_def cancelTimer_def split: js_act.splits option.splits)

lemma no_timer_script:
  "set as \<subseteq> no_timer \<Longrightarrow> list_all (\<lambda>a. \<not> tracked a) as \<Longrightarrow>
   c_wait (fold (do_act E) as c) = c_wait c \<and> c_refs (fold (do_act E) as c) = c_refs c"
  by (induction as arbitrary: c) (auto simp: no_timer_act)

text \<open>While the handlers run: the timer is gone and the references of the context are settled.\<close>

definition closing :: "(jsval \<Rightarrow> int) \<Rightarrow> host \<Rightarrow> bool" where
  "closing R h \<longleftrightarrow> c_wait (h_ctx h) = None \<and> c_refs (h_ctx h) = R \<and> io_ok (h_io h)"

lemma closing_settle: "closing R h \<Longrightarrow> closing R (host_settle h)"
  by (simp add: closing_def host_settle_def)

definition quiet_listeners :: "host_env \<Rightarrow> bool" where
  "quiet_listeners HE \<longleftrightarrow> (\<forall>i call h. set (fst (he_listener HE i call h)) \<subseteq> no_timer)"

lemma untracked_simps [simp]:
  "he_socks (untracked HE) = he_socks HE" "keeps_sockets (untracked HE) = keeps_sockets HE"
  "snd (he_listener (untracked HE) i call h) = snd (he_listener HE i call h)"
  "fst (he_listener (untracked HE) i call h) = filter (\<lambda>a. \<not> tracked a) (fst (he_listener HE i call h))"
  "he_timer (untracked HE) = he_timer HE"
  by (simp_all add: untracked_def keeps_sockets_def keeps_socket_def [abs_def])

lemma closing_script:
  assumes "keeps_sockets HE" and "closing R h" and "set js \<subseteq> no_timer" and "list_all (\<lambda>a. \<not> tracked a) js"
    and "list_all (keeps_socket HE) ios"
  shows "\<exists>h'. host_script (untracked HE) js ios h = Inr h' \<and> closing R h'"
proof -
  have "io_ok (h_io h)" using assms(2) by (simp add: closing_def)
  from io_run_ok [OF this allowed_acts [OF assms(1,5)]] no_timer_script [OF assms(3,4)] assms(2)
  show ?thesis by (auto simp: host_script_def closing_def)
qed

lemma closing_handler:
  assumes "keeps_sockets HE" and "quiet_listeners HE" and "closing R h"
  shows "\<exists>h'. call_handler (untracked HE) n p h = Go h' \<and> closing R h'"
proof (cases p)
  case ContextHandler
  have w: "c_wait (h_ctx h) = None" using assms(3) by (simp add: closing_def)
  obtain k c where c: "run_ready (he_js (untracked HE)) n (h_ctx h) = Some (Inr k, c)"
    and same: "c_wait c = None" "c_refs c = c_refs (h_ctx h)" "c_called c = c_called (h_ctx h)"
    using w by (cases "c_ready (h_ctx h)") (auto simp: run_ready_def)
  have "closing R (h\<lparr>h_ctx := c\<rparr>)" using assms(3) same by (simp add: closing_def)
  then obtain h' where "host_script (untracked HE) [] [] (h\<lparr>h_ctx := c\<rparr>) = Inr h'" "closing R h'"
    using closing_script [OF assms(1), of R _ "[]" "[]"] by auto
  with closing_settle [of R h'] c same ContextHandler show ?thesis by (auto simp: call_handler_def Let_def)
next
  case (SocketHandler i)
  have "io_ok (h_io h)" using assms(3) by (simp add: closing_def)
  then obtain w where w: "io_step (he_socks HE) (At i Handle) (h_io h) = Inr w" "io_ok w"
    using io_step_ok [OF _ allowed_event [OF assms(1)]] by blast
  let ?h = "h\<lparr>h_io := w\<rparr>"
  let ?acts = "map (\<lambda>call. he_listener (untracked HE) i call ?h) (new_calls i h ?h)"
  have "set (fst (he_listener HE i call ?h)) \<subseteq> no_timer" for call using assms(2) unfolding quiet_listeners_def by blast
  then have "set (concat (map fst ?acts)) \<subseteq> no_timer" by auto
  moreover have "list_all (\<lambda>a. \<not> tracked a) (concat (map fst ?acts))" by (auto simp: list_all_iff)
  moreover have "list_all (keeps_socket HE) (concat (map snd ?acts))"
    using assms(1) by (auto simp: keeps_sockets_def list_all_iff)
  moreover have "closing R ?h" using assms(3) w(2) by (simp add: closing_def)
  ultimately obtain h' where "host_script (untracked HE) (concat (map fst ?acts)) (concat (map snd ?acts)) ?h = Inr h'" "closing R h'"
    using closing_script [OF assms(1)] by blast
  with closing_settle [of R h'] SocketHandler w(1) show ?thesis by (simp add: call_handler_def Let_def)
qed

lemma closing_outside:
  assumes "keeps_sockets HE" and "closing R h"
  shows "\<exists>h'. outside (untracked HE) i (Complete k r) h = Go h' \<and> closing R h'"
proof -
  have "io_ok (h_io h)" using assms(2) by (simp add: closing_def)
  from io_step_ok [OF this allowed_event [OF assms(1), of "Complete k r" i]] assms(2)
  show ?thesis by (auto simp: outside_def closing_def)
qed

lemma closing_run:
  assumes "keeps_sockets HE" and "quiet_listeners HE" and "closing R h" and "no_gc evs"
  shows "case io_ctx_run (untracked HE) n evs h of
    Returned h' \<Rightarrow> closing R h' | Go h' \<Rightarrow> closing R h' \<and> has_work h' \<and> \<not> c_stopped (h_ctx h') | _ \<Rightarrow> False"
  using assms(3,4)
proof (induction evs arbitrary: h)
  case Nil
  then show ?case using closing_settle [of R h] by simp
next
  case (Cons ev evs)
  show ?case
  proof (cases "c_stopped (h_ctx h) \<or> \<not> has_work h")
    case False
    show ?thesis
    proof (cases ev)
      case (Net i k r)
      with closing_outside [OF assms(1) Cons.prems(1), of i k r] Cons False show ?thesis by auto
    next
      case (Call p)
      with closing_handler [OF assms(1,2) Cons.prems(1), of n p] Cons False show ?thesis by auto
    qed (use Cons.prems in simp)
  qed (use closing_settle [OF Cons.prems(1)] in auto)
qed

end
