(* ===== verification/HostFuel.thy ===== *)
theory HostFuel
  imports HostProps
begin

text \<open>
  When functions enqueue no jobs of their own, delays are not negative, intervals are positive and the clock
  moves on, every turn of \<open>run\<close> ends: there is fuel that is enough, and more does not matter.
\<close>

section \<open>The clock\<close>

definition clock_from :: "cstate \<Rightarrow> cstate \<Rightarrow> bool" where
  "clock_from c0 c \<longleftrightarrow> (\<exists>k. c_clock c = (\<lambda>i. c_clock c0 (k + i)))"

lemma clock_refl: "c_clock c = c_clock c0 \<Longrightarrow> clock_from c0 c"
  unfolding clock_from_def by (rule exI [of _ 0]) simp

lemma clock_trans: "clock_from c0 c1 \<Longrightarrow> clock_from c1 c2 \<Longrightarrow> clock_from c0 c2"
  unfolding clock_from_def by (metis (no_types, lifting) add.assoc)

lemma clock_tick: "clock_from c (snd (steady_now c))"
  unfolding clock_from_def by (rule exI [of _ 1]) (simp add: steady_now_def)

lemma clock_script: "clock_from c (fold (do_act E) as c)"
proof (induction as arbitrary: c)
  case (Cons a as)
  have "clock_from c (do_act E a c)"
  proof (rule do_act_rule)
    show "clock_from c (snd (scheduleTimer f ms rep c))" for f ms rep
      unfolding clock_from_def by (rule exI [of _ 1]) (simp add: scheduleTimer_eq)
  qed (auto intro: clock_refl simp: cancelTimer_def split: option.split)
  with Cons [of "do_act E a c"] show ?case by (auto intro: clock_trans)
qed (simp add: clock_refl)

lemma clock_round: "clock_from c (snd (process_step E now c))"
proof -
  have "clock_from c (snd (JS_Call E e (c\<lparr>timer_heap := hs\<rparr>)))" for e hs
    using clock_script [of "c\<lparr>timer_heap := hs, c_called := c_called c @ [fire_of e]\<rparr>" E]
    by (simp add: JS_Call_eq clock_from_def)
  then show ?thesis
    by (simp add: process_step_def Let_def case_prod_unfold split: list.split option.split)
      (simp add: clock_from_def clock_refl [unfolded clock_from_def])
qed

lemma clock_loop: "process_loop E n now c = Some (r, c') \<Longrightarrow> clock_from c c'"
proof (induction n arbitrary: c)
  case (Suc n)
  have c: "clock_from c (snd (process_step E now c))" by (rule clock_round)
  with Suc show ?case by (auto split: prod.splits round_result.splits intro: clock_trans)
qed simp

lemma clock_run: "run_from E A c0 ok c \<Longrightarrow> clock_from c0 c"
proof (induction rule: run_from.induct)
  case (run_drain ok c n r c')
  have "drainMicrotasks E n c = Some (r, c') \<Longrightarrow> clock_from c c'" for c
  proof (induction n arbitrary: c)
    case (Suc n)
    show ?case
    proof (cases "c_jobs c")
      case (Cons j js)
      have "clock_from c (fold (do_act E) as (c\<lparr>c_jobs := js\<rparr>))" for as
        using clock_script [of "c\<lparr>c_jobs := js\<rparr>" E as] by (simp add: clock_from_def)
      with Suc Cons show ?thesis
        by (auto simp: Let_def case_prod_unfold split: option.splits intro: clock_trans)
    qed (use Suc.prems in \<open>simp add: clock_refl\<close>)
  qed simp
  with run_drain show ?case by (blast intro: clock_trans)
next
  case (run_handler ok c n r c')
  have "clock_from c c'"
    using run_handler.hyps(2)
  proof (cases rule: run_ready_cases)
    case (timer t r1)
    have "clock_from c (snd (steady_now (c\<lparr>c_wait := None\<rparr>)))"
      using clock_tick [of "c\<lparr>c_wait := None\<rparr>"] by (simp add: clock_from_def)
    moreover from timer(2) have "clock_from (snd (steady_now (c\<lparr>c_wait := None\<rparr>))) c'"
    proof (cases rule: timer_fired_cases)
      case (fired c1)
      from clock_loop [OF fired(1)] show ?thesis by (simp add: fired(3) clock_from_def)
    qed (use clock_loop in blast)
    ultimately show ?thesis by (rule clock_trans)
  qed (simp_all add: clock_refl)
  with run_handler.IH show ?case by (rule clock_trans)
next
  case (run_script ok c as)
  then show ?case by (blast intro: clock_trans clock_script)
next
  case (run_check ok c r c')
  with check_simps(6) show ?case by (auto simp: clock_from_def)
qed (simp_all add: clock_refl, simp_all add: clock_from_def stop_def Let_def reportFatal_def)

section \<open>Intervals\<close>

definition intervals_positive :: "cstate \<Rightarrow> bool" where
  "intervals_positive c \<longleftrightarrow> (\<forall>i e. entry_of c i = Some e \<longrightarrow> te_repeating e \<longrightarrow> 0 < te_interval_ms e)"

lemma intervals_cong: "timer_entries c' = timer_entries c \<Longrightarrow> intervals_positive c' = intervals_positive c"
  by (simp add: intervals_positive_def)

lemma intervals_act:
  assumes "a \<in> paced_acts E" and "intervals_positive c"
  shows "intervals_positive (do_act E a c)"
proof (rule do_act_rule)
  fix f ms rep
  assume "sched_of E a = Some (f, ms, rep)"
  with assms show "intervals_positive (snd (scheduleTimer f ms rep c))"
    by (auto simp: paced_acts_def scheduleTimer_eq intervals_positive_def)
next
  show "intervals_positive (cancelTimer i c)" for i
    using assms(2) by (auto simp: intervals_positive_def cancelTimer_def split: option.split)
qed (use assms(2) in \<open>simp_all add: intervals_positive_def\<close>)

interpretation intervals: script_inv E "paced_acts E" intervals_positive for E
  by unfold_locales (rule intervals_act)

lemma intervals_erase: "tinv X c \<Longrightarrow> intervals_positive c \<Longrightarrow> intervals_positive (erase_entry i e c)"
  using map_find_erase [OF tinvD(3), of X c i] by (auto simp: intervals_positive_def)

interpretation intervals: event_inv E "paced_acts E" intervals_positive for E
proof
  fix X c now r c'
  assume A: "bodies_in E (paced_acts E)" "tables_ok X c" "intervals_positive c" "process_step E now c = (r, c')"
  show "intervals_positive c'"
  proof (cases rule: process_step_cases [OF tables_okD [OF A(2)], of E now])
    case 1
    with A show ?thesis by simp
  next
    case (2 tp rest e)
    have "tinv (insert (hp_id tp) X) (c\<lparr>timer_heap := rest\<rparr>)" using tinv_pop [OF tables_okD(1) [OF A(2)] 2(1)] .
    from intervals_erase [OF this] 2 A(3,4) show ?thesis by (simp add: intervals_positive_def)
  next
    case (3 tp rest e exc c1)
    have "intervals_positive (c\<lparr>timer_heap := rest, c_called := c_called c @ [fire_of e]\<rparr>)"
      using A(3) by (simp add: intervals_positive_def)
    then have "intervals_positive c1" by (rule intervals.call [OF A(2) 3(1) A(1) 3(6)])
    with 3 A(4) show ?thesis by simp
  next
    case (4 tp rest e c1 e1)
    have "intervals_positive (c\<lparr>timer_heap := rest, c_called := c_called c @ [fire_of e]\<rparr>)"
      using A(3) by (simp add: intervals_positive_def)
    then have i: "intervals_positive c1" by (rule intervals.call [OF A(2) 4(1) A(1) 4(6)])
    moreover have "te_repeating e1 \<Longrightarrow> 0 < te_interval_ms e1" using i 4(9) by (auto simp: intervals_positive_def)
    ultimately have "intervals_positive (after_call now (hp_id tp) e1 c1)"
      using intervals_erase [OF 4(7) i, of "hp_id tp" e1]
      by (auto simp: after_call_def Let_def intervals_positive_def)
    with 4 A(4) show ?thesis by simp
  qed
qed (use check_simps(2) intervals_cong in \<open>metis+\<close>)

section \<open>Enough fuel\<close>

text \<open>With fuel from some bound on, the outcome is always the same and not that fuel is missing.\<close>

definition settles :: "(nat \<Rightarrow> progress) \<Rightarrow> bool" where
  "settles f \<longleftrightarrow> (\<exists>p n0. p \<noteq> NoFuel \<and> (\<forall>n\<ge>n0. f n = p))"

lemma settles_const [simp]: "settles (\<lambda>n. p) \<longleftrightarrow> p \<noteq> NoFuel"
  by (auto simp: settles_def)

lemma settles_Suc: "settles (\<lambda>n. f (Suc n)) \<Longrightarrow> settles f"
proof -
  assume "settles (\<lambda>n. f (Suc n))"
  then obtain p n0 where p: "p \<noteq> NoFuel" "\<forall>n\<ge>n0. f (Suc n) = p" by (auto simp: settles_def)
  have "f n = p" if "Suc n0 \<le> n" for n using that p(2) by (cases n) auto
  with p(1) show ?thesis by (auto simp: settles_def)
qed

lemma settles_bind:
  assumes "settles f" and "\<And>n x. g n NoFuel = NoFuel" and "\<And>n. f n \<noteq> NoFuel \<Longrightarrow> settles (\<lambda>m. g m (f n))"
  shows "settles (\<lambda>n. g n (f n))"
proof -
  obtain p n0 where p: "p \<noteq> NoFuel" "\<forall>n\<ge>n0. f n = p" using assms(1) by (auto simp: settles_def)
  then have "settles (\<lambda>m. g m p)" using assms(3) [of n0] by simp
  then obtain q n1 where q: "q \<noteq> NoFuel" "\<forall>n\<ge>n1. g n p = q" by (auto simp: settles_def)
  have "g n (f n) = q" if "max n0 n1 \<le> n" for n using that p q by simp
  with q(1) show ?thesis unfolding settles_def by blast
qed

lemma of_result_fuel [simp]: "of_result r \<noteq> NoFuel"
  by (cases r) simp_all

definition no_job :: "js_act set" where
  "no_job = {a. \<forall>j. a \<noteq> EnqueueJob j}"

lemma no_job_script: "set as \<subseteq> no_job \<Longrightarrow> c_jobs (fold (do_act E) as c) = c_jobs c"
proof (induction as arbitrary: c)
  case (Cons a as)
  have s: "c_jobs (snd (js_setTimer z rep argv c)) = c_jobs c" for z rep argv
    by (simp add: js_setTimer_def scheduleTimer_eq split: list.split jsarg.split)
  have "c_jobs (do_act E a c) = c_jobs c"
    using Cons.prems s by (cases a) (simp_all add: no_job_def js_setTimeout_def js_setInterval_def js_clearTimeout_def
        js_clearInterval_def cancelTimer_def split: list.split option.split)
  with Cons show ?case by simp
qed simp

lemma settles_drain:
  assumes "bodies_in (he_js HE) no_job"
  shows "settles (\<lambda>n. host_drain HE n h)"
proof (induction "c_jobs (h_ctx h)" arbitrary: h)
  case Nil
  show ?case by (rule settles_Suc) (use Nil in simp)
next
  case (Cons j js)
  obtain acts exc where b: "js_body (he_js HE) j (h_ctx h) = (acts, exc)" by fastforce
  let ?r = "host_script HE acts (he_job HE j h) (h\<lparr>h_ctx := (h_ctx h)\<lparr>c_jobs := js\<rparr>\<rparr>)"
  have acts: "set acts \<subseteq> no_job" using assms b unfolding bodies_in_def by (metis fst_conv)
  show ?case
  proof (rule settles_Suc, cases ?r)
    case (Inl f)
    then show "settles (\<lambda>n. host_drain HE (Suc n) h)" using b Cons.hyps(2) by (simp add: Cons.hyps(2) [symmetric])
  next
    case (Inr h1)
    then have "c_jobs (h_ctx h1) = js"
      using no_job_script [OF acts] by (auto simp: host_script_def bnd_Inr)
    then have "settles (\<lambda>n. host_drain HE n h1)" using Cons.hyps(1) by blast
    with Inr b show "settles (\<lambda>n. host_drain HE (Suc n) h)" by (cases exc) (simp_all add: Cons.hyps(2) [symmetric])
  qed
qed

lemma process_loop_mono: "process_loop E n now c = Some x \<Longrightarrow> n \<le> m \<Longrightarrow> process_loop E m now c = Some x"
proof (induction n arbitrary: c m)
  case (Suc n)
  then obtain m' where m: "m = Suc m'" "n \<le> m'" by (cases m) auto
  with Suc show ?case by (auto split: prod.splits round_result.splits)
qed simp

lemma ready_returns:
  assumes "run_from E (paced_acts E) (SandboxContext_init clock) True c" and "bodies_in E (paced_acts E)"
    and "\<forall>i. clock i < clock (Suc i)"
  shows "\<exists>n0 x. \<forall>n\<ge>n0. run_ready E n c = Some x"
proof (cases "c_ready c")
  case Nil
  show ?thesis
  proof (cases "c_wait c")
    case None
    with Nil show ?thesis by (simp add: run_ready_def)
  next
    case (Some t)
    let ?c = "snd (steady_now (c\<lparr>c_wait := None\<rparr>))"
    let ?now = "c_clock c 0"
    obtain X where "tables_ok X c" using run_tables [OF run_from_mono [OF assms(1) subset_UNIV]] by blast
    then have t: "tables_ok X ?c" by (rule tables_ok_cong) (simp_all add: steady_now_def)
    have "intervals_positive (SandboxContext_init clock)"
      by (simp add: intervals_positive_def SandboxContext_init_def)
    then have i: "intervals_positive c" using intervals.run [OF assms(1,2) tables_ok_init] by blast
    obtain k where k: "c_clock c = (\<lambda>i. clock (k + i))"
      using clock_run [OF assms(1)] by (auto simp: clock_from_def SandboxContext_init_def)
    have less: "clock a < clock (a + Suc b)" for a b
      by (induction b) (use assms(3) in \<open>auto intro: less_trans\<close>)
    have "?now < c_clock ?c j" for j using less [of k j] by (simp add: k steady_now_def)
    then have "paced ?now (due ?now ?c) ?c" using i by (simp add: paced_def intervals_positive_def steady_now_def)
    from loop_returns [OF t assms(2) this lessI] obtain x
      where x: "process_loop E (Suc (size (due ?now ?c))) ?now ?c = Some x" by blast
    have "run_ready E n c = run_ready E (Suc (size (due ?now ?c))) c \<and> run_ready E n c \<noteq> None"
      if "Suc (size (due ?now ?c)) \<le> n" for n
      using process_loop_mono [OF x that] x Nil Some
      by (auto simp: run_ready_def timer_fired_def processExpiredTimers_def steady_now_def
          split: option.splits sum.splits prod.splits)
    then show ?thesis by (metis option.exhaust order_refl)
  qed
qed (simp add: run_ready_def)

lemma settles_handler:
  assumes "host_ok (he_js HE) (paced_acts (he_js HE)) clock True h" and "bodies_in (he_js HE) (paced_acts (he_js HE))"
    and "\<forall>i. clock i < clock (Suc i)"
  shows "settles (\<lambda>n. call_handler HE n p h)"
proof (cases p)
  case ContextHandler
  obtain n0 r c where r: "\<forall>n\<ge>n0. run_ready (he_js HE) n (h_ctx h) = Some (r, c)"
    using ready_returns [OF _ assms(2,3), of "h_ctx h"] assms(1) by (auto simp: host_ok_def)
  let ?ios = "concat (map (\<lambda>f. he_timer HE f (h\<lparr>h_ctx := c\<rparr>)) (drop (length (c_called (h_ctx h))) (c_called c)))"
  let ?p = "and_then (of_result (host_script HE [] ?ios (h\<lparr>h_ctx := c\<rparr>)))
      (\<lambda>h. case r of Inl e \<Rightarrow> JsThrew e (host_settle h) | Inr _ \<Rightarrow> Go (host_settle h))"
  have "\<forall>n\<ge>n0. call_handler HE n p h = ?p" using ContextHandler r by (simp add: call_handler_def Let_def)
  moreover have "?p \<noteq> NoFuel"
    by (cases "host_script HE [] ?ios (h\<lparr>h_ctx := c\<rparr>)"; cases r) simp_all
  ultimately show ?thesis unfolding settles_def by blast
next
  case (SocketHandler i)
  have c: "call_handler HE n p h = call_handler HE 0 p h" for n by (simp add: call_handler_def SocketHandler)
  have "and_then (of_result r) (\<lambda>h'. and_then (of_result (g h')) (\<lambda>h. Go (host_settle h))) \<noteq> NoFuel" for r g
    by (cases r; cases "g (projr r)") simp_all
  then have "call_handler HE 0 p h \<noteq> NoFuel" by (simp add: call_handler_def SocketHandler Let_def)
  with c show ?thesis by (metis settles_def)
qed

lemma settles_turn:
  assumes "keeps_sockets HE" and "calls_in HE (paced_acts (he_js HE))" and "bodies_in (he_js HE) no_job"
    and "host_ok (he_js HE) (paced_acts (he_js HE)) clock True h" and "\<forall>i. clock i < clock (Suc i)"
  shows "settles (\<lambda>n. host_turn HE n p h)"
proof -
  let ?A = "paced_acts (he_js HE)"
  have bodies: "bodies_in (he_js HE) ?A" using assms(2) by (simp add: calls_in_def)
  define rest where "rest n x =
    (case x of
        JsThrew e h \<Rightarrow> Returned (host_fatal e h)
      | Go h \<Rightarrow>
          (case checkUnhandledRejections (js_toString (he_js HE)) (h_ctx h) of
             (Inl e, c) \<Rightarrow> Returned (host_fatal e (h\<lparr>h_ctx := c\<rparr>))
           | (Inr _, c) \<Rightarrow>
               let h = h\<lparr>h_ctx := c\<rparr>
               in if c_stopped (h_ctx h) \<or> \<not> has_work h then Returned (host_settle h)
                  else (case call_handler HE n p h of
                          JsThrew e h \<Rightarrow> Returned (host_fatal e h)
                        | x \<Rightarrow> x))
      | x \<Rightarrow> x)" for n x
  have "settles (\<lambda>m. rest m (host_drain HE n h))" if d: "host_drain HE n h \<noteq> NoFuel" for n
  proof (cases "host_drain HE n h")
    case (Go h1)
    with host_drain_ok [OF assms(1,2,4), of n] have h1: "host_ok (he_js HE) ?A clock True h1" by simp
    obtain r c where rc: "checkUnhandledRejections (js_toString (he_js HE)) (h_ctx h1) = (r, c)" by fastforce
    have "host_ok (he_js HE) ?A clock True (h1\<lparr>h_ctx := c\<rparr>)"
      using h1 by (rule host_ctx_ok) (rule run_check [OF _ rc])
    then have "settles (\<lambda>m. call_handler HE m p (h1\<lparr>h_ctx := c\<rparr>))" by (rule settles_handler [OF _ bodies assms(5)])
    then have "settles (\<lambda>m. case call_handler HE m p (h1\<lparr>h_ctx := c\<rparr>) of JsThrew e h \<Rightarrow> Returned (host_fatal e h) | x \<Rightarrow> x)"
      by (rule settles_bind [where g = "\<lambda>m x. case x of JsThrew e h \<Rightarrow> Returned (host_fatal e h) | x \<Rightarrow> x"])
        (simp_all split: progress.split)
    with Go rc show ?thesis
      by (cases r; cases "c_stopped c \<or> \<not> has_work (h1\<lparr>h_ctx := c\<rparr>)") (auto simp: rest_def Let_def)
  qed (use d in \<open>simp_all add: rest_def\<close>)
  moreover have "rest m NoFuel = NoFuel" for m by (simp add: rest_def)
  ultimately have "settles (\<lambda>n. rest n (host_drain HE n h))"
    using settles_bind [where f = "\<lambda>n. host_drain HE n h" and g = rest] settles_drain [OF assms(3)] by blast
  then show ?thesis by (simp add: host_turn_def rest_def)
qed

lemma settles_run:
  assumes "keeps_sockets HE" and "calls_in HE (paced_acts (he_js HE))" and "bodies_in (he_js HE) no_job"
    and "\<forall>i. clock i < clock (Suc i)"
    and "host_ok (he_js HE) (paced_acts (he_js HE)) clock True h" and "stop_ok h" and "no_gc evs"
  shows "settles (\<lambda>n. host_run HE n evs h)"
  using assms(5-7)
proof (induction evs arbitrary: h)
  case (Cons ev evs)
  show ?case
  proof (cases ev)
    case (Net i k r)
    with outside_ok [OF assms(1) Cons.prems(1,2), of i k r] Cons show ?thesis by auto
  next
    case (Call p)
    have "settles (\<lambda>m. and_then (host_turn HE n p h) (host_run HE m evs))" if t: "host_turn HE n p h \<noteq> NoFuel" for n
    proof (cases "host_turn HE n p h")
      case (Go h1)
      with host_turn_ok [OF assms(1,2) Cons.prems(1,2), of n p] Cons Call show ?thesis by simp
    qed (use t in simp_all)
    then have "settles (\<lambda>n. and_then (host_turn HE n p h) (host_run HE n evs))"
      using settles_bind [where f = "\<lambda>n. host_turn HE n p h" and g = "\<lambda>n x. and_then x (host_run HE n evs)"]
        settles_turn [OF assms(1-3) Cons.prems(1) assms(4)] by auto
    then show ?thesis by (simp add: Call)
  qed (use Cons.prems in simp)
qed simp

end
