(* ===== verification/HostEnd.thy ===== *)
theory HostEnd
  imports HostFuel
begin

text \<open>
  The properties of the whole context: how \<open>run\<close> ends and what the destructor leaves; and runs in which
  timers and sockets together do what neither does alone.
\<close>

section \<open>The destructor\<close>




section \<open>An example\<close>

text \<open>
  Function 7 writes to the socket when its timer fires. The connect listener of a socket, value 5, sets a
  timer for function 8. Delays are 5 milliseconds; the clock goes on by 10.
\<close>

definition both_env :: host_env where
  "both_env = \<lparr>he_js = idle_env, he_socks = (\<lambda>_. harmless),
     he_timer = (\<lambda>f h. if fi_func f = 7 then [OnSocket 0 (AWrite [AString ''x''])] else []),
     he_job = (\<lambda>j h. []),
     he_listener = (\<lambda>i call h. if fst call = ''connect'' then ([SetTimeout [JFun 8, JOther 0]], []) else ([], []))\<rparr>"






section \<open>How run ends\<close>



section \<open>What the destructor leaves\<close>


text \<open>The run of before is cut off after the connection, and the destructor aborts the read; and the whole run.\<close>

definition silent_env :: host_env where
  "silent_env = both_env\<lparr>he_listener := \<lambda>i call h. ([], [])\<rparr>"


section \<open>Timers and sockets in each other's way\<close>

text \<open>What is seen of a context, in the examples: the functions called, the number of timers, the events of each socket.\<close>

definition seen :: "progress \<Rightarrow> string \<times> (jsval list \<times> nat \<times> string list list) option" where
  "seen p = (let look = (\<lambda>h. Some (map fi_func (c_called (h_ctx h)), length (timer_entries (h_ctx h)),
                  map (\<lambda>s. map fst (sk_calls s)) (io_socks (h_io h))))
     in case p of NoFuel \<Rightarrow> (''fuel'', None) | Crash UncaughtException \<Rightarrow> (''uncaught'', None) | Crash _ \<Rightarrow> (''fault'', None)
      | JsThrew e h \<Rightarrow> (''threw'', look h) | Go h \<Rightarrow> (''waiting'', look h) | Returned h \<Rightarrow> (''returned'', look h))"

definition scenario :: "host_env \<Rightarrow> js_act list \<Rightarrow> io_act list \<Rightarrow> host_event list \<Rightarrow> progress" where
  "scenario HE js ios evs =
     (case host_script HE js ios (host_start (\<lambda>i. 10000000 * int i)) of
        Inl f \<Rightarrow> Crash f
      | Inr h \<Rightarrow> host_run HE 9 evs h)"

definition then_dtor :: "host_env \<Rightarrow> host_event list \<Rightarrow> progress \<Rightarrow> progress" where
  "then_dtor HE evs p =
     (case p of Go h \<Rightarrow> host_dtor HE 9 [] evs h | Returned h \<Rightarrow> host_dtor HE 9 [] evs h | x \<Rightarrow> x)"

text \<open>
  A timer function that enqueues a job, and the job connects a socket: the handler of the timer has left no work,
  so the \<open>io_context\<close> is stopped, and \<open>run\<close> returns while the connection is on its way. No listener is ever called.
\<close>

definition job_env :: host_env where
  "job_env = silent_env\<lparr>he_js := idle_env\<lparr>js_body := \<lambda>f c. (if f = 7 then [EnqueueJob 9] else [], None)\<rparr>,
     he_timer := \<lambda>f h. [], he_job := \<lambda>j h. [MakeSocket, OnSocket 0 (connect_to ''h'')]\<rparr>"

lemma run_leaves_connection:
  "seen (scenario job_env [SetTimeout [JFun 7, JOther 0]] []
     [Call ContextHandler, Call ContextHandler, Net 0 0 (Done_ok []), Call (SocketHandler 0)]) =
   (''returned'', Some ([7], 0, [[]]))"
  by code_simp

text \<open>
  The destructor runs handlers when the timers are gone already. The connection is aborted, the error listener
  sets a timer for function 8, and the destructor waits for that. Function 8 throws: the exception leaves the
  destructor.
\<close>

definition late_env :: host_env where
  "late_env = silent_env\<lparr>he_js := idle_env\<lparr>js_body := \<lambda>f c. ([], if f = 8 then Some ''error'' else None)\<rparr>,
     he_timer := \<lambda>f h. [], he_listener := \<lambda>i call h. ([SetTimeout [JFun 8, JOther 0]], [])\<rparr>"

abbreviation connecting :: "io_act list" where
  "connecting \<equiv> [MakeSocket, OnSocket 0 (AOn [AString ''error'', AOther 5]), OnSocket 0 (connect_to ''h'')]"

lemma shutdown_throws:
  "seen (then_dtor late_env [Call (SocketHandler 0), Call ContextHandler]
     (scenario late_env [Reject 1 2] connecting [Call ContextHandler])) = (''uncaught'', None)"
  by code_simp

text \<open>
  With an older timer that is still in the heap, though not in the table any more, the new one is not even armed:
  the destructor returns, the entry and its reference stay.
\<close>

lemma shutdown_leaks_timer:
  "seen (then_dtor late_env [Call (SocketHandler 0), Call ContextHandler]
     (scenario late_env [SetTimeout [JFun 7, JOther 0], Reject 1 2] connecting [Call ContextHandler])) = (''returned'', Some ([], 1, [[''error'']]))"
  by code_simp

text \<open>
  A read that has ended just before: its handler starts the next read, which nobody cancels. The destructor
  waits until the peer sends something or goes.
\<close>

definition fatal_env :: host_env where
  "fatal_env = silent_env\<lparr>he_listener := \<lambda>i call h. (if fst call = ''connect'' then [Reject 1 2] else [], [])\<rparr>"

lemma shutdown_waits_for_peer:
  "seen (then_dtor fatal_env [Call (SocketHandler 0), Call (SocketHandler 0), Call ContextHandler]
     (scenario fatal_env [] [MakeSocket, OnSocket 0 (AOn [AString ''connect'', AOther 5]), OnSocket 0 (connect_to ''h'')]
       [Net 0 0 (Done_ok []), Call (SocketHandler 0), Net 0 0 (Done_ok [1]), Call (SocketHandler 0)])) =
   (''waiting'', Some ([], 0, [[''connect'']]))"
  by code_simp

end
