(* ===== verification/FormerSocket.thy ===== *)
theory FormerSocket
  imports Socket
begin

text \<open>
  The socket that the module of \<^verbatim>\<open>Socket\<close> has replaced and that is still in the repository:
  \<open>SocketState\<close> of \<^verbatim>\<open>include/io_resource.hpp\<close> and the functions of \<^verbatim>\<open>src/bindings/socket.cpp\<close>.
  It has a pin without a count, four slots for functions instead of a table, and each write holds a
  reference of its own on the object. What is modelled of asio, QuickJS and JavaScript, conversions
  that run it included, and what a fault is, is as in \<^verbatim>\<open>Socket\<close>; C strings that the bindings hold are counted too.
\<close>

section \<open>State\<close>

record socket_state =
  ss_obj :: bool               \<comment> \<open>\<open>obj\<close> is the object and not undefined\<close>
  ss_finalized :: bool
  ss_closed :: bool
  ss_reading :: bool
  ss_connected :: bool
  ss_open :: bool              \<comment> \<open>\<open>sock.is_open()\<close>\<close>
  ss_inflight :: "net_op list"
  ss_ready :: "(net_op \<times> net_result) list"
  cb_data :: "jsval option"    \<comment> \<open>None is undefined\<close>
  cb_error :: "jsval option"
  cb_close :: "jsval option"
  cb_connect :: "jsval option"
  ss_registered :: bool
  ss_deleted :: bool
  ss_opaque :: bool            \<comment> \<open>the object's opaque pointer is this state\<close>
  ss_rc :: int                 \<comment> \<open>references on the object\<close>
  ss_held :: nat               \<comment> \<open>those of JavaScript\<close>
  ss_refs :: refs              \<comment> \<open>references on functions\<close>
  ss_cstrs :: int              \<comment> \<open>C strings not freed\<close>
  ss_calls :: "(string \<times> event_arg) list"

record former_env =
  fe_js :: "jsval \<Rightarrow> event_arg \<Rightarrow> socket_state \<Rightarrow> sock_act list"
  fe_kept :: "jsval \<Rightarrow> socket_state \<Rightarrow> bool"
  fe_is_address :: "string \<Rightarrow> bool"
  fe_can_open :: "socket_state \<Rightarrow> bool"
  fe_val :: "sarg \<Rightarrow> jsval option"
  fe_toCString :: "sarg \<Rightarrow> string option"
  fe_toInt64 :: "sarg \<Rightarrow> i64"
  fe_getArrayBuffer :: "sarg \<Rightarrow> bytes option"
  fe_newArrayBuffer :: "bytes \<Rightarrow> bool"     \<comment> \<open>\<open>JS_NewArrayBufferCopy\<close> does not fail\<close>

definition use_state :: "socket_state \<Rightarrow> socket_state result" where
  "use_state s = (if ss_deleted s then Inl UseAfterFree else Inr s)"

definition SocketState_ctor :: socket_state where
  "SocketState_ctor = \<lparr>ss_obj = False, ss_finalized = False, ss_closed = False, ss_reading = False,
     ss_connected = False, ss_open = False, ss_inflight = [], ss_ready = [], cb_data = None, cb_error = None,
     cb_close = None, cb_connect = None, ss_registered = False, ss_deleted = False, ss_opaque = False,
     ss_rc = 1, ss_held = 1, ss_refs = (\<lambda>_. 0), ss_cstrs = 0, ss_calls = []\<rparr>"

section \<open>SocketState\<close>

text \<open>What asio does to the operations of a socket that is closed or cancelled.\<close>

definition SocketState_abort :: "socket_state \<Rightarrow> socket_state" where
  "SocketState_abort s =
     s\<lparr>ss_inflight := [], ss_ready := ss_ready s @ map (\<lambda>x. (x, Aborted)) (ss_inflight s)\<rparr>"

definition SocketState_dtor :: "socket_state \<Rightarrow> socket_state" where
  "SocketState_dtor s = (if ss_open s then (SocketState_abort s)\<lparr>ss_open := False\<rparr> else s)"

text \<open>\<open>open\<close> throws when the system has no socket to give.\<close>

definition SocketState_open :: "bool \<Rightarrow> socket_state \<Rightarrow> socket_state result" where
  "SocketState_open can_open s =
     (if \<not> ss_open s then if can_open then Inr (s\<lparr>ss_open := True\<rparr>) else Inl UncaughtException else Inr s)"

text \<open>The argument: is the value that is pinned the object, or undefined?\<close>

definition SocketState_pin :: "bool \<Rightarrow> socket_state \<Rightarrow> socket_state" where
  "SocketState_pin is_obj s =
     (if \<not> ss_obj s then (if is_obj then s\<lparr>ss_obj := True, ss_rc := ss_rc s + 1\<rparr> else s) else s)"

text \<open>On a socket that is not open, cancelling is an error that is dropped.\<close>

definition SocketState_cancel :: "socket_state \<Rightarrow> socket_state" where
  "SocketState_cancel s = (if ss_open s then SocketState_abort s else s)"

definition SocketState_destroy :: "socket_state \<Rightarrow> socket_state result" where
  "SocketState_destroy s =
     (let s = s\<lparr>ss_registered := False\<rparr>
      in if ss_deleted s then Inl DoubleDelete else Inr ((SocketState_dtor s)\<lparr>ss_deleted := True\<rparr>))"

definition SocketState_onClosed :: "socket_state \<Rightarrow> socket_state result" where
  "SocketState_onClosed s =
     (let s = s\<lparr>ss_closed := True\<rparr> in if ss_finalized s then SocketState_destroy s else Inr s)"

text \<open>The values that the collector is told of.\<close>

definition SocketState_jsGcMark :: "socket_state \<Rightarrow> jsval list" where
  "SocketState_jsGcMark s =
     (if \<not> ss_opaque s then []
      else List.map_filter (\<lambda>x. x) [cb_data s, cb_error s, cb_close s, cb_connect s])"

definition free_slot :: "jsval option \<Rightarrow> refs \<Rightarrow> refs" where
  "free_slot v f = (case v of None \<Rightarrow> f | Some x \<Rightarrow> ref_free x f)"

text \<open>
  The finalizer runs when no reference is left, so a pin that is still there is freed once too often.
  Afterwards the object is gone.
\<close>

definition SocketState_jsFinalizer :: "socket_state \<Rightarrow> socket_state result" where
  "SocketState_jsFinalizer s =
     (if \<not> ss_opaque s then Inr s
      else if ss_obj s then Inl OverFree
      else
        let s = s\<lparr>ss_refs := free_slot (cb_data s) (ss_refs s), cb_data := None\<rparr>;
            s = s\<lparr>ss_refs := free_slot (cb_error s) (ss_refs s), cb_error := None\<rparr>;
            s = s\<lparr>ss_refs := free_slot (cb_close s) (ss_refs s), cb_close := None\<rparr>;
            s = s\<lparr>ss_refs := free_slot (cb_connect s) (ss_refs s), cb_connect := None\<rparr>;
            s = s\<lparr>ss_finalized := True, ss_opaque := False\<rparr>
        in if ss_closed s then SocketState_destroy s else Inr (SocketState_cancel s))"

text \<open>\<open>JS_FreeValue\<close> of the object\<close>

definition SocketState_free :: "socket_state \<Rightarrow> socket_state result" where
  "SocketState_free s =
     (if ss_rc s \<le> 0 then Inl OverFree
      else
        let s = s\<lparr>ss_rc := ss_rc s - 1\<rparr>
        in if ss_rc s = 0 then SocketState_jsFinalizer s else Inr s)"

definition SocketState_unpin :: "socket_state \<Rightarrow> socket_state result" where
  "SocketState_unpin s =
     (if ss_obj s
      then bnd (SocketState_free s) (\<lambda>s. bnd (use_state s) (\<lambda>s. Inr (s\<lparr>ss_obj := False\<rparr>)))
      else Inr s)"

definition start_async :: "net_op \<Rightarrow> socket_state \<Rightarrow> socket_state" where
  "start_async x s = s\<lparr>ss_inflight := ss_inflight s @ [x]\<rparr>"

definition SocketState_doRead :: "socket_state \<Rightarrow> socket_state" where
  "SocketState_doRead s = (if ss_finalized s \<or> ss_closed s then s else start_async OpRead s)"

definition SocketState_startRead :: "socket_state \<Rightarrow> socket_state" where
  "SocketState_startRead s =
     (if ss_finalized s \<or> ss_closed s then s
      else if \<not> ss_connected s then s
      else SocketState_doRead s)"

section \<open>The bindings\<close>

text \<open>The object of a new state, unless the prototype or the object cannot be had.\<close>

definition js_socket_constructor2 :: "bool \<Rightarrow> bool \<Rightarrow> sret + socket_state" where
  "js_socket_constructor2 proto_ok obj_ok =
     (if \<not> proto_ok then Inl RException
      else if \<not> obj_ok then Inl RException
      else Inr (SocketState_ctor\<lparr>ss_opaque := True, ss_registered := True\<rparr>))"

text \<open>An older form, which no one registers: the object is there and keeps its references.\<close>

definition js_socket_constructor1 :: "int \<Rightarrow> nat \<Rightarrow> socket_state" where
  "js_socket_constructor1 rc held =
     SocketState_ctor\<lparr>ss_rc := rc, ss_held := held, ss_opaque := True, ss_registered := True\<rparr>"

definition own_cstr :: "socket_state \<Rightarrow> socket_state" where
  "own_cstr s = s\<lparr>ss_cstrs := ss_cstrs s + 1\<rparr>"

definition free_cstr :: "socket_state \<Rightarrow> socket_state" where
  "free_cstr s = s\<lparr>ss_cstrs := ss_cstrs s - 1\<rparr>"

datatype slot = SlotData | SlotError | SlotClose | SlotConnect

definition slot_of :: "string \<Rightarrow> slot option" where
  "slot_of event =
     (if event = ''data'' then Some SlotData
      else if event = ''error'' then Some SlotError
      else if event = ''close'' then Some SlotClose
      else if event = ''connect'' then Some SlotConnect
      else None)"

fun get_slot :: "slot \<Rightarrow> socket_state \<Rightarrow> jsval option" where
  "get_slot SlotData s = cb_data s"
| "get_slot SlotError s = cb_error s"
| "get_slot SlotClose s = cb_close s"
| "get_slot SlotConnect s = cb_connect s"

fun set_slot :: "slot \<Rightarrow> jsval option \<Rightarrow> socket_state \<Rightarrow> socket_state" where
  "set_slot SlotData v s = s\<lparr>cb_data := v\<rparr>"
| "set_slot SlotError v s = s\<lparr>cb_error := v\<rparr>"
| "set_slot SlotClose v s = s\<lparr>cb_close := v\<rparr>"
| "set_slot SlotConnect v s = s\<lparr>cb_connect := v\<rparr>"

definition dup_slot :: "jsval option \<Rightarrow> refs \<Rightarrow> refs" where
  "dup_slot v f = (case v of None \<Rightarrow> f | Some x \<Rightarrow> ref_dup x f)"

definition assign_slot :: "slot \<Rightarrow> jsval option \<Rightarrow> socket_state \<Rightarrow> socket_state" where
  "assign_slot k v s =
     (let s = s\<lparr>ss_refs := free_slot (get_slot k s) (ss_refs s)\<rparr>
      in set_slot k v (s\<lparr>ss_refs := dup_slot v (ss_refs s)\<rparr>))"

definition former_socket_on :: "former_env \<Rightarrow> sarg list \<Rightarrow> socket_state \<Rightarrow> sret \<times> socket_state" where
  "former_socket_on E argv s =
     (case argv of
        a0 # a1 # _ \<Rightarrow>
          if \<not> ss_opaque s then (RTypeError ''not a Socket'', s)
          else
            (case fe_toCString E a0 of
               None \<Rightarrow> (RException, s)
             | Some event \<Rightarrow>
                 let s = own_cstr s;
                     k = slot_of (c_str event);
                     s = free_cstr s
                 in case k of
                      None \<Rightarrow> (RTypeError ''unknown event'', s)
                    | Some k \<Rightarrow>
                        let s = assign_slot k (fe_val E a1) s
                        in (RUndefined,
                            if cb_data s \<noteq> None \<and> \<not> ss_reading s
                            then SocketState_startRead (s\<lparr>ss_reading := True\<rparr>) else s))
      | _ \<Rightarrow> (RTypeError ''on(event, handler) requires 2 arguments'', s))"

definition former_socket_close :: "socket_state \<Rightarrow> (sret \<times> socket_state) result" where
  "former_socket_close s =
     (if \<not> ss_opaque s then Inr (RTypeError ''not a Socket'', s)
      else bnd (SocketState_unpin s) (\<lambda>s. bnd (use_state s) (\<lambda>s. Inr (RUndefined, SocketState_cancel s))))"

text \<open>
  An array is asked for its ArrayBuffer, which it is not. The C string of a string is not freed: the
  operation has a pointer to it. \<open>this_dup\<close> is the reference that the handler frees.
\<close>

definition async_write :: "bytes \<Rightarrow> socket_state \<Rightarrow> socket_state" where
  "async_write data s =
     (let s = s\<lparr>ss_rc := ss_rc s + 1\<rparr>;
          s = SocketState_pin True s
      in start_async (OpWrite data) s)"

definition former_socket_write :: "former_env \<Rightarrow> sarg list \<Rightarrow> socket_state \<Rightarrow> sret \<times> socket_state" where
  "former_socket_write E argv s =
     (if \<not> ss_opaque s then (RTypeError ''not a Socket'', s)
      else
        case argv of
          [] \<Rightarrow> (RTypeError ''write(data) requires 1 argument'', s)
        | a0 # _ \<Rightarrow>
            (case a0 of
               AArray _ \<Rightarrow>
                 (case fe_getArrayBuffer E a0 of
                    None \<Rightarrow> (RTypeError ''write() requires ArrayBuffer or string'', s)
                  | Some buf \<Rightarrow> (RInt64 (int (length buf)), async_write buf s))
             | AString _ \<Rightarrow>
                 (case fe_toCString E a0 of
                    None \<Rightarrow> (RException, s)
                  | Some str \<Rightarrow>
                      (RInt64 (int (length str)), async_write (bytes_of_string str) (own_cstr s)))
             | _ \<Rightarrow> (RTypeError ''write() requires ArrayBuffer or string'', s)))"

definition former_socket_connect :: "former_env \<Rightarrow> sarg list \<Rightarrow> socket_state \<Rightarrow> (sret \<times> socket_state) result" where
  "former_socket_connect E argv s =
     (if \<not> ss_opaque s then Inr (RTypeError ''not a Socket'', s)
      else
        case argv of
          AString h # ANumber n # _ \<Rightarrow>
            (case fe_toCString E (AString h) of
               None \<Rightarrow> Inr (RException, s)
             | Some host \<Rightarrow>
                 let can_open = fe_can_open E s;
                     s = own_cstr s;
                     port = fe_toInt64 E (ANumber n)
                 in bnd (SocketState_open can_open s)
                      (\<lambda>s. let s = SocketState_pin True s
                           in if \<not> fe_is_address E (c_str host) then Inl UncaughtException
                              else
                                let s = free_cstr s
                                in Inr (RUndefined, start_async (OpConnect (c_str host) (ucast port)) s)))
        | _ \<Rightarrow> Inr (RTypeError ''connect(host, port) requires string and number'', s))"

fun former_act :: "former_env \<Rightarrow> sock_act \<Rightarrow> socket_state \<Rightarrow> socket_state result" where
  "former_act E (AOn argv) s = Inr (snd (former_socket_on E argv s))"
| "former_act E AClose s = bnd (former_socket_close s) (\<lambda>(_, s). Inr s)"
| "former_act E (AWrite argv) s = Inr (snd (former_socket_write E argv s))"
| "former_act E (AConnect argv) s = bnd (former_socket_connect E argv s) (\<lambda>(_, s). Inr s)"
| "former_act E ADup s = Inr (s\<lparr>ss_held := ss_held s + 1, ss_rc := ss_rc s + 1\<rparr>)"
| "former_act E ADrop s = SocketState_free (s\<lparr>ss_held := ss_held s - 1\<rparr>)"

fun former_script :: "former_env \<Rightarrow> sock_act list \<Rightarrow> socket_state \<Rightarrow> socket_state result" where
  "former_script E [] s = Inr s"
| "former_script E (a # as) s =
     (if ss_held s = 0 then Inr s else bnd (former_act E a s) (former_script E as))"

section \<open>Handlers\<close>

text \<open>
  \<open>JS_Call\<close> of a function that is not undefined, with the reference of the slot: a function that is
  replaced while it runs, and to which nothing else refers, is freed while it runs.
\<close>

definition call_function :: "former_env \<Rightarrow> jsval \<Rightarrow> event_arg \<Rightarrow> socket_state \<Rightarrow> socket_state result" where
  "call_function E f arg s =
     bnd (former_script E (fe_js E f arg s) s)
       (\<lambda>s'. if ss_refs s' f \<le> 0 \<and> \<not> fe_kept E f s then Inl UseAfterFree else Inr s')"

definition call_slot :: "former_env \<Rightarrow> slot \<Rightarrow> string \<Rightarrow> event_arg \<Rightarrow> socket_state \<Rightarrow> socket_state result" where
  "call_slot E k event arg s =
     (case get_slot k s of
        None \<Rightarrow> Inr s
      | Some f \<Rightarrow> call_function E f arg (s\<lparr>ss_calls := ss_calls s @ [(event, arg)]\<rparr>))"

definition net_error :: "net_result \<Rightarrow> string option" where
  "net_error r = (case r of Done_ok _ \<Rightarrow> None | Aborted \<Rightarrow> Some ''Operation canceled'' | Failed m \<Rightarrow> Some m)"

definition former_write_handler :: "former_env \<Rightarrow> net_result \<Rightarrow> socket_state \<Rightarrow> socket_state result" where
  "former_write_handler E ec s =
     bnd (SocketState_free s)
       (\<lambda>s. bnd (use_state s)
         (\<lambda>s. bnd (SocketState_unpin s)
           (\<lambda>s. case net_error ec of
              None \<Rightarrow> Inr s
            | Some m \<Rightarrow> bnd (use_state s) (call_slot E SlotError ''error'' (Text m)))))"

text \<open>After a call, \<open>state->ctx\<close> is read to free its result.\<close>

definition former_connect_handler :: "former_env \<Rightarrow> net_result \<Rightarrow> socket_state \<Rightarrow> socket_state result" where
  "former_connect_handler E ec s =
     (case net_error ec of
        Some m \<Rightarrow>
          bnd (bnd (use_state s) SocketState_unpin)
            (\<lambda>s. bnd (bnd (use_state s) (call_slot E SlotError ''error'' (Text m)))
              (\<lambda>s. bnd (use_state s) SocketState_onClosed))
      | None \<Rightarrow>
          bnd (use_state s)
            (\<lambda>s. bnd (call_slot E SlotConnect ''connect'' NoArg (s\<lparr>ss_connected := True\<rparr>))
              (\<lambda>s. bnd (use_state s)
                (\<lambda>s. if cb_data s \<noteq> None \<and> ss_reading s
                     then Inr (SocketState_startRead (SocketState_pin (ss_obj s) s)) else Inr s))))"

definition former_read_handler :: "former_env \<Rightarrow> net_result \<Rightarrow> socket_state \<Rightarrow> socket_state result" where
  "former_read_handler E ec s =
     bnd (use_state s)
       (\<lambda>s. case ec of
          Aborted \<Rightarrow> SocketState_onClosed (s\<lparr>ss_reading := False\<rparr>)
        | Failed m \<Rightarrow>
            bnd (call_slot E SlotError ''error'' (Text m) (s\<lparr>ss_reading := False\<rparr>))
              (\<lambda>s. bnd (use_state s) SocketState_onClosed)
        | Done_ok data \<Rightarrow>
            bnd (if cb_data s \<noteq> None \<and> \<not> ss_finalized s \<and> fe_newArrayBuffer E data
                 then call_slot E SlotData ''data'' (Buffer data) s else Inr s)
              (\<lambda>s. bnd (use_state s)
                (\<lambda>s. if \<not> ss_finalized s \<and> \<not> ss_closed s then Inr (SocketState_doRead s) else Inr s)))"

fun former_handler :: "former_env \<Rightarrow> net_op \<Rightarrow> net_result \<Rightarrow> socket_state \<Rightarrow> socket_state result" where
  "former_handler E (OpConnect host port) ec s = former_connect_handler E ec s"
| "former_handler E OpRead ec s = former_read_handler E ec s"
| "former_handler E (OpWrite data) ec s = former_write_handler E ec s"

section \<open>Runs\<close>

text \<open>
  The collector finalizes the object when all references on it are JavaScript's and in garbage cycles.
\<close>

definition former_step :: "former_env \<Rightarrow> sock_event \<Rightarrow> socket_state \<Rightarrow> socket_state result" where
  "former_step E ev s =
     (case ev of
        Script as \<Rightarrow> former_script E as s
      | Complete k r \<Rightarrow>
          if k < length (ss_inflight s) then
            Inr (s\<lparr>ss_inflight := take_at k (ss_inflight s), ss_ready := ss_ready s @ [(ss_inflight s ! k, r)]\<rparr>)
          else Inr s
      | Handle \<Rightarrow>
          (case ss_ready s of
             [] \<Rightarrow> Inr s
           | (x, r) # rest \<Rightarrow> former_handler E x r (s\<lparr>ss_ready := rest\<rparr>))
      | Collect \<Rightarrow>
          if ss_held s = 0 \<or> ss_rc s \<noteq> int (ss_held s) then Inr s
          else SocketState_jsFinalizer (s\<lparr>ss_held := 0, ss_rc := 0\<rparr>))"

fun former_run :: "former_env \<Rightarrow> sock_event list \<Rightarrow> socket_state \<Rightarrow> socket_state result" where
  "former_run E [] s = Inr s"
| "former_run E (ev # evs) s = bnd (former_step E ev s) (former_run E evs)"

definition former_socket :: socket_state where
  "former_socket = SocketState_ctor\<lparr>ss_opaque := True, ss_registered := True\<rparr>"

lemma former_constructed: "js_socket_constructor2 True True = Inr former_socket"
  by (simp add: js_socket_constructor2_def former_socket_def)

end
