(* ===== verification/FormerProps.thy ===== *)
theory FormerProps
  imports FormerSocket
begin

text \<open>
  The properties of the former socket: what holds of it in every run, that it is safe as long as
  JavaScript keeps a reference on the object, and that it is not when it does not.
\<close>

section \<open>The invariant\<close>

fun is_write :: "net_op \<Rightarrow> bool" where
  "is_write (OpWrite _) = True"
| "is_write _ = False"

definition writes :: "socket_state \<Rightarrow> nat" where
  "writes s = length (filter is_write (ss_inflight s)) + length (filter is_write (map fst (ss_ready s)))"

definition slot_count :: "socket_state \<Rightarrow> jsval \<Rightarrow> int" where
  "slot_count s v = of_bool (cb_data s = Some v) + of_bool (cb_error s = Some v) + of_bool (cb_close s = Some v) +
     of_bool (cb_connect s = Some v)"

text \<open>
  \<open>k\<close> is 1 at the start of the handler of a write, for the reference that it holds. Arrays have no
  buffer in QuickJS; then every write has a C string that is alive.
\<close>

definition former_ok :: "former_env \<Rightarrow> int \<Rightarrow> socket_state \<Rightarrow> bool" where
  "former_ok E k s \<longleftrightarrow> ss_refs s = slot_count s \<and> (ss_deleted s \<longleftrightarrow> ss_finalized s \<and> ss_closed s) \<and>
     (ss_registered s \<longleftrightarrow> \<not> ss_deleted s) \<and> 0 \<le> k \<and>
     ((\<forall>n. fe_getArrayBuffer E (AArray n) = None) \<longrightarrow> int (writes s) \<le> ss_cstrs s) \<and>
     (if ss_finalized s
      then \<not> ss_opaque s \<and> \<not> ss_obj s \<and> ss_held s = 0 \<and> writes s = 0 \<and> k = 0 \<and>
        cb_data s = None \<and> cb_error s = None \<and> cb_close s = None \<and> cb_connect s = None
      else ss_opaque s \<and> ss_rc s = int (ss_held s) + of_bool (ss_obj s) + int (writes s) + k \<and> 0 < ss_rc s)"

text \<open>No \<open>connect\<close> can throw.\<close>

definition connectable :: "former_env \<Rightarrow> bool" where
  "connectable E \<longleftrightarrow> (\<forall>h. fe_is_address E h) \<and> (\<forall>s. fe_can_open E s)"

definition former_outcome :: "former_env \<Rightarrow> bool \<Rightarrow> int \<Rightarrow> socket_state result \<Rightarrow> bool" where
  "former_outcome E hold k r =
     (case r of
        Inl f \<Rightarrow> hold \<longrightarrow> f = UncaughtException \<and> \<not> connectable E
      | Inr s \<Rightarrow> former_ok E k s \<and> (hold \<longrightarrow> 0 < ss_held s))"

lemma former_outcome_simps [simp]:
  "former_outcome E hold k (Inl f) \<longleftrightarrow> (hold \<longrightarrow> f = UncaughtException \<and> \<not> connectable E)"
  "former_outcome E hold k (Inr s) \<longleftrightarrow> former_ok E k s \<and> (hold \<longrightarrow> 0 < ss_held s)"
  by (simp_all add: former_outcome_def)

lemma former_bnd:
  "former_outcome E hold k r \<Longrightarrow>
   (\<And>s. former_ok E k s \<Longrightarrow> hold \<longrightarrow> 0 < ss_held s \<Longrightarrow> former_outcome E hold k' (f s)) \<Longrightarrow>
   former_outcome E hold k' (bnd r f)"
  by (cases r) simp_all

lemma held_live: "former_ok E k s \<Longrightarrow> 0 < ss_held s \<Longrightarrow> \<not> ss_finalized s \<and> \<not> ss_deleted s"
  by (auto simp: former_ok_def split: if_splits)

lemma former_use: "former_ok E k s \<Longrightarrow> hold \<longrightarrow> 0 < ss_held s \<Longrightarrow> former_outcome E hold k (use_state s)"
  using held_live by (auto simp: use_state_def)

lemma former_cong:
  "former_ok E k s \<Longrightarrow> ss_refs s' = ss_refs s \<Longrightarrow> slot_count s' = slot_count s \<Longrightarrow> ss_deleted s' = ss_deleted s \<Longrightarrow>
   ss_finalized s' = ss_finalized s \<Longrightarrow> ss_closed s' = ss_closed s \<Longrightarrow> ss_registered s' = ss_registered s \<Longrightarrow>
   writes s' = writes s \<Longrightarrow> ss_cstrs s \<le> ss_cstrs s' \<Longrightarrow> ss_opaque s' = ss_opaque s \<Longrightarrow> ss_obj s' = ss_obj s \<Longrightarrow>
   ss_held s' = ss_held s \<Longrightarrow> ss_rc s' = ss_rc s \<Longrightarrow> cb_data s' = cb_data s \<Longrightarrow> cb_error s' = cb_error s \<Longrightarrow>
   cb_close s' = cb_close s \<Longrightarrow> cb_connect s' = cb_connect s \<Longrightarrow> former_ok E k s'"
  by (auto simp: former_ok_def split: if_splits)

lemma writes_simps [simp]:
  "writes (s\<lparr>ss_obj := b\<rparr>) = writes s" "writes (s\<lparr>ss_rc := i\<rparr>) = writes s" "writes (s\<lparr>ss_held := n\<rparr>) = writes s"
  "writes (s\<lparr>ss_closed := b\<rparr>) = writes s" "writes (s\<lparr>ss_reading := b\<rparr>) = writes s"
  "writes (s\<lparr>ss_connected := b\<rparr>) = writes s" "writes (s\<lparr>ss_open := b\<rparr>) = writes s"
  "writes (s\<lparr>ss_refs := f\<rparr>) = writes s" "writes (s\<lparr>ss_cstrs := i\<rparr>) = writes s" "writes (s\<lparr>ss_calls := cs\<rparr>) = writes s"
  "writes (s\<lparr>ss_registered := b\<rparr>) = writes s" "writes (s\<lparr>ss_deleted := b\<rparr>) = writes s"
  "writes (s\<lparr>ss_finalized := b\<rparr>) = writes s" "writes (s\<lparr>ss_opaque := b\<rparr>) = writes s"
  "writes (s\<lparr>cb_data := v\<rparr>) = writes s" "writes (s\<lparr>cb_error := v\<rparr>) = writes s"
  "writes (s\<lparr>cb_close := v\<rparr>) = writes s" "writes (s\<lparr>cb_connect := v\<rparr>) = writes s"
  by (simp_all add: writes_def)

lemma writes_abort [simp]: "writes (SocketState_abort s) = writes s"
  by (simp add: writes_def SocketState_abort_def comp_def)

lemma writes_start [simp]: "writes (start_async x s) = writes s + of_bool (is_write x)"
  by (simp add: writes_def start_async_def)

text \<open>What \<open>SocketState_abort\<close> leaves alone.\<close>

lemma abort_ok: "former_ok E k s \<Longrightarrow> former_ok E k (SocketState_abort s)"
  by (erule former_cong) (simp_all add: SocketState_abort_def slot_count_def fun_eq_iff writes_def comp_def)

lemma cancel_ok: "former_ok E k s \<Longrightarrow> former_ok E k (SocketState_cancel s)"
  by (simp add: SocketState_cancel_def abort_ok)

lemma cancel_held [simp]: "ss_held (SocketState_cancel s) = ss_held s"
  by (simp add: SocketState_cancel_def SocketState_abort_def)

section \<open>References on the object\<close>

definition destroyed :: "socket_state \<Rightarrow> socket_state" where
  "destroyed s = (SocketState_dtor (s\<lparr>ss_registered := False\<rparr>))\<lparr>ss_deleted := True\<rparr>"

lemma destroy_eq: "SocketState_destroy s = (if ss_deleted s then Inl DoubleDelete else Inr (destroyed s))"
  by (simp add: SocketState_destroy_def destroyed_def Let_def)

lemma destroyed_simps [simp]:
  "ss_refs (destroyed s) = ss_refs s" "ss_deleted (destroyed s)" "ss_finalized (destroyed s) = ss_finalized s"
  "ss_closed (destroyed s) = ss_closed s" "\<not> ss_registered (destroyed s)" "ss_cstrs (destroyed s) = ss_cstrs s"
  "ss_opaque (destroyed s) = ss_opaque s" "ss_obj (destroyed s) = ss_obj s" "ss_held (destroyed s) = ss_held s"
  "ss_rc (destroyed s) = ss_rc s" "cb_data (destroyed s) = cb_data s" "cb_error (destroyed s) = cb_error s"
  "cb_close (destroyed s) = cb_close s" "cb_connect (destroyed s) = cb_connect s"
  by (simp_all add: destroyed_def SocketState_dtor_def SocketState_abort_def)

lemma destroyed_derived [simp]: "writes (destroyed s) = writes s" "slot_count (destroyed s) = slot_count s"
proof -
  show "writes (destroyed s) = writes s"
    by (simp add: writes_def destroyed_def SocketState_dtor_def SocketState_abort_def comp_def)
  show "slot_count (destroyed s) = slot_count s"
    by (simp add: slot_count_def fun_eq_iff)
qed

lemma slot_count_simps [simp]:
  "slot_count (s\<lparr>ss_closed := b\<rparr>) = slot_count s" "slot_count (s\<lparr>ss_rc := i\<rparr>) = slot_count s"
  "slot_count (s\<lparr>ss_obj := b\<rparr>) = slot_count s" "slot_count (s\<lparr>ss_held := n\<rparr>) = slot_count s"
  "slot_count (s\<lparr>ss_cstrs := i\<rparr>) = slot_count s" "slot_count (s\<lparr>ss_reading := b\<rparr>) = slot_count s"
  "slot_count (s\<lparr>ss_connected := b\<rparr>) = slot_count s" "slot_count (s\<lparr>ss_open := b\<rparr>) = slot_count s"
  "slot_count (s\<lparr>ss_calls := cs\<rparr>) = slot_count s" "slot_count (s\<lparr>ss_inflight := xs\<rparr>) = slot_count s"
  "slot_count (s\<lparr>ss_ready := rs\<rparr>) = slot_count s" "slot_count (s\<lparr>ss_refs := f\<rparr>) = slot_count s"
  "slot_count (s\<lparr>ss_finalized := b\<rparr>) = slot_count s" "slot_count (s\<lparr>ss_opaque := b\<rparr>) = slot_count s"
  by (simp_all add: slot_count_def fun_eq_iff)

lemma onClosed_ok:
  assumes "former_ok E k s" and "hold \<longrightarrow> 0 < ss_held s"
  shows "former_outcome E hold k (SocketState_onClosed s)"
proof (cases "ss_finalized s")
  case True
  then have "\<not> hold" using assms by (auto simp: former_ok_def)
  with True assms(1) show ?thesis
    by (auto simp: SocketState_onClosed_def destroy_eq former_ok_def)
next
  case False
  with assms show ?thesis by (simp add: SocketState_onClosed_def former_ok_def)
qed

lemma free_slots:
  "ss_refs s = slot_count s \<Longrightarrow>
   free_slot (cb_connect s) (free_slot (cb_close s) (free_slot (cb_error s) (free_slot (cb_data s) (ss_refs s)))) = (\<lambda>_. 0)"
  by (auto simp: fun_eq_iff slot_count_def free_slot_def ref_free_def split: option.split)

lemma finalizer_ok:
  assumes "ss_refs s = slot_count s" and "\<not> ss_finalized s" and "\<not> ss_deleted s" and "ss_registered s"
    and "ss_held s = 0" and "writes s = 0" and "\<not> ss_obj s" and "ss_opaque s"
    and "(\<forall>n. fe_getArrayBuffer E (AArray n) = None) \<longrightarrow> 0 \<le> ss_cstrs s"
  shows "\<exists>s'. SocketState_jsFinalizer s = Inr s' \<and> former_ok E 0 s'"
proof -
  define f where "f = s\<lparr>cb_data := None, cb_error := None, cb_close := None, ss_refs := (\<lambda>_. 0), cb_connect := None,
      ss_finalized := True, ss_opaque := False\<rparr>"
  have eq: "SocketState_jsFinalizer s = (if ss_closed s then SocketState_destroy f else Inr (SocketState_cancel f))"
    using assms(7,8) free_slots [OF assms(1)] by (simp add: SocketState_jsFinalizer_def f_def Let_def)
  have n: "slot_count f = (\<lambda>_. 0)" by (simp add: slot_count_def f_def fun_eq_iff)
  have w: "writes f = 0" using assms(6) by (simp add: f_def)
  show ?thesis
  proof (cases "ss_closed s")
    case True
    have "former_ok E 0 (destroyed f)"
      using assms True w n by (simp add: former_ok_def) (simp add: f_def)
    then show ?thesis using True assms(3) by (simp add: eq destroy_eq) (simp add: f_def)
  next
    case False
    have "former_ok E 0 f"
      using assms False w n by (simp add: former_ok_def) (simp add: f_def)
    from cancel_ok [OF this] show ?thesis using False by (simp add: eq)
  qed
qed

text \<open>A reference is given back: one of those that \<open>k\<close> counts.\<close>

lemma free_ok:
  assumes "former_ok E (k + 1) s" and "0 \<le> k" and "hold \<longrightarrow> 0 < ss_held s"
  shows "former_outcome E hold k (SocketState_free s)"
proof -
  have s: "\<not> ss_finalized s" "ss_refs s = slot_count s" "\<not> ss_deleted s" "ss_registered s" "ss_opaque s"
    "ss_rc s = int (ss_held s) + of_bool (ss_obj s) + int (writes s) + k + 1"
    "(\<forall>n. fe_getArrayBuffer E (AArray n) = None) \<longrightarrow> int (writes s) \<le> ss_cstrs s"
    using assms(1,2) by (auto simp: former_ok_def split: if_splits)
  show ?thesis
  proof (cases "ss_rc s = 1")
    case True
    then have z: "ss_held s = 0" "\<not> ss_obj s" "writes s = 0" "k = 0" using s(6) assms(2) by (auto simp: of_bool_def split: if_splits)
    obtain s' where "SocketState_jsFinalizer (s\<lparr>ss_rc := ss_rc s - 1\<rparr>) = Inr s'" "former_ok E 0 s'"
      using finalizer_ok [of "s\<lparr>ss_rc := ss_rc s - 1\<rparr>" E] s z by auto
    then show ?thesis using True z assms(3) by (simp add: SocketState_free_def Let_def)
  next
    case False
    have "former_ok E k (s\<lparr>ss_rc := ss_rc s - 1\<rparr>)"
      using s assms False by (auto simp: former_ok_def)
    moreover have "0 < ss_rc s" using s(6) assms(2) by simp
    ultimately show ?thesis using False assms(3) by (simp add: SocketState_free_def Let_def)
  qed
qed

text \<open>Freeing the pin is once too often when it is the last reference, because the finalizer does it too.\<close>

lemma unpin_eq:
  assumes "former_ok E k s"
  shows "SocketState_unpin s =
    (if \<not> ss_obj s then Inr s else if ss_rc s = 1 then Inl OverFree
     else Inr (s\<lparr>ss_rc := ss_rc s - 1, ss_obj := False\<rparr>))"
  using assms by (auto simp: former_ok_def SocketState_unpin_def SocketState_free_def SocketState_jsFinalizer_def
      use_state_def Let_def split: if_splits)

lemma unpin_ok:
  assumes "former_ok E k s" and "hold \<longrightarrow> 0 < ss_held s"
  shows "former_outcome E hold k (SocketState_unpin s)"
proof (cases "ss_obj s")
  case True
  then have s: "\<not> ss_finalized s" "ss_rc s = int (ss_held s) + 1 + int (writes s) + k" "0 \<le> k"
    using assms(1) by (auto simp: former_ok_def split: if_splits)
  show ?thesis
  proof (cases "ss_rc s = 1")
    case True
    then have "\<not> hold" using s assms(2) by auto
    with True \<open>ss_obj s\<close> show ?thesis by (simp add: unpin_eq [OF assms(1)])
  next
    case False
    with assms s \<open>ss_obj s\<close> have "former_ok E k (s\<lparr>ss_rc := ss_rc s - 1, ss_obj := False\<rparr>)"
      by (auto simp: former_ok_def)
    with False \<open>ss_obj s\<close> assms(2) show ?thesis by (simp add: unpin_eq [OF assms(1)])
  qed
qed (use assms in \<open>simp add: unpin_eq [OF assms(1)]\<close>)

section \<open>Methods\<close>

lemma pin_ok:
  assumes "former_ok E k s" and "\<not> ss_finalized s"
  shows "former_ok E k (SocketState_pin b s)"
proof (cases "\<not> ss_obj s \<and> b")
  case True
  with assms have "former_ok E k (s\<lparr>ss_obj := True, ss_rc := ss_rc s + 1\<rparr>)" by (simp add: former_ok_def)
  with True show ?thesis by (simp add: SocketState_pin_def)
qed (use assms in \<open>auto simp: SocketState_pin_def\<close>)

lemma pin_simps [simp]: "ss_held (SocketState_pin b s) = ss_held s"
  "ss_finalized (SocketState_pin b s) = ss_finalized s" "ss_cstrs (SocketState_pin b s) = ss_cstrs s"
  by (simp_all add: SocketState_pin_def)

lemma start_ok: "former_ok E k s \<Longrightarrow> \<not> is_write x \<Longrightarrow> former_ok E k (start_async x s)"
  by (erule former_cong) (simp_all add: start_async_def slot_count_def fun_eq_iff writes_def)

lemma start_held [simp]: "ss_held (start_async x s) = ss_held s"
  by (simp add: start_async_def)

lemma read_ok: "former_ok E k s \<Longrightarrow> former_ok E k (SocketState_doRead s)"
  "former_ok E k s \<Longrightarrow> former_ok E k (SocketState_startRead s)"
  by (simp_all add: SocketState_startRead_def SocketState_doRead_def start_ok)

lemma read_held [simp]: "ss_held (SocketState_doRead s) = ss_held s" "ss_held (SocketState_startRead s) = ss_held s"
  by (simp_all add: SocketState_startRead_def SocketState_doRead_def)

lemma flags_ok: "former_ok E k s \<Longrightarrow> former_ok E k (s\<lparr>ss_reading := b\<rparr>)"
  "former_ok E k s \<Longrightarrow> former_ok E k (s\<lparr>ss_connected := b\<rparr>)" "former_ok E k s \<Longrightarrow> former_ok E k (s\<lparr>ss_open := b\<rparr>)"
  "former_ok E k s \<Longrightarrow> former_ok E k (s\<lparr>ss_calls := cs\<rparr>)"
  by (erule former_cong; simp)+

lemma open_ok:
  "former_ok E k s \<Longrightarrow> hold \<longrightarrow> 0 < ss_held s \<Longrightarrow> connectable E \<longrightarrow> c \<Longrightarrow> former_outcome E hold k (SocketState_open c s)"
  by (auto simp: SocketState_open_def flags_ok)

lemma own_cstr_ok: "former_ok E k s \<Longrightarrow> former_ok E k (own_cstr s)"
  by (erule former_cong) (simp_all add: own_cstr_def)

lemma cstr_inverse [simp]: "free_cstr (own_cstr s) = s"
  by (simp add: own_cstr_def free_cstr_def)

lemma assign_ok:
  assumes "former_ok E k s" and "\<not> ss_finalized s"
  shows "former_ok E k (assign_slot j v s)"
proof -
  have r: "ss_refs s = slot_count s" using assms(1) by (simp add: former_ok_def)
  have "ss_refs (assign_slot j v s) = slot_count (assign_slot j v s)"
    by (cases j) (auto simp: assign_slot_def r fun_eq_iff slot_count_def free_slot_def dup_slot_def ref_free_def
        ref_dup_def Let_def split: option.split)
  then show ?thesis
    using assms by (cases j) (auto simp: former_ok_def assign_slot_def Let_def)
qed

lemma assign_held [simp]: "ss_held (assign_slot j v s) = ss_held s"
  by (cases j) (simp_all add: assign_slot_def Let_def)

lemma opaque_live: "former_ok E k s \<Longrightarrow> ss_opaque s \<Longrightarrow> \<not> ss_finalized s"
  by (auto simp: former_ok_def split: if_splits)

lemma former_on_ok:
  assumes "former_ok E k s"
  shows "former_ok E k (snd (former_socket_on E argv s)) \<and> ss_held (snd (former_socket_on E argv s)) = ss_held s"
  using assms assign_ok [OF assms opaque_live [OF assms]]
  by (auto simp: former_socket_on_def Let_def read_ok flags_ok split: list.split option.split)

lemma async_write_simps [simp]: "writes (async_write d s) = writes s + 1" "ss_held (async_write d s) = ss_held s"
  "slot_count (async_write d s) = slot_count s"
  by (simp_all add: async_write_def SocketState_pin_def Let_def start_async_def writes_def slot_count_def fun_eq_iff)

lemma async_write_ok:
  assumes "former_ok E k s" and "\<not> ss_finalized s"
    and "(\<forall>n. fe_getArrayBuffer E (AArray n) = None) \<longrightarrow> int (writes s) + 1 \<le> ss_cstrs s"
  shows "former_ok E k (async_write d s)"
proof -
  have "ss_cstrs (async_write d s) = ss_cstrs s" "\<not> ss_finalized (async_write d s)"
    using assms(2) by (simp_all add: async_write_def Let_def start_async_def)
  then show ?thesis
    using assms by (simp add: former_ok_def)
      (auto simp: async_write_def Let_def start_async_def SocketState_pin_def)
qed

lemma former_write_ok:
  assumes "former_ok E k s"
  shows "former_ok E k (snd (former_socket_write E argv s)) \<and> ss_held (snd (former_socket_write E argv s)) = ss_held s"
proof -
  have str: "former_ok E k (async_write d (own_cstr s))" if "ss_opaque s" for d
    using that own_cstr_ok [OF assms] opaque_live [OF assms] assms
    by (intro async_write_ok) (auto simp: former_ok_def own_cstr_def)
  have arr: "former_ok E k (async_write d s)" if "ss_opaque s" "fe_getArrayBuffer E (AArray n) = Some d" for d n
    using that assms opaque_live [OF assms] by (intro async_write_ok) auto
  show ?thesis
    using assms str arr by (auto simp: former_socket_write_def own_cstr_def split: list.split sarg.split option.split)
qed

lemma former_close_ok:
  assumes "former_ok E k s" and "hold \<longrightarrow> 0 < ss_held s" and "former_socket_close s = r"
  shows "former_outcome E hold k (bnd r (\<lambda>(_, s). Inr s))"
proof (cases "ss_opaque s")
  case True
  have "bnd r (\<lambda>(_, s). Inr s) = bnd (SocketState_unpin s) (\<lambda>s. bnd (use_state s) (\<lambda>s. Inr (SocketState_cancel s)))"
    using True assms(3) by (auto simp: former_socket_close_def bnd_def split: sum.splits)
  then show ?thesis
    using unpin_ok [OF assms(1,2)] by (auto intro!: former_bnd [OF _ former_bnd] former_use cancel_ok)
qed (use assms in \<open>auto simp: former_socket_close_def\<close>)

lemma former_connect_ok:
  assumes "former_ok E k s" and "hold \<longrightarrow> 0 < ss_held s"
  shows "former_outcome E hold k (bnd (former_socket_connect E argv s) (\<lambda>(_, s). Inr s))"
proof -
  have "former_outcome E hold k (bnd (SocketState_open c (own_cstr s))
      (\<lambda>s. if \<not> a then Inl UncaughtException
           else Inr (start_async (OpConnect h p) (free_cstr (SocketState_pin True s)))))"
    if "ss_opaque s" and c: "connectable E \<longrightarrow> c" and a: "connectable E \<longrightarrow> a" for c a h p
  proof -
    have "bnd (SocketState_open c (own_cstr s)) f = bnd (SocketState_open c s) (\<lambda>s. f (own_cstr s))" for f :: "socket_state \<Rightarrow> socket_state result"
      by (cases s) (simp add: SocketState_open_def own_cstr_def)
    moreover have "free_cstr (SocketState_pin True (own_cstr s)) = SocketState_pin True s" for s
      by (simp add: free_cstr_def own_cstr_def SocketState_pin_def)
    moreover have "former_outcome E hold k (bnd (SocketState_open c s)
        (\<lambda>s. if \<not> a then Inl UncaughtException else Inr (start_async (OpConnect h p) (SocketState_pin True s))))"
    proof (cases "SocketState_open c s")
      case (Inl f)
      with open_ok [OF assms c] show ?thesis by simp
    next
      case (Inr s1)
      then have "ss_opaque s1" using that(1) by (auto simp: SocketState_open_def split: if_splits)
      moreover have "former_ok E k s1" "hold \<longrightarrow> 0 < ss_held s1" using Inr open_ok [OF assms c] by simp_all
      ultimately show ?thesis using Inr a opaque_live pin_ok [of E k s1 True] by (auto simp: start_ok)
    qed
    ultimately show ?thesis by (simp cong del: if_weak_cong)
  qed
  note C = this
  have assoc: "bnd (bnd r f) g = bnd r (\<lambda>s. bnd (f s) g)" for r :: "'a result" and f :: "'a \<Rightarrow> 'b result" and g :: "'b \<Rightarrow> 'c result"
    by (cases r) simp_all
  show ?thesis
    using assms C by (auto simp: former_socket_connect_def Let_def assoc connectable_def if_distrib [of "\<lambda>r. bnd r _"]
        split: list.split sarg.split option.split cong del: if_weak_cong)
qed

section \<open>Scripts\<close>

text \<open>
  JavaScript keeps its reference on the object: no script drops one; and it keeps the functions that
  it has registered, at least while they run.
\<close>

definition keeps_object :: "bool \<Rightarrow> former_env \<Rightarrow> bool" where
  "keeps_object hold E \<longleftrightarrow> (hold \<longrightarrow> (\<forall>f arg s. ADrop \<notin> set (fe_js E f arg s) \<and> fe_kept E f s))"

fun keeping :: "bool \<Rightarrow> sock_event \<Rightarrow> bool" where
  "keeping hold (Script as) = (hold \<longrightarrow> ADrop \<notin> set as)"
| "keeping hold Collect = (\<not> hold)"
| "keeping hold _ = True"

lemma former_act_ok:
  assumes "former_ok E k s" and "hold \<longrightarrow> a \<noteq> ADrop" and "0 < ss_held s"
  shows "former_outcome E hold k (former_act E a s)"
proof (cases a)
  case ADup
  have "former_ok E k (s\<lparr>ss_held := ss_held s + 1, ss_rc := ss_rc s + 1\<rparr>)"
    using assms by (auto simp: former_ok_def split: if_splits)
  then show ?thesis by (simp add: ADup)
next
  case ADrop
  have "former_ok E (k + 1) (s\<lparr>ss_held := ss_held s - 1\<rparr>)"
    using assms by (auto simp: former_ok_def of_nat_diff split: if_splits)
  moreover have "0 \<le> k" using assms(1) by (simp add: former_ok_def)
  ultimately have "former_outcome E False k (SocketState_free (s\<lparr>ss_held := ss_held s - 1\<rparr>))" by (rule free_ok) simp
  then show ?thesis using assms ADrop by simp
next
  case AClose
  then show ?thesis using former_close_ok [OF assms(1) _ refl] assms(3) by simp
next
  case (AConnect argv)
  then show ?thesis using former_connect_ok [OF assms(1)] assms(3) by simp
qed (use assms former_on_ok [OF assms(1)] former_write_ok [OF assms(1)] in simp_all)

lemma former_script_ok:
  "former_ok E k s \<Longrightarrow> hold \<longrightarrow> 0 < ss_held s \<and> ADrop \<notin> set as \<Longrightarrow> former_outcome E hold k (former_script E as s)"
proof (induction as arbitrary: s)
  case (Cons a as)
  show ?case
  proof (cases "ss_held s = 0")
    case False
    have "former_outcome E hold k (former_act E a s)"
      by (rule former_act_ok) (use Cons.prems False in auto)
    then show ?thesis using False Cons.IH Cons.prems(2) by (auto intro!: former_bnd)
  qed (use Cons.prems in simp)
qed simp

section \<open>Handlers\<close>

lemma call_ok:
  assumes "former_ok E k s" and "hold \<longrightarrow> 0 < ss_held s" and "keeps_object hold E"
  shows "former_outcome E hold k (call_slot E j ev arg s)"
proof (cases "get_slot j s")
  case (Some f)
  let ?s = "s\<lparr>ss_calls := ss_calls s @ [(ev, arg)]\<rparr>"
  have "former_outcome E hold k (former_script E (fe_js E f arg ?s) ?s)"
    by (rule former_script_ok [OF flags_ok(4) [OF assms(1)]]) (use assms(2,3) in \<open>simp add: keeps_object_def\<close>)
  then have "former_outcome E hold k (call_function E f arg ?s)"
    unfolding call_function_def by (rule former_bnd) (use assms(3) in \<open>auto simp: keeps_object_def\<close>)
  with Some show ?thesis by (simp add: call_slot_def)
qed (use assms in \<open>simp add: call_slot_def\<close>)

lemma write_handler_ok:
  assumes "former_ok E 1 s" and "hold \<longrightarrow> 0 < ss_held s" and "keeps_object hold E"
  shows "former_outcome E hold 0 (former_write_handler E r s)"
proof -
  have "former_outcome E hold 0 (SocketState_free s)" using free_ok [of E 0 s hold] assms by simp
  then show ?thesis unfolding former_write_handler_def
    by (rule former_bnd, intro former_bnd [OF former_use] former_bnd [OF unpin_ok])
      (auto split: option.split intro!: former_bnd [OF former_use] call_ok assms)
qed

lemma connect_handler_ok:
  assumes "former_ok E 0 s" and "hold \<longrightarrow> 0 < ss_held s" and "keeps_object hold E"
  shows "former_outcome E hold 0 (former_connect_handler E r s)"
proof (cases "net_error r")
  case (Some m)
  show ?thesis using assms unfolding former_connect_handler_def Some option.case
    by (intro former_bnd [of E hold 0] former_use unpin_ok call_ok onClosed_ok) auto
next
  case None
  have read: "former_outcome E hold 0 (if cb_data s \<noteq> None \<and> ss_reading s
      then Inr (SocketState_startRead (SocketState_pin (ss_obj s) s)) else Inr s)"
    if "former_ok E 0 s" "hold \<longrightarrow> 0 < ss_held s" for s
  proof -
    have "SocketState_pin (ss_obj s) s = s" by (simp add: SocketState_pin_def)
    with that show ?thesis by (simp add: read_ok)
  qed
  show ?thesis using assms unfolding former_connect_handler_def None option.case
    by (intro former_bnd [of E hold 0] former_use call_ok flags_ok read) auto
qed

lemma read_handler_ok:
  assumes "former_ok E 0 s" and "hold \<longrightarrow> 0 < ss_held s" and "keeps_object hold E"
  shows "former_outcome E hold 0 (former_read_handler E r s)"
proof (cases r)
  case (Done_ok d)
  have again: "former_outcome E hold 0 (if \<not> ss_finalized s \<and> \<not> ss_closed s then Inr (SocketState_doRead s) else Inr s)"
    if "former_ok E 0 s" "hold \<longrightarrow> 0 < ss_held s" for s
    using that by (simp add: read_ok)
  have data: "former_outcome E hold 0 (if cb_data s \<noteq> None \<and> \<not> ss_finalized s \<and> fe_newArrayBuffer E d
      then call_slot E SlotData ''data'' (Buffer d) s else Inr s)"
    if "former_ok E 0 s" "hold \<longrightarrow> 0 < ss_held s" for s
    using call_ok [OF that assms(3)] that by simp
  show ?thesis using assms(1,2) unfolding former_read_handler_def Done_ok net_result.case
    by (intro former_bnd [of E hold 0] former_use data again) auto
next
  case Aborted
  show ?thesis using assms unfolding former_read_handler_def Aborted net_result.case
    by (intro former_bnd [of E hold 0] former_use onClosed_ok flags_ok) auto
next
  case (Failed m)
  show ?thesis using assms unfolding former_read_handler_def Failed net_result.case
    by (intro former_bnd [of E hold 0] former_use call_ok onClosed_ok flags_ok) auto
qed

section \<open>Runs\<close>

lemma former_step_ok:
  assumes "former_ok E 0 s" and "hold \<longrightarrow> 0 < ss_held s" and "keeps_object hold E" and "keeping hold ev"
  shows "former_outcome E hold 0 (former_step E ev s)"
proof (cases ev)
  case (Script as)
  then show ?thesis using assms former_script_ok [OF assms(1), where hold = hold and as = as] by (simp add: former_step_def)
next
  case (Complete k r)
  have "writes (s\<lparr>ss_inflight := take_at k (ss_inflight s), ss_ready := ss_ready s @ [(ss_inflight s ! k, r)]\<rparr>) = writes s"
    if "k < length (ss_inflight s)"
  proof -
    have "filter is_write (ss_inflight s) =
        filter is_write (take k (ss_inflight s) @ ss_inflight s ! k # drop (Suc k) (ss_inflight s))"
      using id_take_nth_drop [OF that] by simp
    then show ?thesis by (simp add: writes_def take_at_def)
  qed
  then have "former_ok E 0 (s\<lparr>ss_inflight := take_at k (ss_inflight s), ss_ready := ss_ready s @ [(ss_inflight s ! k, r)]\<rparr>)"
    if "k < length (ss_inflight s)"
    by (intro former_cong [OF assms(1)]) (simp_all add: that slot_count_def fun_eq_iff)
  then show ?thesis using Complete assms by (simp add: former_step_def)
next
  case Handle
  show ?thesis
  proof (cases "ss_ready s")
    case (Cons x rest)
    obtain op r where x: "x = (op, r)" by (cases x)
    have k: "former_ok E (of_bool (is_write op)) (s\<lparr>ss_ready := rest\<rparr>)"
    proof -
      have "writes s = writes (s\<lparr>ss_ready := rest\<rparr>) + of_bool (is_write op)" by (simp add: writes_def Cons x)
      then show ?thesis using assms(1) by (cases op) (auto simp: former_ok_def split: if_splits)
    qed
    have h: "hold \<longrightarrow> 0 < ss_held (s\<lparr>ss_ready := rest\<rparr>)" using assms(2) by simp
    show ?thesis
      using k write_handler_ok [OF _ h assms(3), of r] connect_handler_ok [OF _ h assms(3), of r]
        read_handler_ok [OF _ h assms(3), of r]
      by (cases op) (simp_all add: Handle former_step_def Cons x)
  qed (use Handle assms in \<open>simp add: former_step_def\<close>)
next
  case Collect
  then have n: "\<not> hold" using assms(4) by simp
  show ?thesis
  proof (cases "ss_held s = 0 \<or> ss_rc s \<noteq> int (ss_held s)")
    case False
    then have "\<not> ss_finalized s" "writes s = 0" "\<not> ss_obj s"
      using assms(1) by (auto simp: former_ok_def of_bool_def split: if_splits)
    with assms(1) have "\<exists>s'. SocketState_jsFinalizer (s\<lparr>ss_held := 0, ss_rc := 0\<rparr>) = Inr s' \<and> former_ok E 0 s'"
      by (intro finalizer_ok) (auto simp: former_ok_def)
    then show ?thesis using Collect False n by (auto simp: former_step_def)
  qed (use Collect assms n in \<open>auto simp: former_step_def\<close>)
qed

lemma former_run_ok:
  "former_ok E 0 s \<Longrightarrow> hold \<longrightarrow> 0 < ss_held s \<Longrightarrow> keeps_object hold E \<Longrightarrow> list_all (keeping hold) evs \<Longrightarrow>
   former_outcome E hold 0 (former_run E evs s)"
proof (induction evs arbitrary: s)
  case (Cons ev evs)
  then have "former_outcome E hold 0 (former_step E ev s)" by (intro former_step_ok) simp_all
  with Cons show ?case by (auto intro: former_bnd)
qed simp

lemma former_fresh: "former_ok E 0 former_socket" "0 < ss_held former_socket"
  by (simp_all add: former_ok_def former_socket_def SocketState_ctor_def slot_count_def fun_eq_iff writes_def)

lemma former_run_append: "former_run E (evs @ evs') s = bnd (former_run E evs s) (former_run E evs')"
proof (induction evs arbitrary: s)
  case (Cons ev evs)
  then show ?case by (cases "former_step E ev s") simp_all
qed simp

section \<open>Examples\<close>

text \<open>Function 8 closes the socket, others do nothing; every host is an address, every socket can be
  opened and JavaScript keeps its functions; arrays have no buffer.\<close>

definition former_quiet :: former_env where
  "former_quiet = \<lparr>fe_js = \<lambda>f arg s. if f = 8 then [AClose] else [], fe_kept = \<lambda>f s. True,
     fe_is_address = \<lambda>h. True, fe_can_open = \<lambda>s. True,
     fe_val = \<lambda>a. (case a of AOther v \<Rightarrow> Some v | _ \<Rightarrow> None),
     fe_toCString = \<lambda>a. (case a of AString s \<Rightarrow> Some s | _ \<Rightarrow> None),
     fe_toInt64 = \<lambda>a. (case a of ANumber n \<Rightarrow> word_of_int n | _ \<Rightarrow> 0), fe_getArrayBuffer = \<lambda>a. None,
     fe_newArrayBuffer = \<lambda>b. True\<rparr>"

abbreviation former_connected :: "sock_event list" where
  "former_connected \<equiv> [Script [AConnect [AString ''h'', ANumber 80]], Complete 0 (Done_ok []), Handle]"

abbreviation former_written :: "sock_event list" where
  "former_written \<equiv> [Script [AWrite [AString ''x'']], Complete 0 (Done_ok []), Handle]"

section \<open>Properties\<close>

text \<open>
  C36. The former socket is safe as long as JavaScript keeps it. In every run that has no fault, the
  references on functions are those of the four slots and what the collector is told, the
  registration ends with the state, the state is deleted exactly when the object is finalized and
  the connection closed, and the references on a live object are those of JavaScript, of the pin and
  of each pending write; every pending write has a C string that is not freed, if arrays are no
  ArrayBuffers. When no script drops its reference on the object, the collector does not finalize it,
  and JavaScript keeps the functions it has registered while they run, then the object is never
  finalized, and the only fault there can be is the exception of a \<open>connect\<close>: there is none if every
  host is an address and every socket can be opened.
\<close>

theorem former_socket_held:
  assumes "keeps_object hold E" and "list_all (keeping hold) evs"
  shows "case former_run E evs former_socket of
      Inl f \<Rightarrow> hold \<longrightarrow> f = UncaughtException \<and> \<not> ((\<forall>h. fe_is_address E h) \<and> (\<forall>s. fe_can_open E s))
    | Inr s \<Rightarrow> (hold \<longrightarrow> \<not> ss_finalized s) \<and> (\<forall>v. ss_refs s v = slot_count s v \<and> ss_refs s v = int (count_list (SocketState_jsGcMark s) v)) \<and>
        (ss_deleted s \<longleftrightarrow> ss_finalized s \<and> ss_closed s) \<and> (ss_registered s \<longleftrightarrow> \<not> ss_deleted s) \<and>
        (if ss_finalized s then \<not> ss_obj s \<and> writes s = 0
         else ss_rc s = int (ss_held s) + of_bool (ss_obj s) + int (writes s)) \<and>
        ((\<forall>n. fe_getArrayBuffer E (AArray n) = None) \<longrightarrow> int (writes s) \<le> ss_cstrs s)"
proof -
  have out: "former_outcome E hold 0 (former_run E evs former_socket)"
    by (rule former_run_ok [OF former_fresh(1) _ assms]) (simp add: former_fresh)
  have marks: "slot_count s v = int (count_list (SocketState_jsGcMark s) v)" if "former_ok E 0 s" for s v
  proof (cases "ss_finalized s")
    case False
    then have "SocketState_jsGcMark s = List.map_filter (\<lambda>x. x) [cb_data s, cb_error s, cb_close s, cb_connect s]"
      using that by (simp add: former_ok_def SocketState_jsGcMark_def)
    then show ?thesis by (simp only: count_somes) (simp add: slot_count_def)
  qed (use that in \<open>simp add: former_ok_def SocketState_jsGcMark_def slot_count_def\<close>)
  show ?thesis
  proof (cases "former_run E evs former_socket")
    case (Inr s)
    with out have ok: "former_ok E 0 s" and h: "hold \<longrightarrow> 0 < ss_held s" by simp_all
    have "ss_refs s v = slot_count s v" "ss_refs s v = int (count_list (SocketState_jsGcMark s) v)" for v
      using ok marks [OF ok] by (simp_all add: former_ok_def)
    moreover have "hold \<longrightarrow> \<not> ss_finalized s" using h held_live [OF ok] by blast
    ultimately show ?thesis using ok by (simp add: Inr former_ok_def)
  qed (use out in \<open>simp add: connectable_def\<close>)
qed

theorem former_socket_held_witness:
  "\<exists>s. former_run former_quiet [Script [AWrite [AString ''x'']]] former_socket = Inr s \<and>
     ss_rc s = 3 \<and> writes s = 1 \<and> 1 \<le> ss_cstrs s \<and> \<not> ss_finalized s"
proof -
  have k: "keeps_object True former_quiet" by (simp add: keeps_object_def former_quiet_def)
  have "map_sum (\<lambda>_. ()) (\<lambda>s. (ss_held s, ss_obj s, writes s))
      (former_run former_quiet [Script [AWrite [AString ''x'']]] former_socket) = Inr (1, True, 1)" by code_simp
  then obtain s where s: "former_run former_quiet [Script [AWrite [AString ''x'']]] former_socket = Inr s"
    "ss_held s = 1" "ss_obj s" "writes s = 1"
    by (cases "former_run former_quiet [Script [AWrite [AString ''x'']]] former_socket") auto
  moreover have "\<forall>n. fe_getArrayBuffer former_quiet (AArray n) = None" by (simp add: former_quiet_def)
  ultimately show ?thesis
    using former_socket_held [OF k, of "[Script [AWrite [AString ''x'']]]"] by simp
qed

text \<open>
  It is not when JavaScript does not. If the last reference of a script is dropped while the
  socket is pinned, then the handler of the last pending write, or of a connection that failed,
  frees the pin as the last reference, and the finalizer, which finds the pin not yet cleared, frees
  it again.
\<close>

lemma former_drop_faults:
  assumes "former_run E evs former_socket = Inr s" and "ss_obj s" and "ss_held s = 1"
    and "ss_ready s = (x, r) # rest"
    and "is_write x \<and> writes s = 1 \<or> (\<exists>h p. x = OpConnect h p) \<and> net_error r \<noteq> None \<and> writes s = 0"
  shows "former_run E (evs @ [Script [ADrop], Handle]) former_socket = Inl OverFree"
proof -
  have "former_outcome E False 0 (former_run E evs former_socket)"
    using assms(1) by (intro former_run_ok [OF former_fresh(1)])
      (simp_all add: keeps_object_def list_all_iff split: sock_event.split, metis keeping.simps sock_event.exhaust)
  then have ok: "former_ok E 0 s" using assms(1) by simp
  then have s: "ss_opaque s" "\<not> ss_deleted s" "ss_rc s = 2 + int (writes s)"
    using assms(2,3) by (auto simp: former_ok_def split: if_splits)
  let ?d = "s\<lparr>ss_held := 0, ss_rc := 1 + int (writes s)\<rparr>"
  have drop: "former_step E (Script [ADrop]) s = Inr ?d"
    using assms(3) s by (simp add: former_step_def SocketState_free_def Let_def)
  have last: "SocketState_unpin t = Inl OverFree" if "ss_obj t" "ss_opaque t" "ss_rc t = 1" for t
    using that by (simp add: SocketState_unpin_def SocketState_free_def SocketState_jsFinalizer_def)
  have "former_step E Handle ?d = Inl OverFree"
  proof (cases x)
    case (OpWrite d)
    then have "writes s = 1" using assms(5) by auto
    then show ?thesis
      using OpWrite assms(2,4) s last
      by (simp add: former_step_def former_write_handler_def SocketState_free_def use_state_def Let_def)
  next
    case (OpConnect h p)
    then obtain m where "net_error r = Some m" "writes s = 0" using assms(5) by auto
    then show ?thesis
      using OpConnect assms(2,4) s last by (simp add: former_step_def former_connect_handler_def use_state_def)
  qed (use assms(5) in simp)
  then show ?thesis using assms(1) drop by (simp add: former_run_append)
qed

lemma former_drop_example:
  "former_run former_quiet ([Script [AWrite [AString ''x'']], Complete 0 (Done_ok [])] @ [Script [ADrop], Handle])
     former_socket = Inl OverFree"
proof -
  let ?evs = "[Script [AWrite [AString ''x'']], Complete 0 (Done_ok [])]"
  have "map_sum (\<lambda>_. ()) (\<lambda>s. (ss_obj s, ss_held s, ss_ready s, writes s)) (former_run former_quiet ?evs former_socket) =
      Inr (True, 1, [(OpWrite (bytes_of_string ''x''), Done_ok [])], 1)" by code_simp
  then obtain s where "former_run former_quiet ?evs former_socket = Inr s" "ss_obj s" "ss_held s = 1"
    "ss_ready s = [(OpWrite (bytes_of_string ''x''), Done_ok [])]" "writes s = 1"
    by (cases "former_run former_quiet ?evs former_socket") auto
  from former_drop_faults [OF this(1-4)] this(5) show ?thesis by simp
qed

section \<open>What it does less than it means to\<close>

text \<open>The C string of a write is never freed.\<close>

lemma former_write_leaks:
  "map_sum (\<lambda>_. ()) (\<lambda>s. (ss_cstrs s, ss_inflight s, ss_ready s)) (former_run former_quiet former_written former_socket) =
   Inr (1, [], [])"
  by code_simp

text \<open>The connection is never given up: after a peer has closed it, the object is pinned for ever.\<close>

lemma former_pinned_for_ever:
  "map_sum (\<lambda>_. ()) (\<lambda>s. (ss_closed s, ss_obj s, ss_rc s, ss_inflight s, ss_ready s))
     (former_run former_quiet
       (Script [AOn [AString ''data'', AOther 7]] # former_connected @ [Complete 0 (Failed ''End of file''), Handle, Script [ADrop]])
       former_socket) =
   Inr (True, True, 1, [], [])"
  by code_simp

text \<open>A listener that closes the socket does not stop it: the handler reads on, from a socket still open.\<close>

lemma former_close_reads_on:
  "map_sum (\<lambda>_. ()) (\<lambda>s. (ss_open s, ss_closed s, ss_inflight s))
     (former_run former_quiet
       (Script [AOn [AString ''data'', AOther 8]] # former_connected @ [Complete 0 (Done_ok [1]), Handle])
       former_socket) =
   Inr (True, False, [OpRead])"
  by code_simp

text \<open>Functions for \<open>close\<close> are kept and never called.\<close>

lemma former_close_not_called:
  "map_sum (\<lambda>_. ()) (\<lambda>s. (cb_close s, ss_closed s, ss_calls s))
     (former_run former_quiet
       (Script [AOn [AString ''close'', AOther 7], AOn [AString ''data'', AOther 6]] #
        former_connected @ [Complete 0 Aborted, Handle]) former_socket) =
   Inr (Some 7, True, [])"
  by code_simp

text \<open>
  \<open>open\<close> can throw through the C function of the binding, and a listener that replaces itself is freed
  while it runs when JavaScript has no other reference on it.
\<close>

lemma former_no_descriptor_throws:
  "former_run (former_quiet\<lparr>fe_can_open := \<lambda>_. False\<rparr>) [Script [AConnect [AString ''127.0.0.1'', ANumber 80]]] former_socket =
   Inl UncaughtException"
proof -
  have "map_sum id (\<lambda>_. ()) (former_run (former_quiet\<lparr>fe_can_open := \<lambda>_. False\<rparr>)
      [Script [AConnect [AString ''127.0.0.1'', ANumber 80]]] former_socket) = Inl UncaughtException" by code_simp
  then show ?thesis by (auto simp: map_sum_def split: sum.splits)
qed

lemma former_replaced_listener_faults:
  "map_sum id (\<lambda>_. ())
     (former_run (former_quiet\<lparr>fe_js := \<lambda>f arg s. if f = 7 then [AOn [AString ''data'', AOther 6]] else [], fe_kept := \<lambda>f s. False\<rparr>)
       (Script [AOn [AString ''data'', AOther 7]] # former_connected @ [Complete 0 (Done_ok [1]), Handle]) former_socket) =
   Inl UseAfterFree"
  by code_simp

end
