(* ===== verification/TimerBounds.thy ===== *)
theory TimerBounds
  imports EventEnd "HOL-Library.Word"
begin

text \<open>
  Timers at machine width. \<open>SandboxContext::scheduleTimer\<close> adds a duration of 64 bits to a time
  point of 64 bits, both in nanoseconds; the model of \<^verbatim>\<open>EventLoop\<close> adds integers.
\<close>

text \<open>The expiry as the code computes it, when the additions wrap.\<close>

definition expiry64 :: "i64 \<Rightarrow> i64 \<Rightarrow> i64" where
  "expiry64 now ms = now + ms * 1000000"

lemma expiry64_of_int: "expiry64 now ms = word_of_int (sint now + milliseconds (sint ms))"
  by (simp add: expiry64_def milliseconds_def)

lemma sint64: "-(2 ^ 63) \<le> k \<Longrightarrow> k < 2 ^ 63 \<Longrightarrow> sint (word_of_int k :: i64) = k"
  by (simp add: signed_of_int signed_take_bit_int_eq_self)

text \<open>
  C37. Bounds. For clock readings below \<open>2^62\<close> nanoseconds (146 years) and delays of at most
  4611686018427 milliseconds in either direction the 64-bit expiry is the integer one, and two
  expiries, computed at any two such readings, are ordered as the integers, so the timer heap is
  ordered rightly. From 9223372036855 milliseconds on the product does not fit, which C++ leaves
  undefined; where it wraps, every timer of 9223372036855 to 18446744073709 milliseconds is due at
  once, and the next longer one in less than half a millisecond.
\<close>

theorem timer_bounds:
  assumes "0 \<le> sint now" and "sint now < 2 ^ 62" and "0 \<le> sint now'" and "sint now' < 2 ^ 62"
    and "\<bar>sint ms\<bar> \<le> 4611686018427" and "\<bar>sint ms'\<bar> \<le> 4611686018427"
    and "9223372036855 \<le> sint long" and "sint long \<le> 18446744073709"
  shows "sint (expiry64 now ms) = te_expiry (new_entry f (sint ms) rep (SandboxContext_init (\<lambda>_. sint now))) \<and>
    (expiry64 now ms <s expiry64 now' ms' \<longleftrightarrow>
       sint now + milliseconds (sint ms) < sint now' + milliseconds (sint ms')) \<and>
    sint (expiry64 now long) < sint now \<and>
    sint now < sint (expiry64 now 18446744073710) \<and> sint (expiry64 now 18446744073710) < sint now + 500000"
proof -
  have fits: "sint (expiry64 t x) = sint t + milliseconds (sint x)"
    if "\<bar>sint x\<bar> \<le> 4611686018427" and "0 \<le> sint t" and "sint t < 2 ^ 62" for t x
  proof -
    have "-(2 ^ 63) \<le> sint t + milliseconds (sint x)" "sint t + milliseconds (sint x) < 2 ^ 63"
      using that by (auto simp: milliseconds_def)
    then show ?thesis unfolding expiry64_of_int by (rule sint64)
  qed
  have wraps: "sint (expiry64 now x) = sint now + milliseconds (sint x) - 2 ^ 64"
    if "-(2 ^ 63) \<le> sint now + milliseconds (sint x) - 2 ^ 64" "sint now + milliseconds (sint x) - 2 ^ 64 < 2 ^ 63" for x
  proof -
    have "expiry64 now x = word_of_int (sint now + milliseconds (sint x) - 2 ^ 64)"
      by (simp add: expiry64_of_int)
    then show ?thesis using sint64 [OF that] by simp
  qed
  have "sint (18446744073710 :: i64) = 18446744073710" by simp
  then have "sint (expiry64 now 18446744073710) = sint now + 448384"
    using wraps [of 18446744073710] assms(1,2) by (simp add: milliseconds_def)
  moreover have "sint (expiry64 now long) < sint now"
    using wraps [of long] assms(1,2,7,8) by (simp add: milliseconds_def)
  ultimately show ?thesis
    using fits [OF assms(5,1,2)] fits [OF assms(6,3,4)]
    by (simp add: word_sless_alt SandboxContext_init_def milliseconds_def)
qed

theorem timer_bounds_witness:
  "sint (expiry64 7 5) = 5000007 \<and> sint (expiry64 7 9223372036855) < 7 \<and> expiry64 7 5 <s expiry64 9 5"
  using timer_bounds [of 7 9 5 5 9223372036855 0 False] by (simp add: SandboxContext_init_def milliseconds_def)

end
