(* ===== verification/Handles.thy ===== *)
theory Handles
  imports Prelude
begin

text \<open>
  The RAII wrappers of \<^verbatim>\<open>include/value.hpp\<close>, \<^verbatim>\<open>include/atom.hpp\<close>, \<^verbatim>\<open>include/cstring.hpp\<close>,
  \<^verbatim>\<open>include/promise.hpp\<close> and \<^verbatim>\<open>src/promise.cpp\<close>.

  QuickJS is a parameter: what its functions answer is a record of functions on a state \<open>'w\<close> of
  their own. What the wrappers rely on is its convention for ownership, and that is part of the
  model: a \<open>JSValue\<close> that a function returns belongs to the caller, one that is passed is taken
  over, a \<open>JSValueConst\<close> is only looked at; likewise for atoms and C strings. The state counts
  what the C++ side owns.
\<close>

section \<open>The engine\<close>

datatype jsv = JUndefined | JException | JPrim int | JObject nat | JText nat

text \<open>\<open>JS_VALUE_HAS_REF_COUNT\<close>\<close>

fun has_ref_count :: "jsv \<Rightarrow> bool" where
  "has_ref_count (JObject _) = True"
| "has_ref_count (JText _) = True"
| "has_ref_count _ = False"

fun is_object :: "jsv \<Rightarrow> bool" where
  "is_object (JObject _) = True"
| "is_object _ = False"

type_synonym atom_id = nat     \<comment> \<open>0 is \<open>JS_ATOM_NULL\<close>\<close>
type_synonym cstr_id = nat     \<comment> \<open>0 is the null pointer\<close>

record 'w engine =
  en_world :: 'w
  en_held :: "jsv \<Rightarrow> int"
  en_atoms :: "atom_id \<Rightarrow> int"
  en_cstrs :: "cstr_id \<Rightarrow> int"
  en_storage :: "nat list"        \<comment> \<open>live \<open>OpaqueStorage\<close> objects\<close>

record 'w js_api =
  ja_toBool :: "jsv \<Rightarrow> 'w \<Rightarrow> int \<times> 'w"
  ja_toInt32 :: "jsv \<Rightarrow> 'w \<Rightarrow> (int \<times> 32 word) \<times> 'w"
  ja_toInt64 :: "jsv \<Rightarrow> 'w \<Rightarrow> (int \<times> i64) \<times> 'w"
  ja_toFloat64 :: "jsv \<Rightarrow> 'w \<Rightarrow> (int \<times> u64) \<times> 'w"    \<comment> \<open>the bits of the number\<close>
  ja_toIndex :: "jsv \<Rightarrow> 'w \<Rightarrow> (int \<times> u64) \<times> 'w"
  ja_toCStringLen :: "jsv \<Rightarrow> 'w \<Rightarrow> (cstr_id \<times> nat) \<times> 'w"
  ja_valueToAtom :: "jsv \<Rightarrow> 'w \<Rightarrow> atom_id \<times> 'w"
  ja_newAtomLen :: "string \<Rightarrow> 'w \<Rightarrow> atom_id \<times> 'w"
  ja_atomToCString :: "atom_id \<Rightarrow> 'w \<Rightarrow> (cstr_id \<times> nat) \<times> 'w"
  ja_cstring_text :: "cstr_id \<Rightarrow> 'w \<Rightarrow> string"
  ja_getException :: "'w \<Rightarrow> jsv \<times> 'w"
  ja_getProperty :: "jsv \<Rightarrow> atom_id \<Rightarrow> 'w \<Rightarrow> jsv \<times> 'w"
  ja_getPropertyStr :: "jsv \<Rightarrow> string \<Rightarrow> 'w \<Rightarrow> jsv \<times> 'w"
  ja_getGlobalObject :: "'w \<Rightarrow> jsv \<times> 'w"
  ja_getPropertyUint32 :: "jsv \<Rightarrow> u32 \<Rightarrow> 'w \<Rightarrow> jsv \<times> 'w"
  ja_setProperty :: "jsv \<Rightarrow> atom_id \<Rightarrow> jsv \<Rightarrow> 'w \<Rightarrow> int \<times> 'w"
  ja_setPropertyUint32 :: "jsv \<Rightarrow> u32 \<Rightarrow> jsv \<Rightarrow> 'w \<Rightarrow> int \<times> 'w"
  ja_setPropertyInt64 :: "jsv \<Rightarrow> i64 \<Rightarrow> jsv \<Rightarrow> 'w \<Rightarrow> int \<times> 'w"
  ja_hasProperty :: "jsv \<Rightarrow> atom_id \<Rightarrow> 'w \<Rightarrow> int \<times> 'w"
  ja_deleteProperty :: "jsv \<Rightarrow> atom_id \<Rightarrow> int \<Rightarrow> 'w \<Rightarrow> int \<times> 'w"
  ja_defineProperty :: "jsv \<Rightarrow> atom_id \<Rightarrow> jsv \<times> jsv \<times> jsv \<Rightarrow> int \<Rightarrow> 'w \<Rightarrow> int \<times> 'w"
  ja_definePropertyValue :: "jsv \<Rightarrow> atom_id \<Rightarrow> jsv \<Rightarrow> int \<Rightarrow> 'w \<Rightarrow> int \<times> 'w"
  ja_definePropertyValueUint32 :: "jsv \<Rightarrow> u32 \<Rightarrow> jsv \<Rightarrow> int \<Rightarrow> 'w \<Rightarrow> int \<times> 'w"
  ja_definePropertyGetSet :: "jsv \<Rightarrow> atom_id \<Rightarrow> jsv \<Rightarrow> jsv \<Rightarrow> int \<Rightarrow> 'w \<Rightarrow> int \<times> 'w"
  ja_getPrototype :: "jsv \<Rightarrow> 'w \<Rightarrow> jsv \<times> 'w"
  ja_setPrototype :: "jsv \<Rightarrow> jsv \<Rightarrow> 'w \<Rightarrow> int \<times> 'w"
  ja_call :: "jsv \<Rightarrow> jsv \<Rightarrow> jsv list \<Rightarrow> 'w \<Rightarrow> jsv \<times> 'w"
  ja_invoke :: "jsv \<Rightarrow> atom_id \<Rightarrow> jsv list \<Rightarrow> 'w \<Rightarrow> jsv \<times> 'w"
  ja_callConstructor :: "jsv \<Rightarrow> jsv list \<Rightarrow> 'w \<Rightarrow> jsv \<times> 'w"
  ja_callConstructor2 :: "jsv \<Rightarrow> jsv \<Rightarrow> jsv list \<Rightarrow> 'w \<Rightarrow> jsv \<times> 'w"
  ja_isExtensible :: "jsv \<Rightarrow> 'w \<Rightarrow> int \<times> 'w"
  ja_preventExtensions :: "jsv \<Rightarrow> 'w \<Rightarrow> int \<times> 'w"
  ja_isInstanceOf :: "jsv \<Rightarrow> jsv \<Rightarrow> 'w \<Rightarrow> int \<times> 'w"
  ja_newPromiseCapability :: "'w \<Rightarrow> (jsv \<times> jsv \<times> jsv) \<times> 'w"
  ja_promiseResult :: "jsv \<Rightarrow> 'w \<Rightarrow> jsv \<times> 'w"
  ja_ref_count :: "jsv \<Rightarrow> 'w \<Rightarrow> int"
  ja_getOpaque :: "jsv \<Rightarrow> 'w \<Rightarrow> nat option"
  ja_setOpaque :: "jsv \<Rightarrow> nat \<Rightarrow> 'w \<Rightarrow> 'w"
  ja_dupValue :: "jsv \<Rightarrow> 'w \<Rightarrow> 'w"
  ja_freeValue :: "jsv \<Rightarrow> 'w \<Rightarrow> 'w"

section \<open>References\<close>

definition own :: "jsv \<Rightarrow> 'w engine \<Rightarrow> 'w engine" where
  "own v e = (if has_ref_count v then e\<lparr>en_held := (en_held e)(v := en_held e v + 1)\<rparr> else e)"

definition disown :: "jsv \<Rightarrow> 'w engine \<Rightarrow> 'w engine" where
  "disown v e = (if has_ref_count v then e\<lparr>en_held := (en_held e)(v := en_held e v - 1)\<rparr> else e)"

definition JS_Dup :: "'w js_api \<Rightarrow> jsv \<Rightarrow> 'w engine \<Rightarrow> 'w engine" where
  "JS_Dup J v e = own v (e\<lparr>en_world := ja_dupValue J v (en_world e)\<rparr>)"

definition JS_Free :: "'w js_api \<Rightarrow> jsv \<Rightarrow> 'w engine \<Rightarrow> 'w engine" where
  "JS_Free J v e = disown v (e\<lparr>en_world := ja_freeValue J v (en_world e)\<rparr>)"

text \<open>A function of QuickJS on the engine: one that answers a value hands it over.\<close>

definition calls :: "('w \<Rightarrow> 'a \<times> 'w) \<Rightarrow> 'w engine \<Rightarrow> 'a \<times> 'w engine" where
  "calls f e = (let (x, w) = f (en_world e) in (x, e\<lparr>en_world := w\<rparr>))"

definition returns :: "('w \<Rightarrow> jsv \<times> 'w) \<Rightarrow> 'w engine \<Rightarrow> jsv \<times> 'w engine" where
  "returns f e = (let (v, e) = calls f e in (v, own v e))"

section \<open>Atom\<close>

record atom =
  at_ctx :: bool
  at_id :: atom_id

definition JS_DupAtom :: "atom_id \<Rightarrow> 'w engine \<Rightarrow> 'w engine" where
  "JS_DupAtom a e = e\<lparr>en_atoms := (en_atoms e)(a := en_atoms e a + 1)\<rparr>"

definition JS_FreeAtom :: "atom_id \<Rightarrow> 'w engine \<Rightarrow> 'w engine" where
  "JS_FreeAtom a e = e\<lparr>en_atoms := (en_atoms e)(a := en_atoms e a - 1)\<rparr>"

definition Atom_default :: atom where "Atom_default = \<lparr>at_ctx = False, at_id = 0\<rparr>"

definition Atom_raw :: "atom_id \<Rightarrow> atom" where "Atom_raw a = \<lparr>at_ctx = True, at_id = a\<rparr>"

text \<open>An atom that QuickJS returns belongs to the caller, and counts like a duplicated one.\<close>

definition Atom_name :: "'w js_api \<Rightarrow> string \<Rightarrow> 'w engine \<Rightarrow> atom \<times> 'w engine" where
  "Atom_name J name e = (let (a, e) = calls (ja_newAtomLen J name) e in (Atom_raw a, JS_DupAtom a e))"

definition Atom_copy :: "atom \<Rightarrow> 'w engine \<Rightarrow> atom \<times> 'w engine" where
  "Atom_copy a e =
     (\<lparr>at_ctx = at_ctx a, at_id = (if at_ctx a then at_id a else 0)\<rparr>,
      if at_ctx a then JS_DupAtom (at_id a) e else e)"

definition Atom_move :: "atom \<Rightarrow> atom \<times> atom" where
  "Atom_move a = (a, Atom_default)"

definition Atom_dtor :: "atom \<Rightarrow> 'w engine \<Rightarrow> 'w engine" where
  "Atom_dtor a e = (if at_ctx a then JS_FreeAtom (at_id a) e else e)"

text \<open>\<open>operator=\<close> takes its argument by value, swaps, and destroys what was there.\<close>

definition Atom_swap :: "atom \<Rightarrow> atom \<Rightarrow> atom \<times> atom" where
  "Atom_swap lhs rhs =
     (lhs\<lparr>at_id := at_id rhs, at_ctx := at_ctx rhs\<rparr>, rhs\<lparr>at_id := at_id lhs, at_ctx := at_ctx lhs\<rparr>)"

definition Atom_assign :: "atom \<Rightarrow> atom \<Rightarrow> 'w engine \<Rightarrow> atom \<times> 'w engine" where
  "Atom_assign a arg e = (let (a, arg) = Atom_swap a arg in (a, Atom_dtor arg e))"

definition Atom_bool :: "atom \<Rightarrow> bool" where "Atom_bool a \<longleftrightarrow> at_id a \<noteq> 0"

section \<open>CString\<close>

record cstring =
  cs_ctx :: bool
  cs_ptr :: cstr_id
  cs_len :: nat

definition CString_ctor :: "cstr_id \<Rightarrow> nat \<Rightarrow> cstring" where
  "CString_ctor p n = \<lparr>cs_ctx = True, cs_ptr = p, cs_len = (if p \<noteq> 0 then n else 0)\<rparr>"

definition CString_empty :: cstring where
  "CString_empty = \<lparr>cs_ctx = False, cs_ptr = 0, cs_len = 0\<rparr>"

definition JS_FreeCString :: "cstr_id \<Rightarrow> 'w engine \<Rightarrow> 'w engine" where
  "JS_FreeCString p e = (if p = 0 then e else e\<lparr>en_cstrs := (en_cstrs e)(p := en_cstrs e p - 1)\<rparr>)"

definition own_cstring :: "cstr_id \<Rightarrow> 'w engine \<Rightarrow> 'w engine" where
  "own_cstring p e = (if p = 0 then e else e\<lparr>en_cstrs := (en_cstrs e)(p := en_cstrs e p + 1)\<rparr>)"

definition CString_dtor :: "cstring \<Rightarrow> 'w engine \<Rightarrow> 'w engine" where
  "CString_dtor s e = (if cs_ctx s \<and> cs_ptr s \<noteq> 0 then JS_FreeCString (cs_ptr s) e else e)"

definition CString_move :: "cstring \<Rightarrow> cstring \<times> cstring" where
  "CString_move s = (s, CString_empty)"

text \<open>Move assignment to another object: what was there is freed.\<close>

definition CString_assign :: "cstring \<Rightarrow> cstring \<Rightarrow> 'w engine \<Rightarrow> (cstring \<times> cstring) \<times> 'w engine" where
  "CString_assign s other e = ((other, CString_empty), CString_dtor s e)"

definition CString_str :: "'w js_api \<Rightarrow> cstring \<Rightarrow> 'w engine \<Rightarrow> string" where
  "CString_str J s e = (if cs_ptr s \<noteq> 0 then take (cs_len s) (ja_cstring_text J (cs_ptr s) (en_world e)) else [])"

definition Atom_to_cstring :: "'w js_api \<Rightarrow> atom \<Rightarrow> 'w engine \<Rightarrow> cstring \<times> 'w engine" where
  "Atom_to_cstring J a e =
     (let ((p, n), e) = calls (ja_atomToCString J (at_id a)) e in (CString_ctor p n, own_cstring p e))"

section \<open>Value: construction and destruction\<close>

record jsvalue =
  v_ctx :: bool
  v_val :: jsv
  v_opaque :: bool

definition Value_default :: jsvalue where
  "Value_default = \<lparr>v_ctx = False, v_val = JUndefined, v_opaque = False\<rparr>"

definition Value_raw :: "jsv \<Rightarrow> jsvalue" where
  "Value_raw v = \<lparr>v_ctx = True, v_val = v, v_opaque = False\<rparr>"

definition Value_copy :: "'w js_api \<Rightarrow> jsvalue \<Rightarrow> 'w engine \<Rightarrow> jsvalue \<times> 'w engine" where
  "Value_copy J x e =
     (\<lparr>v_ctx = v_ctx x, v_val = (if v_ctx x then v_val x else JUndefined), v_opaque = v_opaque x\<rparr>,
      if v_ctx x then JS_Dup J (v_val x) e else e)"

definition Value_move :: "jsvalue \<Rightarrow> jsvalue \<times> jsvalue" where
  "Value_move x = (x, Value_default)"

text \<open>\<open>delete\<close> of an \<open>OpaqueStorage\<close>\<close>

definition delete_storage :: "nat \<Rightarrow> 'w engine \<Rightarrow> 'w engine" where
  "delete_storage i e = e\<lparr>en_storage := remove1 i (en_storage e)\<rparr>"

definition freeOpaqueIfLastRef :: "'w js_api \<Rightarrow> jsvalue \<Rightarrow> 'w engine \<Rightarrow> 'w engine" where
  "freeOpaqueIfLastRef J x e =
     (if \<not> v_opaque x \<or> \<not> has_ref_count (v_val x) \<or> \<not> is_object (v_val x) then e
      else if ja_ref_count J (v_val x) (en_world e) \<noteq> 1 then e
      else case ja_getOpaque J (v_val x) (en_world e) of None \<Rightarrow> e | Some i \<Rightarrow> delete_storage i e)"

definition Value_dtor :: "'w js_api \<Rightarrow> jsvalue \<Rightarrow> 'w engine \<Rightarrow> 'w engine" where
  "Value_dtor J x e = (if v_ctx x then JS_Free J (v_val x) (freeOpaqueIfLastRef J x e) else e)"

text \<open>\<open>operator=\<close> takes its argument by value, swaps, and destroys what was there.\<close>

definition Value_assign :: "'w js_api \<Rightarrow> jsvalue \<Rightarrow> jsvalue \<Rightarrow> 'w engine \<Rightarrow> jsvalue \<times> 'w engine" where
  "Value_assign J x arg e = (arg, Value_dtor J x e)"

definition Value_swap :: "jsvalue \<Rightarrow> jsvalue \<Rightarrow> jsvalue \<times> jsvalue" where
  "Value_swap lhs rhs =
     (lhs\<lparr>v_ctx := v_ctx rhs, v_val := v_val rhs, v_opaque := v_opaque rhs\<rparr>,
      rhs\<lparr>v_ctx := v_ctx lhs, v_val := v_val lhs, v_opaque := v_opaque lhs\<rparr>)"

definition Value_release :: "jsvalue \<Rightarrow> jsv \<times> jsvalue" where
  "Value_release x = (v_val x, Value_default)"

section \<open>Value: conversions\<close>

definition Value_isException :: "jsvalue \<Rightarrow> bool" where "Value_isException x \<longleftrightarrow> v_val x = JException"

definition Value_isUndefined :: "jsvalue \<Rightarrow> bool" where "Value_isUndefined x \<longleftrightarrow> v_val x = JUndefined"

definition Value_isObject :: "jsvalue \<Rightarrow> bool" where "Value_isObject x \<longleftrightarrow> is_object (v_val x)"

type_synonym 'a js_expected = "int + 'a"

text \<open>\<open>JsResult\<close>: negative for an exception, else a truth value\<close>

definition JsResult_bool :: "int \<Rightarrow> bool" where "JsResult_bool r \<longleftrightarrow> r > 0"

definition JsResult_isException :: "int \<Rightarrow> bool" where "JsResult_isException r \<longleftrightarrow> r < 0"

definition Value_toBool :: "'w js_api \<Rightarrow> jsvalue \<Rightarrow> 'w engine \<Rightarrow> bool js_expected \<times> 'w engine" where
  "Value_toBool J x e =
     (let (r, e) = calls (ja_toBool J (v_val x)) e in (if JsResult_isException r then Inl (-1) else Inr (JsResult_bool r), e))"

definition Value_toInt32 :: "'w js_api \<Rightarrow> jsvalue \<Rightarrow> 'w engine \<Rightarrow> 32 word js_expected \<times> 'w engine" where
  "Value_toInt32 J x e =
     (let ((r, v), e) = calls (ja_toInt32 J (v_val x)) e in (if r \<noteq> 0 then Inl (-1) else Inr v, e))"

definition Value_toInt64 :: "'w js_api \<Rightarrow> jsvalue \<Rightarrow> 'w engine \<Rightarrow> i64 js_expected \<times> 'w engine" where
  "Value_toInt64 J x e =
     (let ((r, v), e) = calls (ja_toInt64 J (v_val x)) e in (if r \<noteq> 0 then Inl (-1) else Inr v, e))"

definition Value_toFloat64 :: "'w js_api \<Rightarrow> jsvalue \<Rightarrow> 'w engine \<Rightarrow> u64 js_expected \<times> 'w engine" where
  "Value_toFloat64 J x e =
     (let ((r, v), e) = calls (ja_toFloat64 J (v_val x)) e in (if r \<noteq> 0 then Inl (-1) else Inr v, e))"

definition Value_toIndex :: "'w js_api \<Rightarrow> jsvalue \<Rightarrow> 'w engine \<Rightarrow> u64 js_expected \<times> 'w engine" where
  "Value_toIndex J x e =
     (let ((r, v), e) = calls (ja_toIndex J (v_val x)) e in (if r \<noteq> 0 then Inl (-1) else Inr v, e))"

definition Value_toString :: "'w js_api \<Rightarrow> jsvalue \<Rightarrow> 'w engine \<Rightarrow> cstring js_expected \<times> 'w engine" where
  "Value_toString J x e =
     (let ((p, n), e) = calls (ja_toCStringLen J (v_val x)) e;
          e = own_cstring p e
      in if p = 0 \<and> n = 0 then (Inl (-1), e) else (Inr (CString_ctor p n), e))"

definition Value_toAtom :: "'w js_api \<Rightarrow> jsvalue \<Rightarrow> 'w engine \<Rightarrow> atom js_expected \<times> 'w engine" where
  "Value_toAtom J x e =
     (let (raw, e) = calls (ja_valueToAtom J (v_val x)) e
      in if raw = 0 then (Inl (-1), e) else (Inr (Atom_raw raw), JS_DupAtom raw e))"

text \<open>\<open>assertOk\<close>: the text of the pending exception, thrown as a \<open>JsError\<close>.\<close>

definition Value_assertOk :: "'w js_api \<Rightarrow> jsvalue \<Rightarrow> 'w engine \<Rightarrow> (string + unit) \<times> 'w engine" where
  "Value_assertOk J x e =
     (if \<not> Value_isException x then (Inr (), e)
      else
        let (ex, e) = returns (ja_getException J) e;
            ((p, n), e) = calls (ja_toCStringLen J ex) e;
            e = own_cstring p e;
            msg = (if p \<noteq> 0 then c_str (ja_cstring_text J p (en_world e)) else ''JS error'');
            e = JS_FreeCString p e;
            e = JS_Free J ex e
        in (Inl msg, e))"

section \<open>Value: properties and calls\<close>

definition Value_getProperty :: "'w js_api \<Rightarrow> jsvalue \<Rightarrow> atom \<Rightarrow> 'w engine \<Rightarrow> jsvalue \<times> 'w engine" where
  "Value_getProperty J x prop e =
     (let (v, e) = returns (ja_getProperty J (v_val x) (at_id prop)) e in (Value_raw v, e))"

definition Value_getIndex :: "'w js_api \<Rightarrow> jsvalue \<Rightarrow> u32 \<Rightarrow> 'w engine \<Rightarrow> jsvalue \<times> 'w engine" where
  "Value_getIndex J x idx e =
     (let (v, e) = returns (ja_getPropertyUint32 J (v_val x) idx) e in (Value_raw v, e))"

text \<open>By name: the atom is destroyed at the end of the scope, on both ways out.\<close>

definition Value_getNamed :: "'w js_api \<Rightarrow> jsvalue \<Rightarrow> string \<Rightarrow> 'w engine \<Rightarrow> jsvalue \<times> 'w engine" where
  "Value_getNamed J x prop e =
     (let (a, e) = Atom_name J prop e
      in if \<not> Atom_bool a then (Value_raw JException, Atom_dtor a e)
         else let (r, e) = Value_getProperty J x a e in (r, Atom_dtor a e))"

text \<open>
  Setters take their value by value and hand it to QuickJS with \<open>release\<close>; what is left of the
  argument is destroyed at the end of the call.
\<close>

definition passed :: "('w \<Rightarrow> int \<times> 'w) \<Rightarrow> jsv list \<Rightarrow> 'w engine \<Rightarrow> int \<times> 'w engine" where
  "passed f vs e = (let (r, e) = calls f e in (r, fold disown vs e))"

definition Value_setProperty :: "'w js_api \<Rightarrow> jsvalue \<Rightarrow> atom \<Rightarrow> jsvalue \<Rightarrow> 'w engine \<Rightarrow> int \<times> 'w engine" where
  "Value_setProperty J x prop v e =
     (let (raw, v) = Value_release v;
          (r, e) = passed (ja_setProperty J (v_val x) (at_id prop) raw) [raw] e
      in (r, Value_dtor J v e))"

definition Value_setIndex :: "'w js_api \<Rightarrow> jsvalue \<Rightarrow> i64 \<Rightarrow> jsvalue \<Rightarrow> 'w engine \<Rightarrow> int \<times> 'w engine" where
  "Value_setIndex J x idx v e =
     (let (raw, v) = Value_release v;
          (r, e) = passed (ja_setPropertyInt64 J (v_val x) idx raw) [raw] e
      in (r, Value_dtor J v e))"

definition Value_setIndex32 :: "'w js_api \<Rightarrow> jsvalue \<Rightarrow> u32 \<Rightarrow> jsvalue \<Rightarrow> 'w engine \<Rightarrow> int \<times> 'w engine" where
  "Value_setIndex32 J x idx v e =
     (let (raw, v) = Value_release v;
          (r, e) = passed (ja_setPropertyUint32 J (v_val x) idx raw) [raw] e
      in (r, Value_dtor J v e))"

definition Value_setNamed :: "'w js_api \<Rightarrow> jsvalue \<Rightarrow> string \<Rightarrow> jsvalue \<Rightarrow> 'w engine \<Rightarrow> int \<times> 'w engine" where
  "Value_setNamed J x prop v e =
     (let (a, e) = Atom_name J prop e
      in if \<not> Atom_bool a then (-1, Value_dtor J v (Atom_dtor a e))
         else
           let (raw, v) = Value_release v;
               (r, e) = passed (ja_setProperty J (v_val x) (at_id a) raw) [raw] e
           in (r, Value_dtor J v (Atom_dtor a e)))"

definition Value_hasProperty :: "'w js_api \<Rightarrow> jsvalue \<Rightarrow> atom \<Rightarrow> 'w engine \<Rightarrow> int \<times> 'w engine" where
  "Value_hasProperty J x prop e = calls (ja_hasProperty J (v_val x) (at_id prop)) e"

definition Value_hasNamed :: "'w js_api \<Rightarrow> jsvalue \<Rightarrow> string \<Rightarrow> 'w engine \<Rightarrow> int \<times> 'w engine" where
  "Value_hasNamed J x prop e =
     (let (a, e) = Atom_name J prop e
      in if \<not> Atom_bool a then (-1, Atom_dtor a e)
         else let (r, e) = Value_hasProperty J x a e in (r, Atom_dtor a e))"

definition Value_deleteProperty :: "'w js_api \<Rightarrow> jsvalue \<Rightarrow> atom \<Rightarrow> int \<Rightarrow> 'w engine \<Rightarrow> int \<times> 'w engine" where
  "Value_deleteProperty J x prop flags e = calls (ja_deleteProperty J (v_val x) (at_id prop) flags) e"

definition Value_defineProperty ::
  "'w js_api \<Rightarrow> jsvalue \<Rightarrow> atom \<Rightarrow> jsvalue \<Rightarrow> jsvalue \<Rightarrow> jsvalue \<Rightarrow> int \<Rightarrow> 'w engine \<Rightarrow> int \<times> 'w engine" where
  "Value_defineProperty J x prop v getter setter flags e =
     calls (ja_defineProperty J (v_val x) (at_id prop) (v_val v, v_val getter, v_val setter) flags) e"

definition Value_definePropertyValue ::
  "'w js_api \<Rightarrow> jsvalue \<Rightarrow> atom \<Rightarrow> jsvalue \<Rightarrow> int \<Rightarrow> 'w engine \<Rightarrow> int \<times> 'w engine" where
  "Value_definePropertyValue J x prop v flags e =
     (let (raw, v) = Value_release v;
          (r, e) = passed (ja_definePropertyValue J (v_val x) (at_id prop) raw flags) [raw] e
      in (r, Value_dtor J v e))"

definition Value_definePropertyIndex ::
  "'w js_api \<Rightarrow> jsvalue \<Rightarrow> u32 \<Rightarrow> jsvalue \<Rightarrow> int \<Rightarrow> 'w engine \<Rightarrow> int \<times> 'w engine" where
  "Value_definePropertyIndex J x idx v flags e =
     (let (raw, v) = Value_release v;
          (r, e) = passed (ja_definePropertyValueUint32 J (v_val x) idx raw flags) [raw] e
      in (r, Value_dtor J v e))"

definition Value_definePropertyNamed ::
  "'w js_api \<Rightarrow> jsvalue \<Rightarrow> string \<Rightarrow> jsvalue \<Rightarrow> int \<Rightarrow> 'w engine \<Rightarrow> int \<times> 'w engine" where
  "Value_definePropertyNamed J x prop v flags e =
     (let (a, e) = Atom_name J prop e
      in if \<not> Atom_bool a then (-1, Value_dtor J v (Atom_dtor a e))
         else
           let (raw, v) = Value_release v;
               (r, e) = passed (ja_definePropertyValue J (v_val x) (at_id a) raw flags) [raw] e
           in (r, Value_dtor J v (Atom_dtor a e)))"

definition Value_definePropertyGetSet ::
  "'w js_api \<Rightarrow> jsvalue \<Rightarrow> atom \<Rightarrow> jsvalue \<Rightarrow> jsvalue \<Rightarrow> int \<Rightarrow> 'w engine \<Rightarrow> int \<times> 'w engine" where
  "Value_definePropertyGetSet J x prop getter setter flags e =
     (let (g, getter) = Value_release getter; (s, setter) = Value_release setter;
          (r, e) = passed (ja_definePropertyGetSet J (v_val x) (at_id prop) g s flags) [g, s] e
      in (r, Value_dtor J getter (Value_dtor J setter e)))"

definition Value_getPrototype :: "'w js_api \<Rightarrow> jsvalue \<Rightarrow> 'w engine \<Rightarrow> jsvalue \<times> 'w engine" where
  "Value_getPrototype J x e = (let (v, e) = returns (ja_getPrototype J (v_val x)) e in (Value_raw v, e))"

definition Value_setPrototype :: "'w js_api \<Rightarrow> jsvalue \<Rightarrow> jsvalue \<Rightarrow> 'w engine \<Rightarrow> int \<times> 'w engine" where
  "Value_setPrototype J x proto e = calls (ja_setPrototype J (v_val x) (v_val proto)) e"

definition Value_isExtensible :: "'w js_api \<Rightarrow> jsvalue \<Rightarrow> 'w engine \<Rightarrow> int \<times> 'w engine" where
  "Value_isExtensible J x e = calls (ja_isExtensible J (v_val x)) e"

definition Value_preventExtensions :: "'w js_api \<Rightarrow> jsvalue \<Rightarrow> 'w engine \<Rightarrow> int \<times> 'w engine" where
  "Value_preventExtensions J x e = calls (ja_preventExtensions J (v_val x)) e"

definition Value_isInstanceOf :: "'w js_api \<Rightarrow> jsvalue \<Rightarrow> jsvalue \<Rightarrow> 'w engine \<Rightarrow> int \<times> 'w engine" where
  "Value_isInstanceOf J x obj e = calls (ja_isInstanceOf J (v_val x) (v_val obj)) e"

definition make_argv :: "jsvalue list \<Rightarrow> jsv list" where
  "make_argv args = map v_val args"

definition Value_callMethod ::
  "'w js_api \<Rightarrow> jsvalue \<Rightarrow> jsvalue \<Rightarrow> jsvalue list \<Rightarrow> 'w engine \<Rightarrow> jsvalue \<times> 'w engine" where
  "Value_callMethod J x this_obj args e =
     (let (v, e) = returns (ja_call J (v_val x) (v_val this_obj) (make_argv args)) e in (Value_raw v, e))"

definition Value_call :: "'w js_api \<Rightarrow> jsvalue \<Rightarrow> jsvalue list \<Rightarrow> 'w engine \<Rightarrow> jsvalue \<times> 'w engine" where
  "Value_call J x args e =
     (let (v, e) = returns (ja_call J (v_val x) JUndefined (make_argv args)) e in (Value_raw v, e))"

definition Value_invoke :: "'w js_api \<Rightarrow> jsvalue \<Rightarrow> atom \<Rightarrow> jsvalue list \<Rightarrow> 'w engine \<Rightarrow> jsvalue \<times> 'w engine" where
  "Value_invoke J x a args e =
     (let (v, e) = returns (ja_invoke J (v_val x) (at_id a) (make_argv args)) e in (Value_raw v, e))"

definition Value_callConstructor :: "'w js_api \<Rightarrow> jsvalue \<Rightarrow> jsvalue list \<Rightarrow> 'w engine \<Rightarrow> jsvalue \<times> 'w engine" where
  "Value_callConstructor J x args e =
     (let (v, e) = returns (ja_callConstructor J (v_val x) (make_argv args)) e in (Value_raw v, e))"

definition Value_callConstructor2 ::
  "'w js_api \<Rightarrow> jsvalue \<Rightarrow> jsvalue \<Rightarrow> jsvalue list \<Rightarrow> 'w engine \<Rightarrow> jsvalue \<times> 'w engine" where
  "Value_callConstructor2 J x new_target args e =
     (let (v, e) = returns (ja_callConstructor2 J (v_val x) (v_val new_target) (make_argv args)) e in (Value_raw v, e))"

definition Value_promiseResult :: "'w js_api \<Rightarrow> jsvalue \<Rightarrow> 'w engine \<Rightarrow> jsvalue \<times> 'w engine" where
  "Value_promiseResult J x e = (let (v, e) = returns (ja_promiseResult J (v_val x)) e in (Value_raw v, e))"

text \<open>\<open>i\<close> is the new storage.\<close>

definition Value_setOpaque :: "'w js_api \<Rightarrow> nat \<Rightarrow> jsvalue \<Rightarrow> 'w engine \<Rightarrow> jsvalue \<times> 'w engine" where
  "Value_setOpaque J i x e =
     (x\<lparr>v_opaque := True\<rparr>,
      e\<lparr>en_storage := i # en_storage e, en_world := ja_setOpaque J (v_val x) i (en_world e)\<rparr>)"

definition Value_getOpaque :: "'w js_api \<Rightarrow> jsvalue \<Rightarrow> 'w engine \<Rightarrow> nat option" where
  "Value_getOpaque J x e = (if \<not> is_object (v_val x) then None else ja_getOpaque J (v_val x) (en_world e))"

section \<open>JsPromise\<close>

record js_promise =
  pm_promise :: jsv
  pm_resolve :: jsv
  pm_reject :: jsv
  pm_rt :: bool

definition JsPromise_default :: js_promise where
  "JsPromise_default = \<lparr>pm_promise = JUndefined, pm_resolve = JUndefined, pm_reject = JUndefined, pm_rt = False\<rparr>"

definition JsPromise_create :: "'w js_api \<Rightarrow> 'w engine \<Rightarrow> js_promise js_expected \<times> 'w engine" where
  "JsPromise_create J e =
     (let ((p, f, g), e) = calls (ja_newPromiseCapability J) e
      in if p = JException then (Inl (-1), e)
         else (Inr \<lparr>pm_promise = p, pm_resolve = f, pm_reject = g, pm_rt = True\<rparr>, own g (own f (own p e))))"

text \<open>An exception of the call is taken and dropped; the result is then freed twice, which is harmless for it.\<close>

definition settle :: "'w js_api \<Rightarrow> jsv \<Rightarrow> jsv \<Rightarrow> 'w engine \<Rightarrow> 'w engine" where
  "settle J func value e =
     (if func = JUndefined then e
      else
        let (ret, e) = returns (ja_call J func JUndefined [value]) e;
            e = (if ret = JException then
                   let (exc, e) = returns (ja_getException J) e in JS_Free J exc (JS_Free J ret e)
                 else e)
        in JS_Free J ret e)"

definition JsPromise_resolve :: "'w js_api \<Rightarrow> js_promise \<Rightarrow> jsv \<Rightarrow> 'w engine \<Rightarrow> 'w engine" where
  "JsPromise_resolve J p value e = settle J (pm_resolve p) value e"

definition JsPromise_reject :: "'w js_api \<Rightarrow> js_promise \<Rightarrow> jsv \<Rightarrow> 'w engine \<Rightarrow> 'w engine" where
  "JsPromise_reject J p reason e = settle J (pm_reject p) reason e"

definition JsPromise_dtor :: "'w js_api \<Rightarrow> js_promise \<Rightarrow> 'w engine \<Rightarrow> 'w engine" where
  "JsPromise_dtor J p e =
     (if pm_rt p then JS_Free J (pm_reject p) (JS_Free J (pm_resolve p) (JS_Free J (pm_promise p) e)) else e)"

definition emptied :: "js_promise \<Rightarrow> js_promise" where
  "emptied p = p\<lparr>pm_promise := JUndefined, pm_resolve := JUndefined, pm_reject := JUndefined\<rparr>"

definition JsPromise_move :: "js_promise \<Rightarrow> js_promise \<times> js_promise" where
  "JsPromise_move other = (other, emptied other)"

text \<open>Move assignment to another object overwrites what was there.\<close>

definition JsPromise_assign :: "js_promise \<Rightarrow> js_promise \<Rightarrow> js_promise \<times> js_promise" where
  "JsPromise_assign p other = (other, emptied other)"

end
