(* ===== verification/HandleProps.thy ===== *)
theory HandleProps
  imports Handles
begin

text \<open>
  Ownership: whatever a program does with the wrappers, the references that QuickJS counts for the
  C++ side are those of the live objects, of the raw values that were released from a handle, and of
  those that the move assignment of a promise has overwritten.
\<close>

section \<open>What each wrapper does to the references\<close>

abbreviation held :: "'w engine \<Rightarrow> jsv \<Rightarrow> int" where
  "held \<equiv> en_held"

definition owns :: "jsvalue \<Rightarrow> jsv \<Rightarrow> int" where
  "owns x v = of_bool (v_ctx x \<and> v_val x = v)"

lemma owns_simps [simp]: "owns (Value_raw w) v = of_bool (w = v)" "owns Value_default v = 0"
  by (simp_all add: owns_def Value_raw_def Value_default_def)

lemma ref_simps [simp]:
  "held (own w e) v = held e v + (if has_ref_count v then of_bool (w = v) else 0)"
  "held (disown w e) v = held e v - (if has_ref_count v then of_bool (w = v) else 0)"
  "held (JS_Dup J w e) v = held e v + (if has_ref_count v then of_bool (w = v) else 0)"
  "held (JS_Free J w e) v = held e v - (if has_ref_count v then of_bool (w = v) else 0)"
  "en_atoms (own w e) = en_atoms e" "en_atoms (disown w e) = en_atoms e" "en_atoms (JS_Free J w e) = en_atoms e"
  "en_atoms (JS_Dup J w e) = en_atoms e" "en_cstrs (JS_Dup J w e) = en_cstrs e"
  "en_cstrs (own w e) = en_cstrs e" "en_cstrs (disown w e) = en_cstrs e" "en_cstrs (JS_Free J w e) = en_cstrs e"
  by (auto simp: own_def disown_def JS_Free_def JS_Dup_def)

lemma calls_held: "calls f e = (x, e') \<Longrightarrow> held e' = held e \<and> en_atoms e' = en_atoms e \<and> en_cstrs e' = en_cstrs e"
  by (auto simp: calls_def split: prod.splits)

lemma returns_held:
  "returns f e = (x, e') \<Longrightarrow> held e' v = held e v + (if has_ref_count v then of_bool (x = v) else 0)"
  "returns f e = (x, e') \<Longrightarrow> en_atoms e' = en_atoms e \<and> en_cstrs e' = en_cstrs e"
  using calls_held [of f e] by (auto simp: returns_def split: prod.splits)

lemma atom_simps [simp]:
  "held (JS_DupAtom a e) = held e" "held (JS_FreeAtom a e) = held e" "held (Atom_dtor at e) = held e"
  "en_cstrs (JS_DupAtom a e) = en_cstrs e" "en_cstrs (JS_FreeAtom a e) = en_cstrs e" "en_cstrs (Atom_dtor at e) = en_cstrs e"
  "held (own_cstring p e) = held e" "held (JS_FreeCString p e) = held e"
  "en_atoms (own_cstring p e) = en_atoms e" "en_atoms (JS_FreeCString p e) = en_atoms e"
  by (simp_all add: JS_DupAtom_def JS_FreeAtom_def Atom_dtor_def own_cstring_def JS_FreeCString_def)

lemma atom_name:
  "Atom_name J s e = (a, e') \<Longrightarrow>
     held e' = held e \<and> en_cstrs e' = en_cstrs e \<and> at_ctx a \<and> en_atoms e' = (en_atoms e)(at_id a := en_atoms e (at_id a) + 1)"
  using calls_held [of "ja_newAtomLen J s" e]
  by (auto simp: Atom_name_def Atom_raw_def JS_DupAtom_def split: prod.splits)

lemma opaque_simps [simp]:
  "held (freeOpaqueIfLastRef J x e) = held e" "en_atoms (freeOpaqueIfLastRef J x e) = en_atoms e"
  "en_cstrs (freeOpaqueIfLastRef J x e) = en_cstrs e"
  by (simp_all add: freeOpaqueIfLastRef_def delete_storage_def split: option.split)

lemma dtor_held [simp]:
  "held (Value_dtor J x e) v = held e v - (if has_ref_count v then owns x v else 0)"
  "en_atoms (Value_dtor J x e) = en_atoms e" "en_cstrs (Value_dtor J x e) = en_cstrs e"
  by (simp_all add: Value_dtor_def owns_def)

section \<open>Programs\<close>

record 'w prog =
  pr_vals :: "jsvalue list"
  pr_raws :: "jsv list"      \<comment> \<open>released, the program owns them\<close>
  pr_proms :: "js_promise list"
  pr_lost :: "jsv list"      \<comment> \<open>overwritten in promises, nobody owns them\<close>
  pr_atoms :: "atom list"
  pr_strs :: "cstring list"
  pr_en :: "'w engine"

datatype vop =
    VCopy nat
  | VMove nat
  | VAssignCopy nat nat
  | VAssignMove nat nat
  | VSwap nat nat
  | VRelease nat
  | VWrap nat                 \<comment> \<open>a new handle takes over a released value\<close>
  | VDestroy nat
  | VGetNamed nat string
  | VGetIndex nat u32
  | VSetNamed nat string nat
  | VSetNamedMove nat string nat
  | VSetIndexMove nat i64 nat
  | VHasNamed nat string
  | VDefine nat nat nat nat int
  | VCallMethod nat nat "nat list"
  | VCall nat "nat list"
  | VAssert nat
  | VSetOpaque nat nat
  | VSetIndex nat u32 nat
  | VDefineNamed nat string nat int
  | VDefineIndex nat u32 nat int
  | VDefineValue nat nat nat int
  | VGetPrototype nat
  | VInvoke nat nat "nat list"
  | VConstruct nat "nat list"
  | VConstruct2 nat nat "nat list"
  | VPromiseResult nat
  | VToString nat
  | VToNumbers nat
  | VToAtom nat
  | PCreate
  | PMove nat
  | PResolve nat nat
  | PReject nat nat
  | PAssign nat nat
  | PDestroy nat
  | AName string
  | ACopy nat
  | AMove nat
  | AAssignCopy nat nat
  | AAssignMove nat nat
  | ADestroy nat
  | SOfAtom nat
  | SMove nat
  | SAssign nat nat
  | SDestroy nat

definition push :: "jsvalue \<times> 'w engine \<Rightarrow> 'w prog \<Rightarrow> 'w prog" where
  "push r p = p\<lparr>pr_vals := pr_vals p @ [fst r], pr_en := snd r\<rparr>"

definition put :: "nat \<Rightarrow> jsvalue \<Rightarrow> 'w prog \<Rightarrow> 'w prog" where
  "put i x p = p\<lparr>pr_vals := (pr_vals p)[i := x]\<rparr>"

abbreviation at :: "'w prog \<Rightarrow> nat \<Rightarrow> jsvalue" where
  "at p i \<equiv> pr_vals p ! i"

fun vop_args :: "vop \<Rightarrow> nat list" where
  "vop_args (VCopy i) = [i]" | "vop_args (VMove i) = [i]" | "vop_args (VAssignCopy i j) = [i, j]"
| "vop_args (VAssignMove i j) = [i, j]" | "vop_args (VSwap i j) = [i, j]" | "vop_args (VRelease i) = [i]"
| "vop_args (VDestroy i) = [i]" | "vop_args (VGetNamed i _) = [i]"
| "vop_args (VGetIndex i _) = [i]" | "vop_args (VSetNamed i _ j) = [i, j]"
| "vop_args (VSetNamedMove i _ j) = [i, j]" | "vop_args (VSetIndexMove i _ j) = [i, j]"
| "vop_args (VHasNamed i _) = [i]" | "vop_args (VDefine i _ j k _) = [i, j, k]"
| "vop_args (VCallMethod i j ks) = i # j # ks" | "vop_args (VCall i ks) = i # ks" | "vop_args (VAssert i) = [i]"
| "vop_args (VSetOpaque i _) = [i]" | "vop_args (VSetIndex i _ j) = [i, j]" | "vop_args (VDefineNamed i _ j _) = [i, j]"
| "vop_args (VDefineIndex i _ j _) = [i, j]" | "vop_args (VDefineValue i _ j _) = [i, j]" | "vop_args (VGetPrototype i) = [i]"
| "vop_args (VInvoke i _ ks) = i # ks" | "vop_args (VConstruct i ks) = i # ks" | "vop_args (VConstruct2 i j ks) = i # j # ks"
| "vop_args (VPromiseResult i) = [i]" | "vop_args (VToString i) = [i]" | "vop_args (VToNumbers i) = [i]" | "vop_args (VToAtom i) = [i]" | "vop_args (PResolve _ j) = [j]" | "vop_args (PReject _ j) = [j]"
| "vop_args _ = []"

fun vop_proms :: "vop \<Rightarrow> nat list" where
  "vop_proms (PMove i) = [i]" | "vop_proms (PResolve i _) = [i]" | "vop_proms (PReject i _) = [i]"
| "vop_proms (PAssign i j) = [i, j]" | "vop_proms (PDestroy i) = [i]" | "vop_proms _ = []"

fun vop_atoms :: "vop \<Rightarrow> nat list" where
  "vop_atoms (VDefine _ a _ _ _) = [a]" | "vop_atoms (VDefineValue _ a _ _) = [a]" | "vop_atoms (VInvoke _ a _) = [a]"
| "vop_atoms (ACopy i) = [i]" | "vop_atoms (AMove i) = [i]" | "vop_atoms (AAssignCopy i j) = [i, j]"
| "vop_atoms (AAssignMove i j) = [i, j]" | "vop_atoms (ADestroy i) = [i]" | "vop_atoms (SOfAtom i) = [i]"
| "vop_atoms _ = []"

fun vop_strs :: "vop \<Rightarrow> nat list" where
  "vop_strs (SMove i) = [i]" | "vop_strs (SAssign i j) = [i, j]" | "vop_strs (SDestroy i) = [i]" | "vop_strs _ = []"

text \<open>The handle whose context the operation passes to QuickJS: on an empty one that is a null pointer.\<close>

fun vop_receiver :: "vop \<Rightarrow> nat list" where
  "vop_receiver (VGetNamed i _) = [i]" | "vop_receiver (VGetIndex i _) = [i]" | "vop_receiver (VSetNamed i _ _) = [i]"
| "vop_receiver (VSetNamedMove i _ _) = [i]" | "vop_receiver (VSetIndexMove i _ _) = [i]"
| "vop_receiver (VHasNamed i _) = [i]" | "vop_receiver (VDefine i _ _ _ _) = [i]" | "vop_receiver (VCallMethod i _ _) = [i]"
| "vop_receiver (VCall i _) = [i]" | "vop_receiver (VAssert i) = [i]" | "vop_receiver (VSetOpaque i _) = [i]"
| "vop_receiver (VSetIndex i _ _) = [i]" | "vop_receiver (VDefineNamed i _ _ _) = [i]"
| "vop_receiver (VDefineIndex i _ _ _) = [i]" | "vop_receiver (VDefineValue i _ _ _) = [i]" | "vop_receiver (VGetPrototype i) = [i]"
| "vop_receiver (VInvoke i _ _) = [i]" | "vop_receiver (VConstruct i _) = [i]" | "vop_receiver (VConstruct2 i _ _) = [i]"
| "vop_receiver (VPromiseResult i) = [i]" | "vop_receiver (VToNumbers i) = [i]" | "vop_receiver (VToString i) = [i]" | "vop_receiver (VToAtom i) = [i]"
| "vop_receiver _ = []"

text \<open>The references that a promise holds.\<close>

definition promise_values :: "js_promise \<Rightarrow> jsv list" where
  "promise_values x = (if pm_rt x then filter has_ref_count [pm_promise x, pm_resolve x, pm_reject x] else [])"

text \<open>
  A destroyed handle leaves an empty one, as a moved one does. By-value arguments are copies, or
  moves out of their handle, made before the call. What \<open>vop_legal\<close> excludes does nothing here: a
  handle that does not exist, or a receiver that is empty or moved into its own call.
\<close>

fun vop_exec :: "'w js_api \<Rightarrow> vop \<Rightarrow> 'w prog \<Rightarrow> 'w prog" where
  "vop_exec J (VCopy i) p = push (Value_copy J (at p i) (pr_en p)) p"
| "vop_exec J (VMove i) p =
     (let (new, old) = Value_move (at p i) in push (new, pr_en p) (put i old p))"
| "vop_exec J (VAssignCopy i j) p =
     (let (arg, e) = Value_copy J (at p j) (pr_en p);
          (x, e) = Value_assign J (at p i) arg e
      in put i x (p\<lparr>pr_en := e\<rparr>))"
| "vop_exec J (VAssignMove i j) p =
     (let (arg, old) = Value_move (at p j); p = put j old p;
          (x, e) = Value_assign J (at p i) arg (pr_en p)
      in put i x (p\<lparr>pr_en := e\<rparr>))"
| "vop_exec J (VSwap i j) p = (let (x, y) = Value_swap (at p i) (at p j) in put j y (put i x p))"
| "vop_exec J (VRelease i) p =
     (let (raw, x) = Value_release (at p i)
      in put i x (p\<lparr>pr_raws := (if v_ctx (at p i) then pr_raws p @ [raw] else pr_raws p)\<rparr>))"
| "vop_exec J (VWrap k) p =
     (if k < length (pr_raws p) then
        push (Value_raw (pr_raws p ! k), pr_en p) (p\<lparr>pr_raws := take k (pr_raws p) @ drop (Suc k) (pr_raws p)\<rparr>)
      else p)"
| "vop_exec J (VDestroy i) p = put i Value_default (p\<lparr>pr_en := Value_dtor J (at p i) (pr_en p)\<rparr>)"
| "vop_exec J (VGetNamed i s) p = push (Value_getNamed J (at p i) s (pr_en p)) p"
| "vop_exec J (VGetIndex i k) p = push (Value_getIndex J (at p i) k (pr_en p)) p"
| "vop_exec J (VSetNamed i s j) p =
     (let (arg, e) = Value_copy J (at p j) (pr_en p) in p\<lparr>pr_en := snd (Value_setNamed J (at p i) s arg e)\<rparr>)"
| "vop_exec J (VSetNamedMove i s j) p =
     (let (arg, old) = Value_move (at p j); p = put j old p
      in p\<lparr>pr_en := snd (Value_setNamed J (at p i) s arg (pr_en p))\<rparr>)"
| "vop_exec J (VSetIndexMove i k j) p =
     (let (arg, old) = Value_move (at p j); p = put j old p
      in p\<lparr>pr_en := snd (Value_setIndex J (at p i) k arg (pr_en p))\<rparr>)"
| "vop_exec J (VHasNamed i s) p = p\<lparr>pr_en := snd (Value_hasNamed J (at p i) s (pr_en p))\<rparr>"
| "vop_exec J (VDefine i a j k fl) p =
     (let (g, e) = Value_copy J (at p j) (pr_en p); (s, e) = Value_copy J (at p k) e
      in p\<lparr>pr_en := snd (Value_definePropertyGetSet J (at p i) (pr_atoms p ! a) g s fl e)\<rparr>)"
| "vop_exec J (VCallMethod i j ks) p = push (Value_callMethod J (at p i) (at p j) (map (at p) ks) (pr_en p)) p"
| "vop_exec J (VCall i ks) p = push (Value_call J (at p i) (map (at p) ks) (pr_en p)) p"
| "vop_exec J (VAssert i) p = p\<lparr>pr_en := snd (Value_assertOk J (at p i) (pr_en p))\<rparr>"
| "vop_exec J (VSetOpaque i n) p =
     (let (x, e) = Value_setOpaque J n (at p i) (pr_en p) in put i x (p\<lparr>pr_en := e\<rparr>))"
| "vop_exec J (VSetIndex i k j) p =
     (let (arg, e) = Value_copy J (at p j) (pr_en p) in p\<lparr>pr_en := snd (Value_setIndex32 J (at p i) k arg e)\<rparr>)"
| "vop_exec J (VDefineNamed i s j fl) p =
     (let (arg, e) = Value_copy J (at p j) (pr_en p) in p\<lparr>pr_en := snd (Value_definePropertyNamed J (at p i) s arg fl e)\<rparr>)"
| "vop_exec J (VDefineIndex i k j fl) p =
     (let (arg, e) = Value_copy J (at p j) (pr_en p) in p\<lparr>pr_en := snd (Value_definePropertyIndex J (at p i) k arg fl e)\<rparr>)"
| "vop_exec J (VDefineValue i a j fl) p =
     (let (arg, e) = Value_copy J (at p j) (pr_en p)
      in p\<lparr>pr_en := snd (Value_definePropertyValue J (at p i) (pr_atoms p ! a) arg fl e)\<rparr>)"
| "vop_exec J (VGetPrototype i) p = push (Value_getPrototype J (at p i) (pr_en p)) p"
| "vop_exec J (VInvoke i a ks) p = push (Value_invoke J (at p i) (pr_atoms p ! a) (map (at p) ks) (pr_en p)) p"
| "vop_exec J (VConstruct i ks) p = push (Value_callConstructor J (at p i) (map (at p) ks) (pr_en p)) p"
| "vop_exec J (VConstruct2 i j ks) p = push (Value_callConstructor2 J (at p i) (at p j) (map (at p) ks) (pr_en p)) p"
| "vop_exec J (VPromiseResult i) p = push (Value_promiseResult J (at p i) (pr_en p)) p"
| "vop_exec J (VToNumbers i) p =
     (let e = pr_en p; e = snd (Value_toBool J (at p i) e); e = snd (Value_toInt32 J (at p i) e);
          e = snd (Value_toInt64 J (at p i) e); e = snd (Value_toFloat64 J (at p i) e)
      in p\<lparr>pr_en := snd (Value_toIndex J (at p i) e)\<rparr>)"
| "vop_exec J (VToString i) p =
     (case Value_toString J (at p i) (pr_en p) of
        (Inl _, e) \<Rightarrow> p\<lparr>pr_en := e\<rparr> | (Inr s, e) \<Rightarrow> p\<lparr>pr_strs := pr_strs p @ [s], pr_en := e\<rparr>)"
| "vop_exec J (VToAtom i) p =
     (case Value_toAtom J (at p i) (pr_en p) of
        (Inl _, e) \<Rightarrow> p\<lparr>pr_en := e\<rparr> | (Inr a, e) \<Rightarrow> p\<lparr>pr_atoms := pr_atoms p @ [a], pr_en := e\<rparr>)"
| "vop_exec J PCreate p =
     (case JsPromise_create J (pr_en p) of
        (Inl _, e) \<Rightarrow> p\<lparr>pr_en := e\<rparr>
      | (Inr x, e) \<Rightarrow> p\<lparr>pr_proms := pr_proms p @ [x], pr_en := e\<rparr>)"
| "vop_exec J (PMove i) p =
     (let (new, old) = JsPromise_move (pr_proms p ! i) in p\<lparr>pr_proms := (pr_proms p)[i := old] @ [new]\<rparr>)"
| "vop_exec J (PResolve i j) p = p\<lparr>pr_en := JsPromise_resolve J (pr_proms p ! i) (v_val (at p j)) (pr_en p)\<rparr>"
| "vop_exec J (PReject i j) p = p\<lparr>pr_en := JsPromise_reject J (pr_proms p ! i) (v_val (at p j)) (pr_en p)\<rparr>"
| "vop_exec J (PDestroy i) p =
     p\<lparr>pr_proms := (pr_proms p)[i := JsPromise_default], pr_en := JsPromise_dtor J (pr_proms p ! i) (pr_en p)\<rparr>"
| "vop_exec J (PAssign i j) p =
     (if i = j then p
      else
        let (x, y) = JsPromise_assign (pr_proms p ! i) (pr_proms p ! j)
        in p\<lparr>pr_proms := (pr_proms p)[i := x, j := y], pr_lost := pr_lost p @ promise_values (pr_proms p ! i)\<rparr>)"
| "vop_exec J (AName s) p = (let (a, e) = Atom_name J s (pr_en p) in p\<lparr>pr_atoms := pr_atoms p @ [a], pr_en := e\<rparr>)"
| "vop_exec J (ACopy i) p =
     (let (a, e) = Atom_copy (pr_atoms p ! i) (pr_en p) in p\<lparr>pr_atoms := pr_atoms p @ [a], pr_en := e\<rparr>)"
| "vop_exec J (AMove i) p =
     (let (new, old) = Atom_move (pr_atoms p ! i) in p\<lparr>pr_atoms := (pr_atoms p)[i := old] @ [new]\<rparr>)"
| "vop_exec J (AAssignCopy i j) p =
     (let (arg, e) = Atom_copy (pr_atoms p ! j) (pr_en p);
          (a, e) = Atom_assign (pr_atoms p ! i) arg e
      in p\<lparr>pr_atoms := (pr_atoms p)[i := a], pr_en := e\<rparr>)"
| "vop_exec J (AAssignMove i j) p =
     (let (arg, old) = Atom_move (pr_atoms p ! j); p = p\<lparr>pr_atoms := (pr_atoms p)[j := old]\<rparr>;
          (a, e) = Atom_assign (pr_atoms p ! i) arg (pr_en p)
      in p\<lparr>pr_atoms := (pr_atoms p)[i := a], pr_en := e\<rparr>)"
| "vop_exec J (ADestroy i) p =
     p\<lparr>pr_atoms := (pr_atoms p)[i := Atom_default], pr_en := Atom_dtor (pr_atoms p ! i) (pr_en p)\<rparr>"
| "vop_exec J (SOfAtom i) p =
     (let (s, e) = Atom_to_cstring J (pr_atoms p ! i) (pr_en p) in p\<lparr>pr_strs := pr_strs p @ [s], pr_en := e\<rparr>)"
| "vop_exec J (SMove i) p =
     (let (new, old) = CString_move (pr_strs p ! i) in p\<lparr>pr_strs := (pr_strs p)[i := old] @ [new]\<rparr>)"
| "vop_exec J (SAssign i j) p =
     (if i = j then p
      else
        let ((s, old), e) = CString_assign (pr_strs p ! i) (pr_strs p ! j) (pr_en p)
        in p\<lparr>pr_strs := (pr_strs p)[i := s, j := old], pr_en := e\<rparr>)"
| "vop_exec J (SDestroy i) p =
     p\<lparr>pr_strs := (pr_strs p)[i := CString_empty], pr_en := CString_dtor (pr_strs p ! i) (pr_en p)\<rparr>"

definition vop_legal :: "'w prog \<Rightarrow> vop \<Rightarrow> bool" where
  "vop_legal p x \<longleftrightarrow>
     list_all (\<lambda>i. i < length (pr_vals p)) (vop_args x) \<and> list_all (\<lambda>i. i < length (pr_proms p)) (vop_proms x) \<and>
     list_all (\<lambda>i. i < length (pr_atoms p)) (vop_atoms x) \<and> list_all (\<lambda>i. i < length (pr_strs p)) (vop_strs x) \<and>
     list_all (\<lambda>i. v_ctx (at p i)) (vop_receiver x) \<and>
     (case x of VSetNamedMove i _ j \<Rightarrow> i \<noteq> j | VSetIndexMove i _ j \<Rightarrow> i \<noteq> j | SOfAtom i \<Rightarrow> at_ctx (pr_atoms p ! i)
      | _ \<Rightarrow> True)"

definition vop_step :: "'w js_api \<Rightarrow> 'w prog \<Rightarrow> vop \<Rightarrow> 'w prog" where
  "vop_step J p x = (if vop_legal p x then vop_exec J x p else p)"

definition prog_start :: "'w \<Rightarrow> 'w prog" where
  "prog_start w =
     \<lparr>pr_vals = [], pr_raws = [], pr_proms = [], pr_lost = [], pr_atoms = [], pr_strs = [],
      pr_en = \<lparr>en_world = w, en_held = (\<lambda>_. 0), en_atoms = (\<lambda>_. 0), en_cstrs = (\<lambda>_. 0), en_storage = []\<rparr>\<rparr>"

text \<open>At the end of their scope all objects are destroyed.\<close>

definition prog_end :: "'w js_api \<Rightarrow> 'w prog \<Rightarrow> 'w engine" where
  "prog_end J p =
     fold CString_dtor (pr_strs p) (fold Atom_dtor (pr_atoms p)
       (fold (JsPromise_dtor J) (pr_proms p) (fold (Value_dtor J) (pr_vals p) (pr_en p))))"

section \<open>Balance\<close>

definition owned_by :: "jsvalue list \<Rightarrow> jsv \<Rightarrow> int" where
  "owned_by xs v = (\<Sum>x\<leftarrow>xs. owns x v)"

definition promise_owns :: "js_promise \<Rightarrow> jsv \<Rightarrow> int" where
  "promise_owns x v =
     (if pm_rt x then of_bool (pm_promise x = v) + of_bool (pm_resolve x = v) + of_bool (pm_reject x = v) else 0)"

definition promises_own :: "js_promise list \<Rightarrow> jsv \<Rightarrow> int" where
  "promises_own xs v = (\<Sum>x\<leftarrow>xs. promise_owns x v)"

definition accounted :: "'w prog \<Rightarrow> jsv \<Rightarrow> int" where
  "accounted p v = owned_by (pr_vals p) v + promises_own (pr_proms p) v + int (count_list (pr_raws p) v) +
     int (count_list (pr_lost p) v)"

definition atom_owns :: "atom \<Rightarrow> atom_id \<Rightarrow> int" where
  "atom_owns x a = of_bool (at_ctx x \<and> at_id x = a)"

definition str_owns :: "cstring \<Rightarrow> cstr_id \<Rightarrow> int" where
  "str_owns x q = of_bool (cs_ctx x \<and> cs_ptr x = q \<and> q \<noteq> 0)"

definition atoms_own :: "atom list \<Rightarrow> atom_id \<Rightarrow> int" where
  "atoms_own xs a = (\<Sum>x\<leftarrow>xs. atom_owns x a)"

definition strs_own :: "cstring list \<Rightarrow> cstr_id \<Rightarrow> int" where
  "strs_own xs q = (\<Sum>x\<leftarrow>xs. str_owns x q)"

definition balanced :: "'w prog \<Rightarrow> bool" where
  "balanced p \<longleftrightarrow>
     (\<forall>v. held (pr_en p) v = (if has_ref_count v then accounted p v else 0)) \<and>
     en_atoms (pr_en p) = atoms_own (pr_atoms p) \<and> en_cstrs (pr_en p) = strs_own (pr_strs p)"

lemma owned_by_simps [simp]: "owned_by [] v = 0" "owned_by (xs @ ys) v = owned_by xs v + owned_by ys v"
  "owned_by (x # xs) v = owns x v + owned_by xs v"
  by (simp_all add: owned_by_def)

lemma promises_own_simps [simp]: "promises_own [] v = 0" "promises_own (xs @ ys) v = promises_own xs v + promises_own ys v"
  "promises_own (x # xs) v = promise_owns x v + promises_own xs v"
  by (simp_all add: promises_own_def)

lemma atoms_own_simps [simp]: "atoms_own [] a = 0" "atoms_own (xs @ ys) a = atoms_own xs a + atoms_own ys a"
  "atoms_own (x # xs) a = atom_owns x a + atoms_own xs a"
  by (simp_all add: atoms_own_def)

lemma strs_own_simps [simp]: "strs_own [] q = 0" "strs_own (xs @ ys) q = strs_own xs q + strs_own ys q"
  "strs_own (x # xs) q = str_owns x q + strs_own xs q"
  by (simp_all add: strs_own_def)

lemma atoms_own_update [simp]:
  "i < length xs \<Longrightarrow> atoms_own (xs[i := x]) a = atoms_own xs a - atom_owns (xs ! i) a + atom_owns x a"
  by (induction xs arbitrary: i) (auto split: nat.split)

lemma strs_own_update [simp]:
  "i < length xs \<Longrightarrow> strs_own (xs[i := x]) q = strs_own xs q - str_owns (xs ! i) q + str_owns x q"
  by (induction xs arbitrary: i) (auto split: nat.split)

lemma owned_by_update: "i < length xs \<Longrightarrow> owned_by (xs[i := x]) v = owned_by xs v - owns (xs ! i) v + owns x v"
  by (induction xs arbitrary: i) (auto split: nat.split)

lemma promises_own_update:
  "i < length xs \<Longrightarrow> promises_own (xs[i := x]) v = promises_own xs v - promise_owns (xs ! i) v + promise_owns x v"
  by (induction xs arbitrary: i) (auto split: nat.split)

text \<open>The references that a wrapper adds, temporaries gone.\<close>

definition delta :: "'w engine \<Rightarrow> 'w engine \<Rightarrow> (jsv \<Rightarrow> int) \<Rightarrow> bool" where
  "delta e e' d \<longleftrightarrow> (\<forall>v. held e' v = held e v + (if has_ref_count v then d v else 0)) \<and> en_atoms e' = en_atoms e \<and> en_cstrs e' = en_cstrs e"

lemma delta_refl: "delta e e (\<lambda>_. 0)" by (simp add: delta_def)

lemma delta_calls: "calls f e = (x, e') \<Longrightarrow> delta e e' (\<lambda>_. 0)"
  using calls_held [of f e x e'] by (simp add: delta_def)

lemma delta_returns: "returns f e = (x, e') \<Longrightarrow> delta e e' (owns (Value_raw x))"
  using returns_held [of f e x e'] by (simp add: delta_def)

lemma delta_dtor: "delta e (Value_dtor J x e) (\<lambda>v. - owns x v)"
  by (simp add: delta_def)

lemma delta_copy: "delta e (snd (Value_copy J x e)) (owns (fst (Value_copy J x e)))" "owns (fst (Value_copy J x e)) = owns x"
  by (auto simp: delta_def Value_copy_def owns_def)

lemma delta_trans: "delta e e1 d \<Longrightarrow> delta e1 e2 d' \<Longrightarrow> delta e e2 (\<lambda>v. d v + d' v)"
  by (simp add: delta_def)

lemma passed_held: "passed f [w] e = (r, e') \<Longrightarrow> delta e e' (\<lambda>v. - of_bool (w = v))"
  "passed f [w, u] e = (r, e') \<Longrightarrow> delta e e' (\<lambda>v. - of_bool (w = v) - of_bool (u = v))"
  using calls_held [of f e r] by (auto simp: passed_def delta_def split: prod.splits)

text \<open>A released empty handle passes the undefined value, which is not counted.\<close>

definition tidy :: "jsvalue \<Rightarrow> bool" where
  "tidy x \<longleftrightarrow> (v_ctx x \<or> v_val x = JUndefined)"

lemma tidy_owns: "tidy x \<Longrightarrow> has_ref_count v \<Longrightarrow> of_bool (v_val x = v) = owns x v"
  by (auto simp: tidy_def owns_def)

lemma delta_named:
  assumes "Atom_name J s e = (a, e1)" and "delta e1 e2 d"
  shows "delta e (Atom_dtor a e2) d"
  using atom_name [OF assms(1)] assms(2)
  by (auto simp: delta_def Atom_dtor_def JS_FreeAtom_def)

lemma delta_getNamed: "delta e (snd (Value_getNamed J x s e)) (owns (fst (Value_getNamed J x s e)))"
proof -
  obtain a e1 where a: "Atom_name J s e = (a, e1)" by (cases "Atom_name J s e")
  show ?thesis
  proof (cases "Atom_bool a")
    case False
    have "delta e (Atom_dtor a e1) (\<lambda>_. 0)" using a delta_refl by (rule delta_named)
    with a False show ?thesis by (auto simp: Value_getNamed_def delta_def)
  next
    case True
    obtain v e2 where r: "returns (ja_getProperty J (v_val x) (at_id a)) e1 = (v, e2)"
      by (cases "returns (ja_getProperty J (v_val x) (at_id a)) e1")
    have "delta e (Atom_dtor a e2) (owns (Value_raw v))" using a delta_returns [OF r] by (rule delta_named)
    with a True r show ?thesis by (simp add: Value_getNamed_def Value_getProperty_def)
  qed
qed

lemma delta_setNamed:
  assumes "tidy v"
  shows "delta e (snd (Value_setNamed J x s v e)) (\<lambda>u. - owns v u)"
proof -
  obtain a e1 where a: "Atom_name J s e = (a, e1)" by (cases "Atom_name J s e")
  show ?thesis
  proof (cases "Atom_bool a")
    case False
    have "delta e (Atom_dtor a e1) (\<lambda>_. 0)" using a delta_refl by (rule delta_named)
    from delta_trans [OF this delta_dtor [of _ J v]] a False show ?thesis by (simp add: Value_setNamed_def)
  next
    case True
    obtain r e2 where p: "passed (ja_setProperty J (v_val x) (at_id a) (v_val v)) [v_val v] e1 = (r, e2)"
      by (cases "passed (ja_setProperty J (v_val x) (at_id a) (v_val v)) [v_val v] e1")
    have "delta e (Atom_dtor a e2) (\<lambda>u. - of_bool (v_val v = u))" using a passed_held(1) [OF p] by (rule delta_named)
    with a True p tidy_owns [OF assms] show ?thesis
      by (simp add: Value_setNamed_def Value_release_def delta_def)
  qed
qed

lemma delta_passed:
  assumes "tidy v"
  shows "delta e (Value_dtor J (snd (Value_release v)) (snd (passed f [v_val v] e))) (\<lambda>u. - owns v u)"
proof -
  obtain r e2 where p: "passed f [v_val v] e = (r, e2)" by (cases "passed f [v_val v] e")
  with passed_held(1) [OF p] tidy_owns [OF assms] show ?thesis by (simp add: Value_release_def delta_def)
qed

lemma delta_setters:
  assumes "tidy v"
  shows "delta e (snd (Value_setIndex J x k v e)) (\<lambda>u. - owns v u)"
    and "delta e (snd (Value_setIndex32 J x k' v e)) (\<lambda>u. - owns v u)"
    and "delta e (snd (Value_definePropertyIndex J x k' v fl e)) (\<lambda>u. - owns v u)"
    and "delta e (snd (Value_definePropertyValue J x a v fl e)) (\<lambda>u. - owns v u)"
  using delta_passed [OF assms]
  by (simp_all add: Value_setIndex_def Value_setIndex32_def Value_definePropertyIndex_def Value_definePropertyValue_def
      Value_release_def split_beta)

lemma delta_defineNamed:
  assumes "tidy v"
  shows "delta e (snd (Value_definePropertyNamed J x s v fl e)) (\<lambda>u. - owns v u)"
proof -
  obtain a e1 where a: "Atom_name J s e = (a, e1)" by (cases "Atom_name J s e")
  show ?thesis
  proof (cases "Atom_bool a")
    case False
    have "delta e (Atom_dtor a e1) (\<lambda>_. 0)" using a delta_refl by (rule delta_named)
    from delta_trans [OF this delta_dtor [of _ J v]] a False show ?thesis by (simp add: Value_definePropertyNamed_def)
  next
    case True
    let ?f = "ja_definePropertyValue J (v_val x) (at_id a) (v_val v) fl"
    obtain r e2 where p: "passed ?f [v_val v] e1 = (r, e2)" by (cases "passed ?f [v_val v] e1")
    have "delta e (Atom_dtor a e2) (\<lambda>u. - of_bool (v_val v = u))" using a passed_held(1) [OF p] by (rule delta_named)
    with a True p tidy_owns [OF assms] show ?thesis
      by (simp add: Value_definePropertyNamed_def Value_release_def delta_def)
  qed
qed

lemma delta_define:
  assumes "tidy g" and "tidy s"
  shows "delta e (snd (Value_definePropertyGetSet J x a g s fl e)) (\<lambda>u. - owns g u - owns s u)"
proof -
  obtain r e2 where p: "passed (ja_definePropertyGetSet J (v_val x) (at_id a) (v_val g) (v_val s) fl) [v_val g, v_val s] e = (r, e2)"
    by (cases "passed (ja_definePropertyGetSet J (v_val x) (at_id a) (v_val g) (v_val s) fl) [v_val g, v_val s] e")
  with passed_held(2) [OF p] tidy_owns [OF assms(1)] tidy_owns [OF assms(2)] show ?thesis
    by (simp add: Value_definePropertyGetSet_def Value_release_def delta_def)
qed

lemma delta_hasNamed: "delta e (snd (Value_hasNamed J x s e)) (\<lambda>_. 0)"
proof -
  obtain a e1 where a: "Atom_name J s e = (a, e1)" by (cases "Atom_name J s e")
  obtain r e2 where c: "calls (ja_hasProperty J (v_val x) (at_id a)) e1 = (r, e2)"
    by (cases "calls (ja_hasProperty J (v_val x) (at_id a)) e1")
  from delta_named [OF a delta_refl] delta_named [OF a delta_calls [OF c]] a c show ?thesis
    by (simp add: Value_hasNamed_def Value_hasProperty_def)
qed

lemma delta_assert: "delta e (snd (Value_assertOk J x e)) (\<lambda>_. 0)"
proof (cases "v_val x = JException")
  case True
  obtain ex e1 where r: "returns (ja_getException J) e = (ex, e1)" by (cases "returns (ja_getException J) e")
  obtain q n e2 where c: "calls (ja_toCStringLen J ex) e1 = ((q, n), e2)"
    by (cases "calls (ja_toCStringLen J ex) e1") auto
  have "en_cstrs (JS_FreeCString q (own_cstring q e2)) = en_cstrs e2"
    by (auto simp: JS_FreeCString_def own_cstring_def)
  with True r c delta_returns [OF r] calls_held [OF c] show ?thesis
    by (simp add: Value_assertOk_def Value_isException_def Let_def delta_def)
qed (simp add: Value_assertOk_def Value_isException_def delta_refl)

lemma delta_results:
  "delta e (snd (Value_getIndex J x k e)) (owns (fst (Value_getIndex J x k e)))"
  "delta e (snd (Value_callMethod J x y xs e)) (owns (fst (Value_callMethod J x y xs e)))"
  "delta e (snd (Value_call J x xs e)) (owns (fst (Value_call J x xs e)))"
  "delta e (snd (Value_getPrototype J x e)) (owns (fst (Value_getPrototype J x e)))"
  "delta e (snd (Value_invoke J x a xs e)) (owns (fst (Value_invoke J x a xs e)))"
  "delta e (snd (Value_callConstructor J x xs e)) (owns (fst (Value_callConstructor J x xs e)))"
  "delta e (snd (Value_callConstructor2 J x y xs e)) (owns (fst (Value_callConstructor2 J x y xs e)))"
  "delta e (snd (Value_promiseResult J x e)) (owns (fst (Value_promiseResult J x e)))"
  using delta_returns
  by (auto simp: Value_getIndex_def Value_callMethod_def Value_call_def Value_getPrototype_def Value_invoke_def
      Value_callConstructor_def Value_callConstructor2_def Value_promiseResult_def split: prod.splits)

lemma raw_tidy [simp]: "tidy (Value_raw v)" "tidy Value_default" "tidy (fst (Value_copy J x e))"
  by (simp_all add: tidy_def Value_raw_def Value_default_def Value_copy_def)

lemma results_tidy [simp]:
  "tidy (fst (Value_getNamed J x s e))" "tidy (fst (Value_getIndex J x k e))"
  "tidy (fst (Value_callMethod J x y xs e))" "tidy (fst (Value_call J x xs e))"
  "tidy (fst (Value_getPrototype J x e))" "tidy (fst (Value_invoke J x a xs e))"
  "tidy (fst (Value_callConstructor J x xs e))" "tidy (fst (Value_callConstructor2 J x y xs e))"
  "tidy (fst (Value_promiseResult J x e))"
  by (auto simp: Value_getNamed_def Value_getProperty_def Value_getIndex_def Value_callMethod_def Value_call_def
      Value_getPrototype_def Value_invoke_def Value_callConstructor_def Value_callConstructor2_def Value_promiseResult_def
      split: prod.splits)

lemma delta_toString:
  "Value_toString J x e = (Inl n, e') \<Longrightarrow> delta e e' (\<lambda>_. 0)"
  "Value_toString J x e = (Inr s, e') \<Longrightarrow> delta e (CString_dtor s e') (\<lambda>_. 0)"
  using calls_held [of "ja_toCStringLen J (v_val x)" e]
  by (auto simp: Value_toString_def delta_def CString_dtor_def CString_ctor_def own_cstring_def JS_FreeCString_def
      split: prod.splits if_splits)

lemma delta_toAtom:
  "Value_toAtom J x e = (Inl n, e') \<Longrightarrow> delta e e' (\<lambda>_. 0)"
  "Value_toAtom J x e = (Inr a, e') \<Longrightarrow> delta e (Atom_dtor a e') (\<lambda>_. 0)"
  using calls_held [of "ja_valueToAtom J (v_val x)" e]
  by (auto simp: Value_toAtom_def delta_def Atom_dtor_def Atom_raw_def JS_DupAtom_def JS_FreeAtom_def
      split: prod.splits if_splits)

lemma delta_settle: "delta e (settle J f v e) (\<lambda>_. 0)"
proof (cases "f = JUndefined")
  case False
  obtain r e1 where r: "returns (ja_call J f JUndefined [v]) e = (r, e1)" by (cases "returns (ja_call J f JUndefined [v]) e")
  obtain x e2 where x: "returns (ja_getException J) e1 = (x, e2)" by (cases "returns (ja_getException J) e1")
  from False r x returns_held [OF r] returns_held [OF x] show ?thesis
    by (auto simp: settle_def delta_def Let_def)
qed (simp add: settle_def delta_refl)

lemma delta_promise_dtor: "delta e (JsPromise_dtor J x e) (\<lambda>v. - promise_owns x v)"
  by (simp add: delta_def JsPromise_dtor_def promise_owns_def)

lemma delta_create:
  "JsPromise_create J e = (Inl n, e') \<Longrightarrow> delta e e' (\<lambda>_. 0)"
  "JsPromise_create J e = (Inr x, e') \<Longrightarrow> delta e e' (promise_owns x)"
  using calls_held [of "ja_newPromiseCapability J" e]
  by (auto simp: JsPromise_create_def delta_def promise_owns_def split: prod.splits if_splits)

section \<open>Every operation keeps the balance\<close>

definition kept :: "'w prog \<Rightarrow> bool" where
  "kept p \<longleftrightarrow> balanced p \<and> list_all tidy (pr_vals p)"

lemma keptI:
  assumes "kept p" and "delta (pr_en p) (pr_en q) d" and "\<And>v. has_ref_count v \<Longrightarrow> accounted q v = accounted p v + d v"
    and "list_all tidy (pr_vals q)" and "pr_atoms q = pr_atoms p" and "pr_strs q = pr_strs p"
  shows "kept q"
  using assms by (auto simp: kept_def balanced_def delta_def)

lemma kept_tidy: "kept p \<Longrightarrow> i < length (pr_vals p) \<Longrightarrow> tidy (at p i)"
  by (simp add: kept_def list_all_length)

lemma list_all_update: "list_all P xs \<Longrightarrow> P x \<Longrightarrow> list_all P (xs[i := x])"
  by (auto simp: list_all_iff dest!: set_update_subset_insert [THEN subsetD])

lemma tidy_update: "kept p \<Longrightarrow> tidy x \<Longrightarrow> list_all tidy ((pr_vals p)[i := x])"
  by (simp add: kept_def list_all_update)

lemma kept_push:
  assumes "kept p" and "delta (pr_en p) (snd r) (owns (fst r))" and "tidy (fst r)"
  shows "kept (push r p)"
  using assms by (intro keptI [OF assms(1), of _ "owns (fst r)"]) (auto simp: push_def accounted_def kept_def)

lemma kept_engine: "kept p \<Longrightarrow> delta (pr_en p) e (\<lambda>_. 0) \<Longrightarrow> kept (p\<lparr>pr_en := e\<rparr>)"
  by (rule keptI) (auto simp: accounted_def kept_def)

lemma kept_put:
  assumes "kept p" and "i < length (pr_vals p)" and "tidy x"
    and "delta (pr_en p) e (\<lambda>v. owns x v - owns (at p i) v)"
  shows "kept (put i x (p\<lparr>pr_en := e\<rparr>))"
  using assms tidy_update [OF assms(1,3)]
  by (intro keptI [OF assms(1), of _ "\<lambda>v. owns x v - owns (at p i) v"])
    (auto simp: put_def accounted_def owned_by_update)

text \<open>A by-value argument that is a copy: made, then used up.\<close>

lemma delta_copied:
  assumes "Value_copy J x e = (arg, e1)" and "delta e1 e2 (\<lambda>v. - owns arg v)"
  shows "delta e e2 (\<lambda>_. 0)"
  using delta_trans [OF delta_copy(1) [of e J x], of e2 "\<lambda>v. - owns arg v"] assms by simp

lemma copied_tidy: "Value_copy J x e = (arg, e1) \<Longrightarrow> tidy arg"
  using raw_tidy(3) [of J x e] by simp

lemma kept_moved:
  assumes "kept p" and "j < length (pr_vals p)"
    and "\<And>e. delta e (f e) (\<lambda>v. - owns (at p j) v)"
  shows "kept ((put j Value_default p)\<lparr>pr_en := f (pr_en p)\<rparr>)"
proof -
  have "kept (put j Value_default (p\<lparr>pr_en := f (pr_en p)\<rparr>))"
    using assms by (intro kept_put) simp_all
  moreover have "put j Value_default (p\<lparr>pr_en := f (pr_en p)\<rparr>) = (put j Value_default p)\<lparr>pr_en := f (pr_en p)\<rparr>"
    by (simp add: put_def)
  ultimately show ?thesis by simp
qed

lemma kept_move:
  assumes "kept p" and "i < length (pr_vals p)"
  shows "kept (vop_exec J (VMove i) p)"
proof -
  have "list_all tidy ((pr_vals p)[i := Value_default])" "tidy (at p i)"
    using tidy_update [OF assms(1) raw_tidy(2)] kept_tidy [OF assms] by auto
  with assms show ?thesis
    by (intro keptI [OF assms(1), of _ "\<lambda>_. 0"])
      (simp_all add: Value_move_def push_def put_def delta_refl accounted_def owned_by_update)
qed

lemma kept_assign_copy:
  assumes "kept p" and "i < length (pr_vals p)"
  shows "kept (vop_exec J (VAssignCopy i j) p)"
proof -
  obtain arg e1 where c: "Value_copy J (at p j) (pr_en p) = (arg, e1)" by (cases "Value_copy J (at p j) (pr_en p)")
  have "delta (pr_en p) (Value_dtor J (at p i) e1) (\<lambda>v. owns arg v - owns (at p i) v)"
    using delta_trans [OF delta_copy(1) [of "pr_en p" J "at p j"] delta_dtor [of _ J "at p i"]] c by simp
  from kept_put [OF assms copied_tidy [OF c] this] c show ?thesis by (simp add: Value_assign_def put_def)
qed

lemma kept_assign_move:
  assumes "kept p" and "i < length (pr_vals p)" and "j < length (pr_vals p)"
  shows "kept (vop_exec J (VAssignMove i j) p)"
proof -
  let ?q = "put j Value_default p"
  have "delta (pr_en p) (Value_dtor J (at ?q i) (pr_en p)) (\<lambda>v. - owns (at ?q i) v)" by (rule delta_dtor)
  moreover have "list_all tidy ((pr_vals p)[j := Value_default, i := at p j])"
    using tidy_update [OF assms(1) raw_tidy(2), of j] kept_tidy [OF assms(1,3)] by (rule list_all_update)
  ultimately show ?thesis using assms
    by (intro keptI [OF assms(1), of _ "\<lambda>v. - owns (at ?q i) v"])
      (auto simp: Value_assign_def Value_move_def put_def accounted_def owned_by_update)
qed

lemma Value_swap_eq: "Value_swap x y = (y, x)"
  by (simp add: Value_swap_def)

lemma kept_swap:
  assumes "kept p" and "i < length (pr_vals p)" and "j < length (pr_vals p)"
  shows "kept (vop_exec J (VSwap i j) p)"
proof -
  have "list_all tidy ((pr_vals p)[i := at p j, j := at p i])"
    using tidy_update [OF assms(1) kept_tidy [OF assms(1,3)], of i] kept_tidy [OF assms(1,2)] by (rule list_all_update)
  with assms show ?thesis
    by (intro keptI [OF assms(1), of _ "\<lambda>_. 0"])
      (auto simp: Value_swap_eq put_def accounted_def owned_by_update delta_refl nth_list_update)
qed

lemma kept_release:
  assumes "kept p" and "i < length (pr_vals p)"
  shows "kept (vop_exec J (VRelease i) p)"
proof -
  have "list_all tidy ((pr_vals p)[i := Value_default])" using assms(1) by (rule tidy_update) simp
  moreover have "owns (at p i) v = (if v_ctx (at p i) then of_bool (v_val (at p i) = v) else 0)" for v
    by (simp add: owns_def)
  ultimately show ?thesis using assms
    by (intro keptI [OF assms(1), of _ "\<lambda>_. 0"])
      (simp_all add: Value_release_def put_def delta_refl accounted_def owned_by_update)
qed

lemma count_remove:
  "k < length rs \<Longrightarrow> int (count_list (take k rs @ drop (Suc k) rs) v) = int (count_list rs v) - of_bool (rs ! k = v)"
proof -
  assume "k < length rs"
  then have "count_list rs v = count_list (take k rs @ rs ! k # drop (Suc k) rs) v" by (simp flip: id_take_nth_drop)
  then show ?thesis by auto
qed

lemma kept_wrap:
  assumes "kept p"
  shows "kept (vop_exec J (VWrap k) p)"
proof (cases "k < length (pr_raws p)")
  case True
  with assms count_remove [OF True] show ?thesis
    by (intro keptI [OF assms, of _ "\<lambda>_. 0"]) (simp_all add: push_def delta_refl accounted_def kept_def)
qed (use assms in simp)

lemma kept_copied:
  assumes "kept p" and "\<And>arg e. tidy arg \<Longrightarrow> delta e (f arg e) (\<lambda>v. - owns arg v)"
  shows "kept (let (arg, e) = Value_copy J x (pr_en p) in p\<lparr>pr_en := f arg e\<rparr>)"
proof -
  obtain arg e1 where c: "Value_copy J x (pr_en p) = (arg, e1)" by (cases "Value_copy J x (pr_en p)")
  from kept_engine [OF assms(1) delta_copied [OF c assms(2) [OF copied_tidy [OF c]]]] c show ?thesis by simp
qed

lemma kept_define: "kept p \<Longrightarrow> kept (vop_exec J (VDefine i a j k fl) p)"
proof -
  assume p: "kept p"
  obtain g e1 where g: "Value_copy J (at p j) (pr_en p) = (g, e1)" by (cases "Value_copy J (at p j) (pr_en p)")
  obtain s e2 where s: "Value_copy J (at p k) e1 = (s, e2)" by (cases "Value_copy J (at p k) e1")
  let ?e = "snd (Value_definePropertyGetSet J (at p i) (pr_atoms p ! a) g s fl e2)"
  have "delta e1 ?e (\<lambda>v. owns s v + (- owns g v - owns s v))"
    using delta_trans [OF delta_copy(1) [of e1 J "at p k"]] delta_define [OF copied_tidy [OF g] copied_tidy [OF s]] s
    by (metis fst_conv snd_conv)
  then have "delta e1 ?e (\<lambda>v. - owns g v)" by simp
  from kept_engine [OF p delta_copied [OF g this]] g s show ?thesis by simp
qed

lemma kept_opaque:
  assumes "kept p" and "i < length (pr_vals p)" and "v_ctx (at p i)"
  shows "kept (vop_exec J (VSetOpaque i n) p)"
proof -
  have "list_all tidy ((pr_vals p)[i := (at p i)\<lparr>v_opaque := True\<rparr>])"
    using assms(1) by (rule tidy_update) (use assms(3) in \<open>simp add: tidy_def\<close>)
  moreover have "owns ((at p i)\<lparr>v_opaque := True\<rparr>) = owns (at p i)" by (rule ext) (simp add: owns_def)
  ultimately show ?thesis using assms
    by (intro keptI [OF assms(1), of _ "\<lambda>_. 0"])
      (simp_all add: Value_setOpaque_def put_def delta_def accounted_def owned_by_update)
qed

lemma kept_promise:
  assumes "kept p"
  shows "kept (vop_exec J PCreate p)"
    and "i < length (pr_proms p) \<Longrightarrow> kept (vop_exec J (PMove i) p)"
    and "i < length (pr_proms p) \<Longrightarrow> kept (vop_exec J (PDestroy i) p)"
proof -
  show "kept (vop_exec J PCreate p)"
  proof (cases "JsPromise_create J (pr_en p)")
    case (Pair r e)
    with kept_engine [OF assms delta_create(1)] show ?thesis
    proof (cases r)
      case (Inr x)
      with Pair delta_create(2) [of J "pr_en p" x e] assms show ?thesis
        by (intro keptI [OF assms, of _ "promise_owns x"]) (simp_all add: accounted_def kept_def)
    qed simp
  qed
next
  assume i: "i < length (pr_proms p)"
  have "has_ref_count v \<Longrightarrow> promise_owns (emptied x) v = 0" for x v by (auto simp: promise_owns_def emptied_def)
  with i assms show "kept (vop_exec J (PMove i) p)"
    by (intro keptI [OF assms, of _ "\<lambda>_. 0"])
      (simp_all add: JsPromise_move_def accounted_def promises_own_update delta_refl kept_def)
  have "promise_owns JsPromise_default v = 0" for v by (simp add: promise_owns_def JsPromise_default_def)
  with i assms show "kept (vop_exec J (PDestroy i) p)"
    by (intro keptI [OF assms, of _ "\<lambda>v. - promise_owns (pr_proms p ! i) v"])
      (simp_all add: accounted_def promises_own_update delta_promise_dtor kept_def)
qed

lemma kept_copy: "kept p \<Longrightarrow> kept (vop_exec J (VCopy i) p)"
  using delta_copy(1) [of "pr_en p" J "at p i"] by (simp add: kept_push delta_copy(2))

lemma kept_settle:
  "kept p \<Longrightarrow> kept (vop_exec J (PResolve i j) p)" "kept p \<Longrightarrow> kept (vop_exec J (PReject i j) p)"
  by (simp_all add: kept_engine delta_settle JsPromise_resolve_def JsPromise_reject_def)

lemma delta_numbers:
  "delta e (snd (Value_toBool J x e)) (\<lambda>_. 0)" "delta e (snd (Value_toInt32 J x e)) (\<lambda>_. 0)"
  "delta e (snd (Value_toInt64 J x e)) (\<lambda>_. 0)" "delta e (snd (Value_toFloat64 J x e)) (\<lambda>_. 0)"
  "delta e (snd (Value_toIndex J x e)) (\<lambda>_. 0)"
  using delta_calls
  by (auto simp: Value_toBool_def Value_toInt32_def Value_toInt64_def Value_toFloat64_def Value_toIndex_def split: prod.splits)

lemma delta_none: "delta e e1 (\<lambda>_. 0) \<Longrightarrow> delta e1 e2 (\<lambda>_. 0) \<Longrightarrow> delta e e2 (\<lambda>_. 0)"
  using delta_trans [of e e1 "\<lambda>_. 0" e2 "\<lambda>_. 0"] by simp

lemma kept_numbers: "kept p \<Longrightarrow> kept (vop_exec J (VToNumbers i) p)"
  unfolding vop_exec.simps Let_def by (erule kept_engine [OF _ delta_none [OF delta_none [OF delta_none [OF delta_none
    [OF delta_numbers(1) delta_numbers(2)] delta_numbers(3)] delta_numbers(4)] delta_numbers(5)]])

text \<open>The same for atoms and C strings.\<close>

lemma kept_atoms:
  assumes "kept p" and "held e = held (pr_en p)" and "en_cstrs e = en_cstrs (pr_en p)"
    and "\<And>a. en_atoms e a = en_atoms (pr_en p) a + (atoms_own xs a - atoms_own (pr_atoms p) a)"
  shows "kept (p\<lparr>pr_atoms := xs, pr_en := e\<rparr>)"
  using assms by (auto simp: kept_def balanced_def accounted_def)

lemma kept_strs:
  assumes "kept p" and "held e = held (pr_en p)" and "en_atoms e = en_atoms (pr_en p)"
    and "\<And>q. en_cstrs e q = en_cstrs (pr_en p) q + (strs_own xs q - strs_own (pr_strs p) q)"
  shows "kept (p\<lparr>pr_strs := xs, pr_en := e\<rparr>)"
  using assms by (auto simp: kept_def balanced_def accounted_def)

lemma atom_effects:
  "en_atoms (JS_DupAtom i e) a = en_atoms e a + of_bool (i = a)"
  "en_atoms (Atom_dtor x e) a = en_atoms e a - atom_owns x a"
  "atom_owns Atom_default a = 0" "atom_owns (fst (Atom_copy x e)) a = atom_owns x a"
  "en_atoms (snd (Atom_copy x e)) a = en_atoms e a + atom_owns x a"
  "held (snd (Atom_copy x e)) = held e" "en_cstrs (snd (Atom_copy x e)) = en_cstrs e"
  "Atom_assign x arg e = (arg, Atom_dtor x e)"
  by (auto simp: JS_DupAtom_def JS_FreeAtom_def Atom_dtor_def atom_owns_def Atom_default_def Atom_copy_def
      Atom_assign_def Atom_swap_def)

lemma str_effects:
  "en_cstrs (own_cstring i e) q = en_cstrs e q + of_bool (i = q \<and> q \<noteq> 0)"
  "str_owns (CString_ctor i n) q = of_bool (i = q \<and> q \<noteq> 0)"
  "en_cstrs (CString_dtor x e) q = en_cstrs e q - str_owns x q" "str_owns CString_empty q = 0"
  "held (CString_dtor x e) = held e" "en_atoms (CString_dtor x e) = en_atoms e"
  by (auto simp: own_cstring_def CString_dtor_def JS_FreeCString_def str_owns_def CString_ctor_def CString_empty_def)

lemma kept_new_atom:
  assumes "kept p"
  shows "kept (vop_exec J (AName s) p)" and "kept (vop_exec J (ACopy i) p)" and "kept (vop_exec J (VToAtom j) p)"
proof -
  obtain a e where a: "Atom_name J s (pr_en p) = (a, e)" by (cases "Atom_name J s (pr_en p)")
  from atom_name [OF this] a show "kept (vop_exec J (AName s) p)"
    by (auto intro!: kept_atoms [OF assms] simp: atom_owns_def)
  obtain b e1 where b: "Atom_copy (pr_atoms p ! i) (pr_en p) = (b, e1)" by (cases "Atom_copy (pr_atoms p ! i) (pr_en p)")
  have "atom_owns b = atom_owns (pr_atoms p ! i)" "held e1 = held (pr_en p)" "en_cstrs e1 = en_cstrs (pr_en p)"
    "\<And>a. en_atoms e1 a = en_atoms (pr_en p) a + atom_owns (pr_atoms p ! i) a"
    using atom_effects(4-7) [of "pr_atoms p ! i" "pr_en p"] b by (auto simp: fun_eq_iff)
  with b show "kept (vop_exec J (ACopy i) p)" by (simp add: kept_atoms [OF assms])
  show "kept (vop_exec J (VToAtom j) p)"
  proof (cases "Value_toAtom J (at p j) (pr_en p)")
    case (Pair r e2)
    show ?thesis
    proof (cases r)
      case (Inl n)
      with Pair delta_toAtom(1) [of J "at p j" "pr_en p" n e2] show ?thesis by (simp add: kept_engine [OF assms])
    next
      case (Inr c)
      then have "held e2 = held (pr_en p)" "en_cstrs e2 = en_cstrs (pr_en p)"
        "\<And>a. en_atoms e2 a = en_atoms (pr_en p) a + atom_owns c a"
        using Pair calls_held [of "ja_valueToAtom J (v_val (at p j))" "pr_en p"]
        by (auto simp: Value_toAtom_def atom_owns_def Atom_raw_def atom_effects split: prod.splits if_splits)
      with Pair Inr show ?thesis by (simp add: kept_atoms [OF assms])
    qed
  qed
qed

lemma kept_new_string:
  assumes "kept p"
  shows "kept (vop_exec J (SOfAtom i) p)" and "kept (vop_exec J (VToString j) p)"
proof -
  obtain q n e where q: "calls (ja_atomToCString J (at_id (pr_atoms p ! i))) (pr_en p) = ((q, n), e)"
    by (cases "calls (ja_atomToCString J (at_id (pr_atoms p ! i))) (pr_en p)") auto
  from calls_held [OF this] q show "kept (vop_exec J (SOfAtom i) p)"
    by (auto intro!: kept_strs [OF assms] simp: Atom_to_cstring_def str_effects(1,2))
  show "kept (vop_exec J (VToString j) p)"
  proof (cases "Value_toString J (at p j) (pr_en p)")
    case (Pair r e2)
    show ?thesis
    proof (cases r)
      case (Inl n)
      with Pair delta_toString(1) [of J "at p j" "pr_en p" n e2] show ?thesis by (simp add: kept_engine [OF assms])
    next
      case (Inr s)
      then have "held e2 = held (pr_en p)" "en_atoms e2 = en_atoms (pr_en p)"
        "\<And>q. en_cstrs e2 q = en_cstrs (pr_en p) q + str_owns s q"
        using Pair calls_held [of "ja_toCStringLen J (v_val (at p j))" "pr_en p"]
        by (auto simp: Value_toString_def str_effects(1,2) Let_def split: prod.splits if_splits)
      with Pair Inr show ?thesis by (simp add: kept_strs [OF assms])
    qed
  qed
qed

lemma kept_atom_objects:
  assumes "kept p" and "i < length (pr_atoms p)" and "j < length (pr_atoms p)"
  shows "kept (vop_exec J (AMove i) p)" and "kept (vop_exec J (AAssignCopy i j) p)"
    and "kept (vop_exec J (AAssignMove i j) p)" and "kept (vop_exec J (ADestroy i) p)"
proof -
  have same: "kept (p\<lparr>pr_atoms := xs\<rparr>)" if "\<And>a. atoms_own xs a = atoms_own (pr_atoms p) a" for xs
    using kept_atoms [OF assms(1) refl refl, of xs] that by simp
  show "kept (vop_exec J (AMove i) p)"
    using assms by (auto simp: Atom_move_def atom_effects intro!: same)
  obtain b e1 where b: "Atom_copy (pr_atoms p ! j) (pr_en p) = (b, e1)" by (cases "Atom_copy (pr_atoms p ! j) (pr_en p)")
  have "atom_owns b = atom_owns (pr_atoms p ! j)" "held e1 = held (pr_en p)" "en_cstrs e1 = en_cstrs (pr_en p)"
    "\<And>a. en_atoms e1 a = en_atoms (pr_en p) a + atom_owns (pr_atoms p ! j) a"
    using atom_effects(4-7) [of "pr_atoms p ! j" "pr_en p"] b by (auto simp: fun_eq_iff)
  with b assms show "kept (vop_exec J (AAssignCopy i j) p)"
    by (auto simp: atom_effects intro!: kept_atoms [OF assms(1)])
  have "Atom_dtor Atom_default (pr_en p) = pr_en p" by (simp add: Atom_dtor_def Atom_default_def)
  with assms show "kept (vop_exec J (AAssignMove i j) p)"
    by (auto simp: Atom_move_def atom_effects nth_list_update intro!: kept_atoms [OF assms(1)])
  show "kept (vop_exec J (ADestroy i) p)"
    using assms by (auto simp: atom_effects intro!: kept_atoms [OF assms(1)])
qed

lemma kept_string_objects:
  assumes "kept p" and "i < length (pr_strs p)" and "j < length (pr_strs p)"
  shows "kept (vop_exec J (SMove i) p)" and "kept (vop_exec J (SAssign i j) p)" and "kept (vop_exec J (SDestroy i) p)"
proof -
  have same: "kept (p\<lparr>pr_strs := xs\<rparr>)" if "\<And>a. strs_own xs a = strs_own (pr_strs p) a" for xs
    using kept_strs [OF assms(1) refl refl, of xs] that by simp
  show "kept (vop_exec J (SMove i) p)"
    using assms by (auto simp: CString_move_def str_effects intro!: same)
  show "kept (vop_exec J (SAssign i j) p)"
    using assms by (auto simp: CString_assign_def str_effects nth_list_update intro!: kept_strs [OF assms(1)])
  show "kept (vop_exec J (SDestroy i) p)"
    using assms by (auto simp: str_effects intro!: kept_strs [OF assms(1)])
qed

text \<open>What a promise overwrites is lost, and counted as that.\<close>

lemma promise_values_owns: "has_ref_count v \<Longrightarrow> int (count_list (promise_values x) v) = promise_owns x v"
  by (auto simp: promise_values_def promise_owns_def)

lemma kept_promise_assign:
  assumes "kept p" and "i < length (pr_proms p)" and "j < length (pr_proms p)"
  shows "kept (vop_exec J (PAssign i j) p)"
proof -
  have "has_ref_count v \<Longrightarrow> promise_owns (emptied x) v = 0" for x v by (auto simp: promise_owns_def emptied_def)
  then have "i \<noteq> j \<Longrightarrow> kept (vop_exec J (PAssign i j) p)"
    using assms(2,3) by (intro keptI [OF assms(1), of _ "\<lambda>_. 0"])
      (simp_all add: JsPromise_assign_def accounted_def promises_own_update delta_refl promise_values_owns
        assms(1) [unfolded kept_def])
  with assms(1) show ?thesis by (cases "i = j") simp_all
qed

lemma kept_set:
  assumes "kept p"
  shows "kept (vop_exec J (VSetNamed i s j) p)" and "kept (vop_exec J (VSetIndex i k j) p)"
    and "kept (vop_exec J (VDefineNamed i s j fl) p)" and "kept (vop_exec J (VDefineIndex i k j fl) p)"
    and "kept (vop_exec J (VDefineValue i a j fl) p)"
  unfolding vop_exec.simps
  by (rule kept_copied [OF assms delta_setNamed], assumption,
      rule kept_copied [OF assms delta_setters(2)], assumption,
      rule kept_copied [OF assms delta_defineNamed], assumption,
      rule kept_copied [OF assms delta_setters(3)], assumption,
      rule kept_copied [OF assms delta_setters(4)], assumption)

lemma kept_results:
  assumes "kept p"
  shows "kept (vop_exec J (VGetNamed i s) p)" and "kept (vop_exec J (VGetIndex i n) p)"
    and "kept (vop_exec J (VHasNamed i s) p)" and "kept (vop_exec J (VCallMethod i j ks) p)"
    and "kept (vop_exec J (VCall i ks) p)" and "kept (vop_exec J (VAssert i) p)"
    and "kept (vop_exec J (VGetPrototype i) p)" and "kept (vop_exec J (VInvoke i a ks) p)"
    and "kept (vop_exec J (VConstruct i ks) p)" and "kept (vop_exec J (VConstruct2 i j ks) p)"
    and "kept (vop_exec J (VPromiseResult i) p)"
  using assms by (simp_all add: kept_push delta_getNamed delta_results kept_engine delta_hasNamed delta_assert)

lemma kept_step: "kept p \<Longrightarrow> kept (vop_step J p x)"
proof (cases "vop_legal p x")
  case True
  assume p: "kept p"
  from True have r: "vop_step J p x = vop_exec J x p" by (simp add: vop_step_def)
  show ?thesis unfolding r
  proof (cases x)
    case (VDestroy i)
    with True have i: "i < length (pr_vals p)" by (simp add: vop_legal_def)
    have "delta (pr_en p) (Value_dtor J (at p i) (pr_en p)) (\<lambda>v. owns Value_default v - owns (at p i) v)"
      using delta_dtor by simp
    from kept_put [OF p i raw_tidy(2) this] VDestroy show "kept (vop_exec J x p)" by simp
  next
    case (VSetNamedMove i s j)
    with True have j: "j < length (pr_vals p)" by (simp add: vop_legal_def)
    let ?f = "\<lambda>e. snd (Value_setNamed J (at (put j Value_default p) i) s (at p j) e)"
    have "kept ((put j Value_default p)\<lparr>pr_en := ?f (pr_en p)\<rparr>)"
      using p j delta_setNamed [OF kept_tidy [OF p j]] by (rule kept_moved)
    with VSetNamedMove show "kept (vop_exec J x p)" by (simp add: Value_move_def put_def)
  next
    case (VSetIndexMove i s j)
    with True have j: "j < length (pr_vals p)" by (simp add: vop_legal_def)
    let ?f = "\<lambda>e. snd (Value_setIndex J (at (put j Value_default p) i) s (at p j) e)"
    have "kept ((put j Value_default p)\<lparr>pr_en := ?f (pr_en p)\<rparr>)"
      using p j delta_setters(1) [OF kept_tidy [OF p j]] by (rule kept_moved)
    with VSetIndexMove show "kept (vop_exec J x p)" by (simp add: Value_move_def put_def)
  next
    case (VCopy i) then show "kept (vop_exec J x p)" using kept_copy [OF p] by blast
  next
    case (VToNumbers i) then show "kept (vop_exec J x p)" using kept_numbers [OF p] by blast
  next
    case (VWrap k) then show "kept (vop_exec J x p)" using kept_wrap [OF p] by blast
  next
    case (PResolve i j) then show "kept (vop_exec J x p)" using kept_settle [OF p] by blast
  next
    case (PReject i j) then show "kept (vop_exec J x p)" using kept_settle [OF p] by blast
  next
    case (PDestroy i)
    with True have "i < length (pr_proms p)" by (simp add: vop_legal_def)
    from kept_promise(3) [OF p this] PDestroy show "kept (vop_exec J x p)" by blast
  qed (use p True in \<open>auto simp del: vop_exec.simps simp: vop_legal_def
        intro: kept_results kept_move kept_assign_copy kept_assign_move kept_swap kept_release kept_define kept_opaque kept_promise
          kept_set kept_new_atom kept_new_string kept_atom_objects kept_string_objects kept_promise_assign\<close>)
qed (simp add: vop_step_def)

lemma kept_run: "kept p \<Longrightarrow> kept (foldl (vop_step J) p xs)"
  by (induction xs arbitrary: p) (simp_all add: kept_step)

lemma kept_start: "kept (prog_start w)"
  by (simp add: kept_def balanced_def prog_start_def accounted_def fun_eq_iff)

lemma dtors_held:
  "held (fold (Value_dtor J) xs e) v = held e v - (if has_ref_count v then owned_by xs v else 0)"
  "held (fold (JsPromise_dtor J) ps e) v = held e v - (if has_ref_count v then promises_own ps v else 0)"
proof -
  have d: "held (JsPromise_dtor J x e) v = held e v - (if has_ref_count v then promise_owns x v else 0)" for x e
    using delta_promise_dtor [of e J x] by (simp add: delta_def)
  show "held (fold (Value_dtor J) xs e) v = held e v - (if has_ref_count v then owned_by xs v else 0)"
    by (induction xs arbitrary: e) simp_all
  show "held (fold (JsPromise_dtor J) ps e) v = held e v - (if has_ref_count v then promises_own ps v else 0)"
    by (induction ps arbitrary: e) (simp_all add: d)
qed

lemma atom_dtors:
  "held (fold Atom_dtor as e) = held e" "en_cstrs (fold Atom_dtor as e) = en_cstrs e"
  "en_atoms (fold Atom_dtor as e) a = en_atoms e a - atoms_own as a"
  by (induction as arbitrary: e) (simp_all add: atom_effects)

lemma string_dtors:
  "held (fold CString_dtor ss e) = held e" "en_atoms (fold CString_dtor ss e) = en_atoms e"
  "en_cstrs (fold CString_dtor ss e) q = en_cstrs e q - strs_own ss q"
  by (induction ss arbitrary: e) (simp_all add: str_effects)

lemma value_dtors_rest:
  "en_atoms (fold (Value_dtor J) xs e) = en_atoms e" "en_cstrs (fold (Value_dtor J) xs e) = en_cstrs e"
  "en_atoms (fold (JsPromise_dtor J) ps e) = en_atoms e" "en_cstrs (fold (JsPromise_dtor J) ps e) = en_cstrs e"
proof -
  show "en_atoms (fold (Value_dtor J) xs e) = en_atoms e" "en_cstrs (fold (Value_dtor J) xs e) = en_cstrs e"
    by (induction xs arbitrary: e) simp_all
  show "en_atoms (fold (JsPromise_dtor J) ps e) = en_atoms e" "en_cstrs (fold (JsPromise_dtor J) ps e) = en_cstrs e"
    by (induction ps arbitrary: e) (simp_all add: JsPromise_dtor_def)
qed

lemma prog_end_held:
  assumes "kept p"
  shows "held (prog_end J p) v =
      (if has_ref_count v then int (count_list (pr_raws p) v) + int (count_list (pr_lost p) v) else 0)"
    and "en_atoms (prog_end J p) = (\<lambda>_. 0)" and "en_cstrs (prog_end J p) = (\<lambda>_. 0)"
  using assms
  by (simp_all add: prog_end_def dtors_held atom_dtors string_dtors value_dtors_rest kept_def balanced_def accounted_def fun_eq_iff)

definition prog_run :: "'w js_api \<Rightarrow> 'w \<Rightarrow> vop list \<Rightarrow> 'w prog" where
  "prog_run J w ops = foldl (vop_step J) (prog_start w) ops"

text \<open>The move assignment of a promise drops what the target held.\<close>

lemma promise_assign_drops:
  "has_ref_count v \<Longrightarrow>
     (let (x, y) = JsPromise_assign a b in promise_owns x v + promise_owns y v) = promise_owns b v"
  by (auto simp: JsPromise_assign_def promise_owns_def emptied_def)

text \<open>Nothing else is ever lost.\<close>

lemma lost_step: "vop_exec J x p = q \<Longrightarrow> \<forall>i j. x \<noteq> PAssign i j \<Longrightarrow> pr_lost q = pr_lost p"
  by (cases x) (auto simp: push_def put_def Let_def split: prod.splits sum.splits)

lemma nothing_lost:
  assumes "\<forall>i j. PAssign i j \<notin> set ops"
  shows "pr_lost (prog_run J w ops) = []"
proof -
  have "pr_lost (foldl (vop_step J) p ops) = pr_lost p" for p
    using assms
  proof (induction ops arbitrary: p)
    case (Cons x ops)
    have "pr_lost (vop_step J p x) = pr_lost p"
      using Cons.prems lost_step [of J x p] by (auto simp: vop_step_def)
    with Cons show ?case by simp
  qed simp
  then show ?thesis by (simp add: prog_run_def prog_start_def)
qed

text \<open>
  The flag of \<open>setOpaque\<close> is on one handle. When an older copy of it is the last to go, the storage
  stays behind. The engine of this example counts the references of one object.
\<close>

definition counting :: "(int \<times> nat option) js_api \<Rightarrow> (int \<times> nat option) js_api" where
  "counting J = J\<lparr>ja_ref_count := (\<lambda>_ w. fst w), ja_getOpaque := (\<lambda>_ w. snd w), ja_setOpaque := (\<lambda>_ i w. (fst w, Some i)),
     ja_dupValue := (\<lambda>_ w. (fst w + 1, snd w)), ja_freeValue := (\<lambda>_ w. (fst w - 1, snd w))\<rparr>"

definition opaque_life :: "(int \<times> nat option) js_api \<Rightarrow> bool \<Rightarrow> nat list" where
  "opaque_life J copy_first =
     (let e = \<lparr>en_world = (1, None), en_held = (\<lambda>_. 1), en_atoms = (\<lambda>_. 0), en_cstrs = (\<lambda>_. 0), en_storage = []\<rparr>;
          x = Value_raw (JObject 0)
      in if copy_first then
           let (y, e) = Value_copy (counting J) x e;
               (x, e) = Value_setOpaque (counting J) 7 x e
           in en_storage (Value_dtor (counting J) y (Value_dtor (counting J) x e))
         else
           let (x, e) = Value_setOpaque (counting J) 7 x e;
               (y, e) = Value_copy (counting J) x e
           in en_storage (Value_dtor (counting J) y (Value_dtor (counting J) x e)))"

lemma opaque_storage_lost: "opaque_life J True = [7]" "opaque_life J False = []"
  by (simp_all add: opaque_life_def counting_def Value_raw_def Value_copy_def Value_setOpaque_def Value_dtor_def JS_Dup_def
      JS_Free_def own_def disown_def freeOpaqueIfLastRef_def delete_storage_def)

text \<open>
  C38. Ownership. A program makes and uses \<open>Value\<close>, \<open>Atom\<close>, \<open>CString\<close> and \<open>JsPromise\<close> objects: copies,
  moves, assignments, swaps, property access, calls, conversions, settling promises, on success and
  on exception, and destroys them in any order. At every point the references that it holds on
  values are those of its handles and promises, of the values it released, and of those that a move
  assignment of a promise has overwritten; it holds an atom and a C string once for each of its
  objects that has it. When the objects are destroyed, what is left is one reference per released
  value and per overwritten one, no atom and no C string. Nothing is overwritten, and so nothing
  leaks, if no promise is assigned to; and nothing is freed that is not held. The storage that
  \<open>setOpaque\<close> makes is no such reference: nothing is said of it here.
\<close>

theorem value_ownership:
  "(\<forall>v. en_held (pr_en (prog_run J w ops)) v = (if has_ref_count v then accounted (prog_run J w ops) v else 0)) \<and>
    en_atoms (pr_en (prog_run J w ops)) = atoms_own (pr_atoms (prog_run J w ops)) \<and>
    en_cstrs (pr_en (prog_run J w ops)) = strs_own (pr_strs (prog_run J w ops)) \<and>
    (\<forall>v. en_held (prog_end J (prog_run J w ops)) v =
       (if has_ref_count v
        then int (count_list (pr_raws (prog_run J w ops)) v) + int (count_list (pr_lost (prog_run J w ops)) v) else 0)) \<and>
    en_atoms (prog_end J (prog_run J w ops)) = (\<lambda>_. 0) \<and> en_cstrs (prog_end J (prog_run J w ops)) = (\<lambda>_. 0) \<and>
    ((\<forall>i j. PAssign i j \<notin> set ops) \<longrightarrow> pr_lost (prog_run J w ops) = [])"
  using kept_run [OF kept_start, of J w ops] prog_end_held [of "prog_run J w ops" J] nothing_lost [of ops J w]
  by (auto simp: prog_run_def kept_def balanced_def)

theorem value_ownership_witness:
  "\<forall>(J :: unit js_api) v. en_held (prog_end J (prog_run J () [PCreate, PMove 0, AName ''x'', ACopy 0, PDestroy 0])) v = 0"
proof -
  have "pr_raws (prog_run J () [PCreate, PMove 0, AName ''x'', ACopy 0, PDestroy 0]) = []" for J :: "unit js_api"
    by (simp add: prog_run_def prog_start_def vop_step_def split: prod.splits sum.splits)
  then show ?thesis
    using value_ownership [where J = J and w = "()" and ops = "[PCreate, PMove 0, AName ''x'', ACopy 0, PDestroy 0]" for J]
    by simp
qed

end
