(* ===== verification/Primordials.thy ===== *)
theory Primordials
  imports HandleProps
begin

text \<open>
  \<open>Primordials\<close> (\<^verbatim>\<open>src/primordials.cpp\<close>, \<^verbatim>\<open>include/primordials.hpp\<close>): the built-in constructors
  and prototypes that a context keeps from its construction to its destruction, whatever scripts do
  to the globals later.
\<close>

record primordials =
  pr_Object :: jsv
  pr_Array :: jsv
  pr_Map :: jsv
  pr_Set :: jsv
  pr_Promise :: jsv
  pr_Error :: jsv
  pr_TypeError :: jsv
  pr_RangeError :: jsv
  pr_Object_prototype :: jsv
  pr_Array_prototype :: jsv
  pr_Map_prototype :: jsv
  pr_Set_prototype :: jsv
  pr_Promise_prototype :: jsv
  pr_Function_prototype :: jsv
  pr_String_prototype :: jsv

definition getPropertyStr :: "'w js_api \<Rightarrow> jsv \<Rightarrow> string \<Rightarrow> 'w engine \<Rightarrow> jsv \<times> 'w engine" where
  "getPropertyStr J obj name = returns (ja_getPropertyStr J obj name)"

definition Primordials_cache :: "'w js_api \<Rightarrow> 'w engine \<Rightarrow> primordials \<times> 'w engine" where
  "Primordials_cache J e =
     (let (global, e) = returns (ja_getGlobalObject J) e;
          (ob_Object, e) = getPropertyStr J global ''Object'' e;
          (ob_Array, e) = getPropertyStr J global ''Array'' e;
          (ob_Map, e) = getPropertyStr J global ''Map'' e;
          (ob_Set, e) = getPropertyStr J global ''Set'' e;
          (ob_Promise, e) = getPropertyStr J global ''Promise'' e;
          (ob_Error, e) = getPropertyStr J global ''Error'' e;
          (ob_TypeError, e) = getPropertyStr J global ''TypeError'' e;
          (ob_RangeError, e) = getPropertyStr J global ''RangeError'' e;
          (p_Object, e) = getPropertyStr J ob_Object ''prototype'' e;
          (p_Array, e) = getPropertyStr J ob_Array ''prototype'' e;
          (func_ctor, e) = getPropertyStr J global ''Function'' e;
          (p_Function, e) = getPropertyStr J func_ctor ''prototype'' e;
          e = JS_Free J func_ctor e;
          (str_ctor, e) = getPropertyStr J global ''String'' e;
          (p_String, e) = getPropertyStr J str_ctor ''prototype'' e;
          e = JS_Free J str_ctor e;
          (p_Map, e) = getPropertyStr J ob_Map ''prototype'' e;
          (p_Set, e) = getPropertyStr J ob_Set ''prototype'' e;
          (p_Promise, e) = getPropertyStr J ob_Promise ''prototype'' e
      in (\<lparr>pr_Object = ob_Object,
           pr_Array = ob_Array,
           pr_Map = ob_Map,
           pr_Set = ob_Set,
           pr_Promise = ob_Promise,
           pr_Error = ob_Error,
           pr_TypeError = ob_TypeError,
           pr_RangeError = ob_RangeError,
           pr_Object_prototype = p_Object,
           pr_Array_prototype = p_Array,
           pr_Map_prototype = p_Map,
           pr_Set_prototype = p_Set,
           pr_Promise_prototype = p_Promise,
           pr_Function_prototype = p_Function,
           pr_String_prototype = p_String\<rparr>,
          JS_Free J global e))"

text \<open>In the order of \<open>Primordials::free\<close>.\<close>

definition prim_values :: "primordials \<Rightarrow> jsv list" where
  "prim_values p = [pr_Object p, pr_Array p, pr_Map p, pr_Set p, pr_Promise p, pr_Error p, pr_TypeError p, pr_RangeError p, pr_Object_prototype p, pr_Array_prototype p, pr_Map_prototype p, pr_Set_prototype p, pr_Promise_prototype p, pr_Function_prototype p, pr_String_prototype p]"

definition Primordials_free :: "'w js_api \<Rightarrow> primordials \<Rightarrow> 'w engine \<Rightarrow> 'w engine" where
  "Primordials_free J p e = fold (JS_Free J) (prim_values p) e"

lemma frees_held:
  "held (fold (JS_Free J) vs e) v = held e v - (if has_ref_count v then int (count_list vs v) else 0)"
  "en_atoms (fold (JS_Free J) vs e) = en_atoms e" "en_cstrs (fold (JS_Free J) vs e) = en_cstrs e"
  by (induction vs arbitrary: e) simp_all

definition one_ref :: "jsv \<Rightarrow> jsv \<Rightarrow> int" where
  "one_ref x v = (if has_ref_count v then of_bool (x = v) else 0)"

lemma got:
  assumes "getPropertyStr J obj name e = (x, e')"
  shows "held e' v = held e v + one_ref x v" "en_atoms e' = en_atoms e" "en_cstrs e' = en_cstrs e"
  using returns_held [of "ja_getPropertyStr J obj name" e x e'] assms by (simp_all add: getPropertyStr_def one_ref_def)

lemma freed: "held (JS_Free J x e) v = held e v - one_ref x v"
  by (simp add: one_ref_def)

lemma count_refs: "(if has_ref_count v then int (count_list (x # xs) v) else 0) =
    one_ref x v + (if has_ref_count v then int (count_list xs v) else 0)"
  by (simp add: one_ref_def)

text \<open>The context owns exactly the cached values: the temporaries are gone.\<close>

lemma primordials_held:
  assumes "Primordials_cache J e = (p, e')"
  shows "held e' v = held e v + (if has_ref_count v then int (count_list (prim_values p) v) else 0) \<and>
    en_atoms e' = en_atoms e \<and> en_cstrs e' = en_cstrs e"
proof -
  obtain gl e0 where 0: "returns (ja_getGlobalObject J) e = (gl, e0)" by fastforce
  obtain x1 e1 where 1: "getPropertyStr J gl ''Object'' e0 = (x1, e1)" by fastforce
  obtain x2 e2 where 2: "getPropertyStr J gl ''Array'' e1 = (x2, e2)" by fastforce
  obtain x3 e3 where 3: "getPropertyStr J gl ''Map'' e2 = (x3, e3)" by fastforce
  obtain x4 e4 where 4: "getPropertyStr J gl ''Set'' e3 = (x4, e4)" by fastforce
  obtain x5 e5 where 5: "getPropertyStr J gl ''Promise'' e4 = (x5, e5)" by fastforce
  obtain x6 e6 where 6: "getPropertyStr J gl ''Error'' e5 = (x6, e6)" by fastforce
  obtain x7 e7 where 7: "getPropertyStr J gl ''TypeError'' e6 = (x7, e7)" by fastforce
  obtain x8 e8 where 8: "getPropertyStr J gl ''RangeError'' e7 = (x8, e8)" by fastforce
  obtain x9 e9 where 9: "getPropertyStr J x1 ''prototype'' e8 = (x9, e9)" by fastforce
  obtain x10 e10 where 10: "getPropertyStr J x2 ''prototype'' e9 = (x10, e10)" by fastforce
  obtain x11 e11 where 11: "getPropertyStr J gl ''Function'' e10 = (x11, e11)" by fastforce
  obtain x12 e12 where 12: "getPropertyStr J x11 ''prototype'' e11 = (x12, e12)" by fastforce
  obtain x13 e13 where 13: "getPropertyStr J gl ''String'' (JS_Free J x11 e12) = (x13, e13)" by fastforce
  obtain x14 e14 where 14: "getPropertyStr J x13 ''prototype'' e13 = (x14, e14)" by fastforce
  obtain x15 e15 where 15: "getPropertyStr J x3 ''prototype'' (JS_Free J x13 e14) = (x15, e15)" by fastforce
  obtain x16 e16 where 16: "getPropertyStr J x4 ''prototype'' e15 = (x16, e16)" by fastforce
  obtain x17 e17 where 17: "getPropertyStr J x5 ''prototype'' e16 = (x17, e17)" by fastforce
  have h: "held e0 v = held e v + one_ref gl v" "en_atoms e0 = en_atoms e" "en_cstrs e0 = en_cstrs e"
    using returns_held [OF 0] by (simp_all add: one_ref_def)
  note steps = 0 1 2 3 4 5 6 7 8 9 10 11 12 13 14 15 16 17
  note sums = h got [OF 1] got [OF 2] got [OF 3] got [OF 4] got [OF 5] got [OF 6] got [OF 7] got [OF 8] got [OF 9] got [OF 10] got [OF 11] got [OF 12] got [OF 13] got [OF 14] got [OF 15] got [OF 16] got [OF 17] freed
  have p: "p = fst (Primordials_cache J e)" "e' = JS_Free J gl e17"
    using assms steps by (simp_all add: Primordials_cache_def)
  have "prim_values p = [x1, x2, x3, x4, x5, x6, x7, x8, x9, x10, x15, x16, x17, x12, x14]"
    by (simp add: p(1) Primordials_cache_def steps prim_values_def)
  then show ?thesis by (simp only: p(2) sums count_refs ref_simps) simp
qed

lemma primordials_balance:
  assumes "Primordials_cache J e = (p, e1)"
  shows "delta e (Primordials_free J p e1) (\<lambda>_. 0)"
  using primordials_held [OF assms] by (simp add: delta_def Primordials_free_def frees_held)

text \<open>With an engine whose properties are those of a heap \<open>g\<close>: every field is what its name says.\<close>

lemma primordials_values:
  assumes "\<And>obj name w. fst (ja_getPropertyStr J obj name w) = g obj name" and "\<And>w. fst (ja_getGlobalObject J w) = gl"
  shows "prim_values (fst (Primordials_cache J e)) =
    map (g gl) [''Object'', ''Array'', ''Map'', ''Set'', ''Promise'', ''Error'', ''TypeError'', ''RangeError''] @
    map (\<lambda>c. g (g gl c) ''prototype'') [''Object'', ''Array'', ''Map'', ''Set'', ''Promise'', ''Function'', ''String'']"
proof -
  have "fst (getPropertyStr J obj name e) = g obj name" "fst (returns (ja_getGlobalObject J) e) = gl" for obj name e
    using assms by (simp_all add: getPropertyStr_def returns_def calls_def split_beta)
  then show ?thesis by (simp add: Primordials_cache_def prim_values_def Let_def split_beta)
qed

end
