(* ===== verification/OpaqueStorage.thy ===== *)
theory OpaqueStorage
  imports Prelude
begin

text \<open>
  \<open>OpaqueStorage\<close> of \<^verbatim>\<open>include/opaque.hpp\<close>: an object of any type, in the buffer of the storage when
  it is small, on the heap when it is not. An object is a value \<open>'a\<close>; what its type brings along is
  its size and alignment. The world counts live objects and live heap blocks per object.
\<close>

section \<open>The storage\<close>

record layout =
  ly_size :: nat
  ly_align :: nat

definition kInlineSize :: nat where "kInlineSize = 48"

text \<open>\<open>alignof(std::max_align_t)\<close> on the platforms of the build\<close>

definition max_align :: nat where "max_align = 16"

text \<open>The two lambdas that \<open>emplace\<close> stores, for an object of type \<open>T\<close>.\<close>

datatype destroyer = DestroyInPlace layout | DeleteIt layout

record 'a storage =
  inline_buf :: "'a option"
  heap_ptr :: "'a option"
  destroy :: "destroyer option"

record 'a objects =
  ob_live :: "'a list"
  ob_heap :: "'a list"

definition OpaqueStorage_default :: "'a storage" where
  "OpaqueStorage_default = \<lparr>inline_buf = None, heap_ptr = None, destroy = None\<rparr>"

definition is_inline :: "'a storage \<Rightarrow> bool" where "is_inline s \<longleftrightarrow> heap_ptr s = None"

definition data_ptr :: "'a storage \<Rightarrow> 'a option" where
  "data_ptr s = (if is_inline s then inline_buf s else heap_ptr s)"

definition emplace :: "layout \<Rightarrow> 'a \<Rightarrow> 'a storage \<times> 'a objects \<Rightarrow> 'a storage \<times> 'a objects" where
  "emplace T x st =
     (case st of (s, w) \<Rightarrow>
        if ly_size T \<le> kInlineSize \<and> ly_align T \<le> max_align then
          (s\<lparr>inline_buf := Some x, destroy := Some (DestroyInPlace T)\<rparr>, w\<lparr>ob_live := x # ob_live w\<rparr>)
        else
          (s\<lparr>heap_ptr := Some x, destroy := Some (DeleteIt T)\<rparr>,
           w\<lparr>ob_live := x # ob_live w, ob_heap := x # ob_heap w\<rparr>))"

definition get :: "'a storage \<Rightarrow> 'a option" where "get s = data_ptr s"

definition storage_raw :: "'a storage \<Rightarrow> 'a option" where
  "storage_raw s = (if destroy s \<noteq> None then data_ptr s else None)"

definition hasValue :: "'a storage \<Rightarrow> bool" where "hasValue s \<longleftrightarrow> destroy s \<noteq> None"

fun run_destroyer :: "destroyer \<Rightarrow> 'a \<Rightarrow> 'a objects \<Rightarrow> 'a objects" where
  "run_destroyer (DestroyInPlace _) x w = w\<lparr>ob_live := remove1 x (ob_live w)\<rparr>"
| "run_destroyer (DeleteIt _) x w = w\<lparr>ob_live := remove1 x (ob_live w), ob_heap := remove1 x (ob_heap w)\<rparr>"

definition OpaqueStorage_dtor :: "'a storage \<Rightarrow> 'a objects \<Rightarrow> 'a objects" where
  "OpaqueStorage_dtor s w =
     (case destroy s of
        None \<Rightarrow> w
      | Some d \<Rightarrow> (case data_ptr s of None \<Rightarrow> w | Some x \<Rightarrow> run_destroyer d x w))"

text \<open>The new storage and what is left of \<open>o\<close>: its buffer keeps the bytes.\<close>

definition OpaqueStorage_move :: "'a storage \<Rightarrow> 'a storage \<times> 'a storage" where
  "OpaqueStorage_move other =
     (let new = \<lparr>inline_buf = None, heap_ptr = heap_ptr other, destroy = destroy other\<rparr>;
          new = (if is_inline new then new\<lparr>inline_buf := inline_buf other\<rparr> else new)
      in (new, other\<lparr>destroy := None, heap_ptr := None\<rparr>))"

section \<open>Its behaviour\<close>

lemmas storage_defs = OpaqueStorage_default_def is_inline_def data_ptr_def emplace_def get_def storage_raw_def hasValue_def
  OpaqueStorage_dtor_def OpaqueStorage_move_def

text \<open>An object put into an empty storage is the one found there, also after the storage has moved.\<close>

lemma get_emplace:
  assumes "emplace T x (OpaqueStorage_default, w) = (s, w')"
  shows "get s = Some x \<and> storage_raw s = Some x \<and> get (fst (OpaqueStorage_move s)) = Some x"
  using assms by (auto simp: storage_defs split: if_splits)

text \<open>
  It is destroyed once, on whichever of the two it is: through the storage itself, or through the
  one it moved to, and then the old one does nothing. The block is freed when it was on the heap.
\<close>

lemma emplace_dtor:
  assumes "emplace T x (OpaqueStorage_default, w) = (s, w')"
  shows "OpaqueStorage_dtor s w' = w"
    and "OpaqueStorage_move s = (s1, s2) \<Longrightarrow> OpaqueStorage_dtor s2 (OpaqueStorage_dtor s1 w') = w"
    and "OpaqueStorage_move s = (s1, s2) \<Longrightarrow> OpaqueStorage_dtor s1 (OpaqueStorage_dtor s2 w') = w"
  using assms by (auto simp: storage_defs split: if_splits)

text \<open>
  A second \<open>emplace\<close> does not destroy what is there; a small object after a large one is not even
  found, and its destructor runs on the large one.
\<close>

lemma second_emplace:
  "(let (s, w) = emplace \<lparr>ly_size = 8, ly_align = 8\<rparr> 2
         (emplace \<lparr>ly_size = 64, ly_align = 8\<rparr> (1::nat) (OpaqueStorage_default, \<lparr>ob_live = [], ob_heap = []\<rparr>))
    in (get s, OpaqueStorage_dtor s w)) = (Some 1, \<lparr>ob_live = [2], ob_heap = [1]\<rparr>)"
  by (simp add: storage_defs kInlineSize_def max_align_def)

end
