(* ===== verification/Bindings.thy ===== *)
theory Bindings
  imports HandleProps "HOL-Library.Countable"
begin

text \<open>
  The error helpers of \<open>SandboxContext\<close>, the \<open>print\<close> binding of \<^verbatim>\<open>src/bindings/print.cpp\<close>, and the
  registration of the bindings (\<open>setupGlobals\<close> of \<^verbatim>\<open>src/context.cpp\<close>, \<open>registerTimers\<close>,
  \<open>registerPrint\<close>, \<open>SocketModule::registerWith\<close> and the former \<open>registerSocket\<close>), on the engine of
  \<^verbatim>\<open>Handles\<close>. What the program writes is part of the state.
\<close>

section \<open>Errors\<close>

definition jsValueToString :: "'w js_api \<Rightarrow> jsv \<Rightarrow> 'w engine \<Rightarrow> string \<times> 'w engine" where
  "jsValueToString J v e =
     (let ((p, n), e) = calls (ja_toCStringLen J v) e;
          e = own_cstring p e;
          result = (if p \<noteq> 0 then c_str (ja_cstring_text J p (en_world e)) else ''JS error'')
      in (result, if p \<noteq> 0 then JS_FreeCString p e else e))"

text \<open>A \<open>JsError\<close> is thrown: its text.\<close>

definition throwJsError :: "'w js_api \<Rightarrow> 'w engine \<Rightarrow> (string + unit) \<times> 'w engine" where
  "throwJsError J e =
     (let (exc, e) = returns (ja_getException J) e;
          (msg, e) = jsValueToString J exc e;
          e = JS_Free J exc e
      in (Inl msg, e))"

definition assertOk :: "'w js_api \<Rightarrow> jsv \<Rightarrow> 'w engine \<Rightarrow> (string + unit) \<times> 'w engine" where
  "assertOk J v e = (if v \<noteq> JException then (Inr (), e) else throwJsError J e)"

section \<open>print\<close>

fun print_args :: "'w js_api \<Rightarrow> nat \<Rightarrow> jsv list \<Rightarrow> string \<Rightarrow> 'w engine \<Rightarrow> string \<times> 'w engine" where
  "print_args J i [] out e = (out, e)"
| "print_args J i (v # vs) out e =
     (let ((p, n), e) = calls (ja_toCStringLen J v) e;
          e = own_cstring p e
      in if p \<noteq> 0
         then print_args J (i + 1) vs
                (out @ (if i > 0 then '' '' else '''') @ c_str (ja_cstring_text J p (en_world e))) (JS_FreeCString p e)
         else print_args J (i + 1) vs out e)"

definition js_print :: "'w js_api \<Rightarrow> jsv list \<Rightarrow> string \<Rightarrow> 'w engine \<Rightarrow> jsv \<times> string \<times> 'w engine" where
  "js_print J argv out e = (let (out, e) = print_args J 0 argv out e in (JUndefined, out @ [CHR 0x0A], e))"

section \<open>Registration\<close>

text \<open>C functions go by their names. \<open>ra_newClassID\<close> gets the id that the variable has.\<close>

type_synonym native = string

record 'w reg_api =
  ra_newCFunction :: "native \<Rightarrow> string \<Rightarrow> int \<Rightarrow> 'w \<Rightarrow> jsv \<times> 'w"
  ra_newCFunctionMagic :: "native \<Rightarrow> string \<Rightarrow> int \<Rightarrow> 'w \<Rightarrow> jsv \<times> 'w"
  ra_setPropertyStr :: "jsv \<Rightarrow> string \<Rightarrow> jsv \<Rightarrow> 'w \<Rightarrow> int \<times> 'w"
  ra_newObject :: "'w \<Rightarrow> jsv \<times> 'w"
  ra_setPropertyFunctionList :: "jsv \<Rightarrow> (string \<times> int \<times> native) list \<Rightarrow> 'w \<Rightarrow> int \<times> 'w"
  ra_newClassID :: "nat \<Rightarrow> 'w \<Rightarrow> nat \<times> 'w"
  ra_newClass :: "nat \<Rightarrow> string \<times> native \<times> native \<Rightarrow> 'w \<Rightarrow> int \<times> 'w"
  ra_setClassProto :: "nat \<Rightarrow> jsv \<Rightarrow> 'w \<Rightarrow> 'w"
  ra_setConstructor :: "jsv \<Rightarrow> jsv \<Rightarrow> 'w \<Rightarrow> 'w"

text \<open>\<open>JS_SetPropertyStr\<close> takes the value; its result is dropped.\<close>

definition put_global :: "'w reg_api \<Rightarrow> jsv \<Rightarrow> string \<Rightarrow> jsv \<Rightarrow> 'w engine \<Rightarrow> 'w engine" where
  "put_global R g name v e = snd (passed (ra_setPropertyStr R g name v) [v] e)"

definition put_function :: "'w reg_api \<Rightarrow> jsv \<Rightarrow> string \<Rightarrow> native \<Rightarrow> int \<Rightarrow> 'w engine \<Rightarrow> 'w engine" where
  "put_function R g name f len e =
     (let (v, e) = returns (ra_newCFunction R f name len) e in put_global R g name v e)"

definition registerTimers :: "'w js_api \<Rightarrow> 'w reg_api \<Rightarrow> 'w engine \<Rightarrow> 'w engine" where
  "registerTimers J R e =
     (let (g, e) = returns (ja_getGlobalObject J) e;
          e = put_function R g ''setTimeout'' ''js_setTimeout'' 2 e;
          e = put_function R g ''setInterval'' ''js_setInterval'' 2 e;
          e = put_function R g ''clearTimeout'' ''js_clearTimeout'' 1 e;
          e = put_function R g ''clearInterval'' ''js_clearInterval'' 1 e
      in JS_Free J g e)"

definition registerPrint :: "'w js_api \<Rightarrow> 'w reg_api \<Rightarrow> 'w engine \<Rightarrow> 'w engine" where
  "registerPrint J R e =
     (let (g, e) = returns (ja_getGlobalObject J) e;
          e = put_function R g ''print'' ''js_print'' 1 e
      in JS_Free J g e)"

definition socket_proto_funcs :: "(string \<times> int \<times> native) list" where
  "socket_proto_funcs = [(''on'', 2, ''js_socket_on''), (''close'', 0, ''js_socket_close''),
     (''write'', 1, ''js_socket_write''), (''connect'', 2, ''js_socket_connect'')]"

text \<open>Both modules register their class with the same calls; they differ in the C functions.\<close>

definition register_class ::
  "'w js_api \<Rightarrow> 'w reg_api \<Rightarrow> native \<Rightarrow> native \<Rightarrow> native \<Rightarrow> nat \<Rightarrow> 'w engine \<Rightarrow> nat \<times> 'w engine" where
  "register_class J R cons finalizer mark cid e =
     (let (cid, e) = calls (ra_newClassID R cid) e;
          (_, e) = calls (ra_newClass R cid (''Socket'', finalizer, mark)) e;
          (proto, e) = returns (ra_newObject R) e;
          (_, e) = calls (ra_setPropertyFunctionList R proto socket_proto_funcs) e;
          (_, e) = passed (\<lambda>w. (0, ra_setClassProto R cid proto w)) [proto] e;
          (g, e) = returns (ja_getGlobalObject J) e;
          (ctor, e) = returns (ra_newCFunctionMagic R cons ''Socket'' 0) e;
          (_, e) = calls (\<lambda>w. ((), ra_setConstructor R ctor proto w)) e;
          e = put_global R g ''Socket'' ctor e
      in (cid, JS_Free J g e))"

definition SocketModule_registerWith ::
  "'w js_api \<Rightarrow> 'w reg_api \<Rightarrow> nat \<Rightarrow> 'w engine \<Rightarrow> nat \<times> 'w engine" where
  "SocketModule_registerWith J R cid e =
     register_class J R ''js_socket_constructor'' ''TcpSocket::jsFinalizer'' ''TcpSocket::jsGcMark'' cid e"

definition registerSocket :: "'w js_api \<Rightarrow> 'w reg_api \<Rightarrow> nat \<Rightarrow> 'w engine \<Rightarrow> nat \<times> 'w engine" where
  "registerSocket J R cid e =
     register_class J R ''js_socket_constructor2'' ''SocketState::jsFinalizer'' ''SocketState::jsGcMark'' cid e"

definition setupGlobals :: "'w js_api \<Rightarrow> 'w reg_api \<Rightarrow> nat \<Rightarrow> 'w engine \<Rightarrow> nat \<times> 'w engine" where
  "setupGlobals J R cid e =
     (let e = registerTimers J R e;
          e = registerPrint J R e
      in SocketModule_registerWith J R cid e)"

section \<open>What is proved of errors and print\<close>

text \<open>The two ways to check a result, the context's and the one of a \<open>Value\<close>, are the same.\<close>

lemma assertOk_Value: "assertOk J v e = Value_assertOk J (Value_raw v) e"
  by (simp add: assertOk_def throwJsError_def jsValueToString_def Value_assertOk_def Value_isException_def
      Value_raw_def JS_FreeCString_def own_cstring_def Let_def case_prod_unfold)

lemma cstring_inverse [simp]: "JS_FreeCString p (own_cstring p e) = e"
  by (simp add: JS_FreeCString_def own_cstring_def)

lemma own_cstring_world [simp]: "en_world (own_cstring p e) = en_world e" "own_cstring 0 e = e"
  by (simp_all add: own_cstring_def)

lemma delta_print: "delta e (snd (print_args J i vs out e)) (\<lambda>_. 0)"
proof (induction vs arbitrary: i out e)
  case (Cons v vs)
  obtain p n e1 where c: "calls (ja_toCStringLen J v) e = ((p, n), e1)"
    by (cases "calls (ja_toCStringLen J v) e") auto
  have "delta e (snd (print_args J (i + 1) vs out' e1)) (\<lambda>_. 0)" for out'
    using delta_trans [OF delta_calls [OF c] Cons.IH] by simp
  then show ?case by (cases "p = 0") (simp_all add: c Let_def)
qed (simp add: delta_refl)

fun join :: "string \<Rightarrow> string list \<Rightarrow> string" where
  "join sep [] = ''''"
| "join sep [x] = x"
| "join sep (x # y # ys) = x @ sep @ join sep (y # ys)"

lemma print_rest:
  assumes "\<forall>v\<in>set vs. \<forall>w. fst (fst (ja_toCStringLen J v w)) \<noteq> 0 \<and> snd (ja_toCStringLen J v w) = w \<and>
      c_str (ja_cstring_text J (fst (fst (ja_toCStringLen J v w))) w) = t v"
  shows "print_args J (Suc i) vs out e = (out @ concat (map (\<lambda>v. '' '' @ t v) vs), e)"
  using assms
proof (induction vs arbitrary: i out)
  case (Cons v vs)
  have c: "calls (ja_toCStringLen J v) e = (fst (ja_toCStringLen J v (en_world e)), e)"
    using Cons.prems by (simp add: calls_def case_prod_unfold)
  show ?case using Cons.IH [of "Suc i"] Cons.prems by (simp add: c Let_def case_prod_unfold)
qed simp

lemma join_concat: "join sep (x # xs) = x @ concat (map (\<lambda>y. sep @ y) xs)"
  by (induction xs arbitrary: x) simp_all

text \<open>
  \<open>print\<close> writes its arguments, converted to strings, with a space between each two and a newline
  at the end, and leaves the engine as it found it: no C string and no reference is kept. This is for
  arguments that have a string, whose conversion does not change the state of the engine; in all other
  cases too, no C string and no reference is kept.
\<close>

lemma print_text:
  "delta e (snd (snd (js_print J argv out e))) (\<lambda>_. 0) \<and>
   ((\<forall>v\<in>set argv. \<forall>w. fst (fst (ja_toCStringLen J v w)) \<noteq> 0 \<and> snd (ja_toCStringLen J v w) = w \<and>
      c_str (ja_cstring_text J (fst (fst (ja_toCStringLen J v w))) w) = t v) \<longrightarrow>
    js_print J argv out e = (JUndefined, out @ join '' '' (map t argv) @ [CHR 0x0A], e))"
proof (intro conjI impI)
  show "delta e (snd (snd (js_print J argv out e))) (\<lambda>_. 0)"
    using delta_print [of e J 0 argv out] by (simp add: js_print_def case_prod_unfold Let_def)
next
  assume c: "\<forall>v\<in>set argv. \<forall>w. fst (fst (ja_toCStringLen J v w)) \<noteq> 0 \<and> snd (ja_toCStringLen J v w) = w \<and>
      c_str (ja_cstring_text J (fst (fst (ja_toCStringLen J v w))) w) = t v"
  show "js_print J argv out e = (JUndefined, out @ join '' '' (map t argv) @ [CHR 0x0A], e)"
  proof (cases argv)
    case (Cons v vs)
    then have v: "calls (ja_toCStringLen J v) e = (fst (ja_toCStringLen J v (en_world e)), e)"
      using c by (simp add: calls_def case_prod_unfold)
    show ?thesis
      using c Cons print_rest [of vs J t 0] by (simp add: js_print_def v Let_def case_prod_unfold join_concat comp_def)
  qed (simp add: js_print_def)
qed

text \<open>An engine that writes numbers as one letter each.\<close>

lemma print_text_example:
  "\<forall>J :: unit js_api. \<forall>e.
     js_print (J\<lparr>ja_toCStringLen := \<lambda>v w. ((case v of JPrim n \<Rightarrow> nat n | _ \<Rightarrow> 1, 1), w), ja_cstring_text := \<lambda>p w. (if p = 65 then [CHR 0x41] else [CHR 0x42])\<rparr>)
       [JPrim 65, JPrim 66] '''' e = (JUndefined, ''A B'' @ [CHR 0x0A], e)"
proof (intro allI)
  fix J :: "unit js_api" and e
  let ?J = "J\<lparr>ja_toCStringLen := \<lambda>v w. ((case v of JPrim n \<Rightarrow> nat n | _ \<Rightarrow> 1, 1), w), ja_cstring_text := \<lambda>p w. (if p = 65 then [CHR 0x41] else [CHR 0x42])\<rparr>"
  show "js_print ?J [JPrim 65, JPrim 66] '''' e = (JUndefined, ''A B'' @ [CHR 0x0A], e)"
    using print_text [of e ?J "[JPrim 65, JPrim 66]" "''''" "\<lambda>v. case v of JPrim n \<Rightarrow> if n = 65 then [CHR 0x41] else [CHR 0x42] | _ \<Rightarrow> ''''"]
    by (simp add: c_str_def)
qed

text \<open>When an argument has no string, its exception stays pending and \<open>print\<close> returns as if nothing was.\<close>

lemma print_swallows:
  "\<forall>w. ja_toCStringLen J v w = ((0, 0), f w) \<Longrightarrow>
   js_print J [v] out e = (JUndefined, out @ [CHR 0x0A], e\<lparr>en_world := f (en_world e)\<rparr>)"
  by (simp add: js_print_def calls_def)

section \<open>What is proved of the registration\<close>

lemma engine_world [simp]: "en_world (own v e) = en_world e" "en_world (disown v e) = en_world e"
  "en_world (JS_Free J v e) = ja_freeValue J v (en_world e)"
  by (simp_all add: own_def disown_def JS_Free_def)

lemma snd_calls [simp]: "en_world (snd (calls f e)) = snd (f (en_world e))" "fst (calls f e) = fst (f (en_world e))"
  by (simp_all add: calls_def case_prod_unfold Let_def)

lemma snd_returns [simp]: "en_world (snd (returns f e)) = snd (f (en_world e))" "fst (returns f e) = fst (f (en_world e))"
  by (simp_all add: returns_def case_prod_unfold Let_def)

lemma snd_passed [simp]: "en_world (snd (passed f [v] e)) = snd (f (en_world e))" "fst (passed f [v] e) = fst (f (en_world e))"
  by (simp_all add: passed_def case_prod_unfold Let_def)

lemma delta_function: "delta e (put_function R g name f len e) (\<lambda>_. 0)"
proof -
  obtain v e1 where r: "returns (ra_newCFunction R f name len) e = (v, e1)"
    by (cases "returns (ra_newCFunction R f name len) e")
  obtain x e2 where p: "passed (ra_setPropertyStr R g name v) [v] e1 = (x, e2)"
    by (cases "passed (ra_setPropertyStr R g name v) [v] e1")
  from delta_trans [OF delta_returns [OF r] passed_held(1) [OF p]] show ?thesis
    by (simp add: put_function_def put_global_def r p delta_def)
qed

text \<open>A function that looks the global object up, does something and gives the reference back.\<close>

lemma delta_global:
  assumes "\<And>g e. delta e (f g e) (\<lambda>_. 0)"
  shows "delta e (case returns (ja_getGlobalObject J) e of (g, e) \<Rightarrow> JS_Free J g (f g e)) (\<lambda>_. 0)"
proof -
  obtain g e1 where r: "returns (ja_getGlobalObject J) e = (g, e1)" by (cases "returns (ja_getGlobalObject J) e")
  from delta_trans [OF delta_returns [OF r] assms [of e1 g]] show ?thesis by (simp add: r delta_def)
qed

lemma delta_then: "delta e e1 (\<lambda>_. 0) \<Longrightarrow> delta e (put_function R g name f len e1) (\<lambda>_. 0)"
  using delta_trans [OF _ delta_function] by fastforce

lemma delta_registerTimers: "delta e (registerTimers J R e) (\<lambda>_. 0)"
  unfolding registerTimers_def Let_def by (rule delta_global) (intro delta_then delta_function)

lemma delta_registerPrint: "delta e (registerPrint J R e) (\<lambda>_. 0)"
  unfolding registerPrint_def Let_def by (rule delta_global) (rule delta_function)

lemma delta_class: "delta e (snd (register_class J R cons fin mark cid e)) (\<lambda>_. 0)"
proof -
  obtain c e1 where 1: "calls (ra_newClassID R cid) e = (c, e1)" by (cases "calls (ra_newClassID R cid) e")
  obtain r2 e2 where 2: "calls (ra_newClass R c (''Socket'', fin, mark)) e1 = (r2, e2)"
    by (cases "calls (ra_newClass R c (''Socket'', fin, mark)) e1")
  obtain p e3 where 3: "returns (ra_newObject R) e2 = (p, e3)" by (cases "returns (ra_newObject R) e2")
  obtain r4 e4 where 4: "calls (ra_setPropertyFunctionList R p socket_proto_funcs) e3 = (r4, e4)"
    by (cases "calls (ra_setPropertyFunctionList R p socket_proto_funcs) e3")
  obtain r5 e5 where 5: "passed (\<lambda>w. (0, ra_setClassProto R c p w)) [p] e4 = (r5, e5)"
    by (cases "passed (\<lambda>w. (0, ra_setClassProto R c p w)) [p] e4")
  obtain g e6 where 6: "returns (ja_getGlobalObject J) e5 = (g, e6)" by (cases "returns (ja_getGlobalObject J) e5")
  obtain k e7 where 7: "returns (ra_newCFunctionMagic R cons ''Socket'' 0) e6 = (k, e7)"
    by (cases "returns (ra_newCFunctionMagic R cons ''Socket'' 0) e6")
  obtain r8 e8 where 8: "calls (\<lambda>w. ((), ra_setConstructor R k p w)) e7 = (r8, e8)"
    by (cases "calls (\<lambda>w. ((), ra_setConstructor R k p w)) e7")
  obtain r9 e9 where 9: "passed (ra_setPropertyStr R g ''Socket'' k) [k] e8 = (r9, e9)"
    by (cases "passed (ra_setPropertyStr R g ''Socket'' k) [k] e8")
  have "snd (register_class J R cons fin mark cid e) = JS_Free J g e9"
    by (simp add: register_class_def put_global_def 1 2 3 4 5 6 7 8 9)
  then show ?thesis
    using delta_calls [OF 1] delta_calls [OF 2] delta_returns [OF 3] delta_calls [OF 4] passed_held(1) [OF 5]
      delta_returns [OF 6] delta_returns [OF 7] delta_calls [OF 8] passed_held(1) [OF 9]
    by (simp add: delta_def)
qed

text \<open>
  The properties of the global object: \<open>G\<close> is where they are in the state of the engine, \<open>code\<close> the C
  function and the length of a function object.
\<close>

definition global_laws ::
  "'w js_api \<Rightarrow> 'w reg_api \<Rightarrow> jsv \<Rightarrow> ('w \<Rightarrow> string \<rightharpoonup> jsv) \<Rightarrow> (jsv \<Rightarrow> native \<times> int) \<Rightarrow> bool" where
  "global_laws J R g G code \<longleftrightarrow>
     (\<forall>w. fst (ja_getGlobalObject J w) = g \<and> G (snd (ja_getGlobalObject J w)) = G w) \<and>
     (\<forall>f n l w. code (fst (ra_newCFunction R f n l w)) = (f, l) \<and> G (snd (ra_newCFunction R f n l w)) = G w) \<and>
     (\<forall>f n l w. code (fst (ra_newCFunctionMagic R f n l w)) = (f, l) \<and> fst (ra_newCFunctionMagic R f n l w) \<noteq> g \<and>
        G (snd (ra_newCFunctionMagic R f n l w)) = G w) \<and>
     (\<forall>n v w. G (snd (ra_setPropertyStr R g n v w)) = (G w)(n \<mapsto> v)) \<and>
     (\<forall>w. fst (ra_newObject R w) \<noteq> g \<and> G (snd (ra_newObject R w)) = G w) \<and>
     (\<forall>p l w. p \<noteq> g \<longrightarrow> G (snd (ra_setPropertyFunctionList R p l w)) = G w) \<and>
     (\<forall>c w. G (snd (ra_newClassID R c w)) = G w) \<and> (\<forall>c d w. G (snd (ra_newClass R c d w)) = G w) \<and>
     (\<forall>c p w. G (ra_setClassProto R c p w) = G w) \<and> (\<forall>k p w. k \<noteq> g \<longrightarrow> p \<noteq> g \<longrightarrow> G (ra_setConstructor R k p w) = G w) \<and>
     (\<forall>v w. G (ja_freeValue J v w) = G w)"

lemma put_function_global:
  "global_laws J R g G code \<Longrightarrow>
   \<exists>v. G (en_world (put_function R g name f len e)) = (G (en_world e))(name \<mapsto> v) \<and> code v = (f, len)"
  by (simp add: global_laws_def put_function_def put_global_def case_prod_unfold Let_def)
    (intro exI conjI, rule refl, simp)

lemma class_global:
  "global_laws J R g G code \<Longrightarrow>
   \<exists>v. G (en_world (snd (register_class J R cons fin mark cid e))) = (G (en_world e))(''Socket'' \<mapsto> v) \<and>
     code v = (cons, 0)"
  by (simp add: global_laws_def register_class_def put_global_def case_prod_unfold Let_def)
    (intro exI conjI, rule refl, simp)

lemma registerTimers_global:
  assumes "global_laws J R g G code"
  shows "\<exists>a b c d. G (en_world (registerTimers J R e)) =
      (G (en_world e))(''setTimeout'' \<mapsto> a, ''setInterval'' \<mapsto> b, ''clearTimeout'' \<mapsto> c, ''clearInterval'' \<mapsto> d) \<and>
      code a = (''js_setTimeout'', 2) \<and> code b = (''js_setInterval'', 2) \<and> code c = (''js_clearTimeout'', 1) \<and>
      code d = (''js_clearInterval'', 1)"
proof -
  note put = put_function_global [OF assms]
  let ?g = "snd (returns (ja_getGlobalObject J) e)"
  obtain a where a: "G (en_world (put_function R g ''setTimeout'' ''js_setTimeout'' 2 ?g)) =
      (G (en_world ?g))(''setTimeout'' \<mapsto> a)" "code a = (''js_setTimeout'', 2)" using put by blast
  obtain b where b: "G (en_world (put_function R g ''setInterval'' ''js_setInterval'' 2
        (put_function R g ''setTimeout'' ''js_setTimeout'' 2 ?g))) =
      (G (en_world (put_function R g ''setTimeout'' ''js_setTimeout'' 2 ?g)))(''setInterval'' \<mapsto> b)"
    "code b = (''js_setInterval'', 2)" using put by blast
  obtain c where c: "G (en_world (put_function R g ''clearTimeout'' ''js_clearTimeout'' 1
        (put_function R g ''setInterval'' ''js_setInterval'' 2 (put_function R g ''setTimeout'' ''js_setTimeout'' 2 ?g)))) =
      (G (en_world (put_function R g ''setInterval'' ''js_setInterval'' 2
        (put_function R g ''setTimeout'' ''js_setTimeout'' 2 ?g))))(''clearTimeout'' \<mapsto> c)"
    "code c = (''js_clearTimeout'', 1)" using put by blast
  obtain d where d: "G (en_world (put_function R g ''clearInterval'' ''js_clearInterval'' 1
        (put_function R g ''clearTimeout'' ''js_clearTimeout'' 1 (put_function R g ''setInterval'' ''js_setInterval'' 2
          (put_function R g ''setTimeout'' ''js_setTimeout'' 2 ?g))))) =
      (G (en_world (put_function R g ''clearTimeout'' ''js_clearTimeout'' 1
        (put_function R g ''setInterval'' ''js_setInterval'' 2
          (put_function R g ''setTimeout'' ''js_setTimeout'' 2 ?g)))))(''clearInterval'' \<mapsto> d)"
    "code d = (''js_clearInterval'', 1)" using put by blast
  have "fst (ja_getGlobalObject J w) = g" "G (snd (ja_getGlobalObject J w)) = G w" "G (ja_freeValue J v w) = G w" for v w
    using assms by (simp_all add: global_laws_def)
  then have "G (en_world (registerTimers J R e)) =
      (G (en_world e))(''setTimeout'' \<mapsto> a, ''setInterval'' \<mapsto> b, ''clearTimeout'' \<mapsto> c, ''clearInterval'' \<mapsto> d)"
    using a(1) b(1) c(1) d(1) by (simp add: registerTimers_def Let_def case_prod_unfold)
  with a(2) b(2) c(2) d(2) show ?thesis by blast
qed

lemma registerPrint_global:
  assumes "global_laws J R g G code"
  shows "\<exists>a. G (en_world (registerPrint J R e)) = (G (en_world e))(''print'' \<mapsto> a) \<and> code a = (''js_print'', 1)"
proof -
  have "fst (ja_getGlobalObject J w) = g" "G (snd (ja_getGlobalObject J w)) = G w" "G (ja_freeValue J v w) = G w" for v w
    using assms by (simp_all add: global_laws_def)
  then show ?thesis
    using put_function_global [OF assms, of "''print''" "''js_print''" 1 "snd (returns (ja_getGlobalObject J) e)"]
    by (simp add: registerPrint_def Let_def case_prod_unfold)
qed

text \<open>
  C39. Setting up the globals of a context keeps no reference, atom or C string on the C++ side. If
  QuickJS stores what is set on the global object and makes function objects for the C functions it is
  given, then afterwards the global object has the six functions of the sandbox, each with its own
  implementation and length, and everything else as before.
\<close>

theorem setup_globals:
  "delta e (snd (setupGlobals J R cid e)) (\<lambda>_. 0) \<and>
   (global_laws J R g G code \<longrightarrow>
    (\<forall>n. map_option code (G (en_world (snd (setupGlobals J R cid e))) n) =
       (case map_of [(''setTimeout'', ''js_setTimeout'', 2), (''setInterval'', ''js_setInterval'', 2),
            (''clearTimeout'', ''js_clearTimeout'', 1), (''clearInterval'', ''js_clearInterval'', 1),
            (''print'', ''js_print'', 1), (''Socket'', ''js_socket_constructor'', 0)] n of
          Some x \<Rightarrow> Some x
        | None \<Rightarrow> map_option code (G (en_world e) n))))"
proof (intro conjI impI allI)
  have "delta e (registerPrint J R (registerTimers J R e)) (\<lambda>_. 0)"
    using delta_trans [OF delta_registerTimers delta_registerPrint] by fastforce
  from delta_trans [OF this delta_class] show "delta e (snd (setupGlobals J R cid e)) (\<lambda>_. 0)"
    by (fastforce simp: setupGlobals_def SocketModule_registerWith_def Let_def)
next
  fix n
  assume l: "global_laws J R g G code"
  obtain a b c d where t: "G (en_world (registerTimers J R e)) =
      (G (en_world e))(''setTimeout'' \<mapsto> a, ''setInterval'' \<mapsto> b, ''clearTimeout'' \<mapsto> c, ''clearInterval'' \<mapsto> d)"
    "code a = (''js_setTimeout'', 2)" "code b = (''js_setInterval'', 2)" "code c = (''js_clearTimeout'', 1)"
    "code d = (''js_clearInterval'', 1)" using registerTimers_global [OF l] by blast
  obtain p where p: "G (en_world (registerPrint J R (registerTimers J R e))) =
      (G (en_world (registerTimers J R e)))(''print'' \<mapsto> p)" "code p = (''js_print'', 1)"
    using registerPrint_global [OF l] by blast
  obtain s where s: "G (en_world (snd (setupGlobals J R cid e))) =
      (G (en_world (registerPrint J R (registerTimers J R e))))(''Socket'' \<mapsto> s)" "code s = (''js_socket_constructor'', 0)"
    using class_global [OF l] by (fastforce simp: setupGlobals_def SocketModule_registerWith_def Let_def)
  show "map_option code (G (en_world (snd (setupGlobals J R cid e))) n) =
       (case map_of [(''setTimeout'', ''js_setTimeout'', 2), (''setInterval'', ''js_setInterval'', 2),
            (''clearTimeout'', ''js_clearTimeout'', 1), (''clearInterval'', ''js_clearInterval'', 1),
            (''print'', ''js_print'', 1), (''Socket'', ''js_socket_constructor'', 0)] n of
          Some x \<Rightarrow> Some x
        | None \<Rightarrow> map_option code (G (en_world e) n))"
    using t(2-5) p(2) s(2) by (simp add: s(1) p(1) t(1))
qed

text \<open>An engine whose state is the global object; a function object is the number of its C function and length.\<close>

definition table_code :: "jsv \<Rightarrow> native \<times> int" where
  "table_code v = (case v of JText i \<Rightarrow> (case from_nat i of (cs, l) \<Rightarrow> (map char_of (cs :: nat list), l)) | _ \<Rightarrow> ('''', 0))"

definition table_function :: "native \<Rightarrow> string \<Rightarrow> int \<Rightarrow> 'w \<Rightarrow> jsv \<times> 'w" where
  "table_function f n l w = (JText (to_nat (map of_char f :: nat list, l)), w)"

definition table_api :: "(string \<rightharpoonup> jsv) reg_api" where
  "table_api = \<lparr>ra_newCFunction = table_function, ra_newCFunctionMagic = table_function,
     ra_setPropertyStr = \<lambda>p n v w. (1, if p = JObject 0 then w(n \<mapsto> v) else w), ra_newObject = \<lambda>w. (JObject 1, w),
     ra_setPropertyFunctionList = \<lambda>p l w. (0, w), ra_newClassID = \<lambda>c w. (60, w), ra_newClass = \<lambda>c d w. (0, w),
     ra_setClassProto = \<lambda>c p w. w, ra_setConstructor = \<lambda>k p w. w\<rparr>"

theorem setup_globals_witness:
  "\<forall>J :: (string \<rightharpoonup> jsv) js_api. \<forall>e.
     let J = J\<lparr>ja_getGlobalObject := \<lambda>w. (JObject 0, w), ja_freeValue := \<lambda>v w. w\<rparr>
     in map_option table_code (en_world (snd (setupGlobals J table_api 0 e)) ''setTimeout'') = Some (''js_setTimeout'', 2) \<and>
        en_world (snd (setupGlobals J table_api 0 e)) ''eval'' = en_world e ''eval''"
proof (intro allI)
  fix J :: "(string \<rightharpoonup> jsv) js_api" and e
  let ?J = "J\<lparr>ja_getGlobalObject := \<lambda>w. (JObject 0, w), ja_freeValue := \<lambda>v w. w\<rparr>"
  have "table_code (fst (table_function f n l w)) = (f, l)" for f n l and w :: "string \<rightharpoonup> jsv"
    by (simp add: table_code_def table_function_def comp_def)
  then have "global_laws ?J table_api (JObject 0) (\<lambda>w. w) table_code"
    by (simp add: global_laws_def table_api_def) (simp add: table_function_def)
  with setup_globals [of e ?J table_api 0 "JObject 0" "\<lambda>w. w" table_code]
  have all: "map_option table_code (en_world (snd (setupGlobals ?J table_api 0 e)) n) =
       (case map_of [(''setTimeout'', ''js_setTimeout'', 2), (''setInterval'', ''js_setInterval'', 2),
            (''clearTimeout'', ''js_clearTimeout'', 1), (''clearInterval'', ''js_clearInterval'', 1),
            (''print'', ''js_print'', 1), (''Socket'', ''js_socket_constructor'', 0)] n of
          Some x \<Rightarrow> Some x
        | None \<Rightarrow> map_option table_code (en_world e n))" for n by blast
  have "en_world (snd (setupGlobals ?J table_api 0 e)) ''eval'' = en_world e ''eval''"
    by (simp add: setupGlobals_def registerTimers_def registerPrint_def SocketModule_registerWith_def register_class_def
        put_function_def put_global_def table_api_def table_function_def Let_def case_prod_unfold)
  with all [of "''setTimeout''"]
  show "let J = ?J
     in map_option table_code (en_world (snd (setupGlobals J table_api 0 e)) ''setTimeout'') = Some (''js_setTimeout'', 2) \<and>
        en_world (snd (setupGlobals J table_api 0 e)) ''eval'' = en_world e ''eval''"
    by (simp add: Let_def del: map_option_eq_Some)
qed

end
