(* ===== verification/Runtime.thy ===== *)
theory Runtime
  imports EventEnd
begin

text \<open>
  \<open>SandboxRuntime\<close> (\<^verbatim>\<open>src/runtime.cpp\<close>, \<^verbatim>\<open>include/runtime.hpp\<close>): one QuickJS runtime and the
  contexts made in it. What is asked of QuickJS is logged; whether it answers with a null pointer
  is an argument of the operations.
\<close>

section \<open>State and operations\<close>

record rt_config =
  memory_limit :: nat
  gc_threshold :: nat
  max_stack_size :: nat

definition Config_default :: rt_config where
  "Config_default = \<lparr>memory_limit = 0, gc_threshold = 256 * 1024, max_stack_size = 0\<rparr>"

datatype rt_event = NewRuntime | SetMemoryLimit nat | SetMaxStackSize nat | NewContext | FreeContext | RunGC | FreeRuntime

text \<open>
  \<open>rn_tracker\<close> is the opaque pointer of the rejection tracker, which belongs to the runtime, as the
  position of the context it points to. \<open>rn_dead\<close> keeps the destroyed contexts.
\<close>

record runtime =
  rn_rt :: bool
  rn_config :: rt_config
  rn_contexts :: "cstate list"
  rn_tracker :: "nat option"
  rn_dead :: "cstate list"
  rn_log :: "rt_event list"

definition SandboxRuntime_start :: runtime where
  "SandboxRuntime_start =
     \<lparr>rn_rt = False, rn_config = Config_default, rn_contexts = [], rn_tracker = None, rn_dead = [], rn_log = []\<rparr>"

definition rt_log :: "rt_event \<Rightarrow> runtime \<Rightarrow> runtime" where
  "rt_log x r = r\<lparr>rn_log := rn_log r @ [x]\<rparr>"

definition rt_initialize :: "bool \<Rightarrow> rt_config \<Rightarrow> runtime \<Rightarrow> (int + unit) \<times> runtime" where
  "rt_initialize allocated cfg r =
     (if rn_rt r then (Inl (-1), r)
      else
        let r = r\<lparr>rn_config := cfg, rn_rt := allocated\<rparr>
        in if \<not> rn_rt r then (Inl (-1), r)
           else
             let r = rt_log NewRuntime r;
                 r = (if memory_limit (rn_config r) > 0 then rt_log (SetMemoryLimit (memory_limit (rn_config r))) r else r);
                 r = (if max_stack_size (rn_config r) > 0 then rt_log (SetMaxStackSize (max_stack_size (rn_config r))) r else r)
             in (Inr (), r))"

text \<open>The constructor of \<open>SandboxContext\<close> sets the tracker of the whole runtime, its destructor clears it.\<close>

definition rt_createContext :: "bool \<Rightarrow> (nat \<Rightarrow> int) \<Rightarrow> runtime \<Rightarrow> (int + nat) \<times> runtime" where
  "rt_createContext allocated clock r =
     (if \<not> rn_rt r then (Inl (-1), r)
      else if \<not> allocated then (Inl (-1), r)
      else
        let i = length (rn_contexts r)
        in (Inr i, rt_log NewContext
              (r\<lparr>rn_contexts := rn_contexts r @ [SandboxContext_init clock], rn_tracker := Some i\<rparr>)))"

definition free_context :: "cstate \<Rightarrow> runtime \<Rightarrow> runtime" where
  "free_context c r =
     rt_log FreeContext (rt_log RunGC (r\<lparr>rn_tracker := None, rn_dead := rn_dead r @ [SandboxContext_dtor c]\<rparr>))"

text \<open>\<open>contexts_.clear()\<close> destroys in the order of creation, as libstdc++ does.\<close>

definition rt_shutdown :: "runtime \<Rightarrow> runtime" where
  "rt_shutdown r =
     (let r = (fold free_context (rn_contexts r) r)\<lparr>rn_contexts := []\<rparr>
      in if rn_rt r then (rt_log FreeRuntime (rt_log RunGC r))\<lparr>rn_rt := False\<rparr> else r)"

text \<open>A promise is rejected, or handled later, in the context at \<open>i\<close>; QuickJS calls the tracker.\<close>

definition rt_rejected :: "nat \<Rightarrow> jsval \<Rightarrow> jsval \<Rightarrow> bool \<Rightarrow> runtime \<Rightarrow> runtime" where
  "rt_rejected i promise reason is_handled r =
     (case rn_tracker r of
        None \<Rightarrow> r
      | Some self \<Rightarrow>
          r\<lparr>rn_contexts := (rn_contexts r)[self := promiseRejectionTracker promise reason is_handled (rn_contexts r ! self)]\<rparr>)"

text \<open>What a program does; \<open>Within i f\<close> stands for any use of the context at \<open>i\<close>.\<close>

datatype rt_op =
    Initialize bool rt_config
  | CreateContext bool "nat \<Rightarrow> int"
  | Within nat "cstate \<Rightarrow> cstate"
  | Rejected nat jsval jsval bool
  | Shutdown

fun rt_step :: "runtime \<Rightarrow> rt_op \<Rightarrow> runtime" where
  "rt_step r (Initialize ok cfg) = snd (rt_initialize ok cfg r)"
| "rt_step r (CreateContext ok clock) = snd (rt_createContext ok clock r)"
| "rt_step r (Within i f) =
     (if i < length (rn_contexts r) then r\<lparr>rn_contexts := (rn_contexts r)[i := f (rn_contexts r ! i)]\<rparr> else r)"
| "rt_step r (Rejected i p v h) = rt_rejected i p v h r"
| "rt_step r Shutdown = rt_shutdown r"

definition rt_run :: "rt_op list \<Rightarrow> runtime" where
  "rt_run ops = foldl rt_step SandboxRuntime_start ops"

section \<open>What QuickJS demands\<close>

text \<open>
  The engine's side: the limits of the live runtime, and how many contexts live in it. A call out
  of order has no successor.
\<close>

type_synonym engine_state = "(nat option \<times> nat option) option \<times> nat"

fun engine_step :: "engine_state \<Rightarrow> rt_event \<Rightarrow> engine_state option" where
  "engine_step (None, n) NewRuntime = (if n = 0 then Some (Some (None, None), 0) else None)"
| "engine_step (Some (_, s), n) (SetMemoryLimit k) = Some (Some (Some k, s), n)"
| "engine_step (Some (m, _), n) (SetMaxStackSize k) = Some (Some (m, Some k), n)"
| "engine_step (Some l, n) NewContext = Some (Some l, Suc n)"
| "engine_step (Some l, Suc n) FreeContext = Some (Some l, n)"
| "engine_step (Some l, n) RunGC = Some (Some l, n)"
| "engine_step (Some l, 0) FreeRuntime = Some (None, 0)"
| "engine_step _ _ = None"

fun replay :: "engine_state \<Rightarrow> rt_event list \<Rightarrow> engine_state option" where
  "replay s [] = Some s"
| "replay s (x # xs) = (case engine_step s x of None \<Rightarrow> None | Some s \<Rightarrow> replay s xs)"

lemma replay_append: "replay s xs = Some t \<Longrightarrow> replay s (xs @ ys) = replay t ys"
  by (induction xs arbitrary: s) (auto split: option.splits)

definition limit :: "nat \<Rightarrow> nat option" where
  "limit k = (if k > 0 then Some k else None)"

definition engine_of :: "runtime \<Rightarrow> engine_state" where
  "engine_of r =
     (if rn_rt r then Some (limit (memory_limit (rn_config r)), limit (max_stack_size (rn_config r))) else None,
      length (rn_contexts r))"

definition rt_ok :: "runtime \<Rightarrow> bool" where
  "rt_ok r \<longleftrightarrow> replay (None, 0) (rn_log r) = Some (engine_of r) \<and> (rn_rt r \<or> rn_contexts r = []) \<and>
     (case rn_tracker r of None \<Rightarrow> True | Some i \<Rightarrow> i < length (rn_contexts r)) \<and>
     count_list (rn_log r) NewContext = length (rn_contexts r) + length (rn_dead r)"

lemma ok_start: "rt_ok SandboxRuntime_start"
  by (simp add: rt_ok_def SandboxRuntime_start_def engine_of_def)

lemma ok_initialize: "rt_ok r \<Longrightarrow> rt_ok (snd (rt_initialize ok cfg r))"
  by (auto simp: rt_ok_def rt_initialize_def engine_of_def rt_log_def Let_def limit_def replay_append split: option.splits)

lemma ok_createContext: "rt_ok r \<Longrightarrow> rt_ok (snd (rt_createContext ok clock r))"
  by (auto simp: rt_ok_def rt_createContext_def engine_of_def rt_log_def Let_def replay_append split: option.splits)

lemma free_contexts:
  assumes "replay (None, 0) (rn_log r) = Some (Some l, length cs + n)"
  shows "replay (None, 0) (rn_log (fold free_context cs r)) = Some (Some l, n) \<and>
    count_list (rn_log (fold free_context cs r)) NewContext = count_list (rn_log r) NewContext \<and>
    rn_dead (fold free_context cs r) = rn_dead r @ map SandboxContext_dtor cs \<and>
    rn_rt (fold free_context cs r) = rn_rt r \<and> rn_config (fold free_context cs r) = rn_config r \<and>
    rn_tracker (fold free_context cs r) = (if cs = [] then rn_tracker r else None)"
  using assms
proof (induction cs arbitrary: r)
  case (Cons c cs)
  have "replay (None, 0) (rn_log (free_context c r)) = Some (Some l, length cs + n)"
    using Cons.prems by (simp add: free_context_def rt_log_def replay_append)
  from Cons.IH [OF this] show ?case by (auto simp: free_context_def rt_log_def)
qed simp

lemma ok_shutdown:
  assumes "rt_ok r"
  shows "rt_ok (rt_shutdown r) \<and> engine_of (rt_shutdown r) = (None, 0) \<and> rn_tracker (rt_shutdown r) = None \<and>
    rn_dead (rt_shutdown r) = rn_dead r @ map SandboxContext_dtor (rn_contexts r)"
proof (cases "rn_rt r")
  case True
  with assms obtain l where "replay (None, 0) (rn_log r) = Some (Some l, length (rn_contexts r) + 0)"
    by (auto simp: rt_ok_def engine_of_def)
  from free_contexts [OF this] True assms show ?thesis
    by (auto simp: rt_shutdown_def rt_ok_def engine_of_def rt_log_def Let_def replay_append split: option.splits)
next
  case False
  with assms have "rn_contexts r = []" by (simp add: rt_ok_def)
  with assms False show ?thesis
    by (auto simp: rt_shutdown_def rt_ok_def engine_of_def Let_def split: option.splits)
qed

lemma ok_step: "rt_ok r \<Longrightarrow> rt_ok (rt_step r x)"
proof (cases x)
  case (Rejected i p v h)
  then show "rt_ok r \<Longrightarrow> ?thesis" by (auto simp: rt_ok_def rt_rejected_def engine_of_def split: option.splits)
qed (auto simp: ok_initialize ok_createContext ok_shutdown, auto simp: rt_ok_def engine_of_def split: option.splits)

lemma ok_run: "rt_ok (rt_run ops)"
proof -
  have "rt_ok r \<Longrightarrow> rt_ok (foldl rt_step r ops)" for r
    by (induction ops arbitrary: r) (simp_all add: ok_step)
  with ok_start show ?thesis by (simp add: rt_run_def)
qed

section \<open>Properties\<close>

text \<open>
  C40. The life of the runtime. In every sequence of \<open>initialize\<close>, \<open>createContext\<close>, uses of the
  contexts, rejections and \<open>shutdown\<close>, whatever allocations fail: the engine is called in order (one
  runtime at a time, contexts only in a live runtime, the runtime freed after all its contexts)
  and runs with the limits of the configuration; the rejection tracker never points to a destroyed
  context; and after \<open>shutdown\<close> no runtime, no context and no tracker is left, each context having
  gone through its destructor once, in the order of creation.
\<close>

theorem runtime_life_cycle:
  "replay (None, 0) (rn_log (rt_run ops)) = Some (engine_of (rt_run ops)) \<and>
    (case rn_tracker (rt_run ops) of None \<Rightarrow> True | Some i \<Rightarrow> i < length (rn_contexts (rt_run ops))) \<and>
    replay (None, 0) (rn_log (rt_shutdown (rt_run ops))) = Some (None, 0) \<and>
    rn_tracker (rt_shutdown (rt_run ops)) = None \<and>
    rn_dead (rt_shutdown (rt_run ops)) = rn_dead (rt_run ops) @ map SandboxContext_dtor (rn_contexts (rt_run ops)) \<and>
    length (rn_dead (rt_shutdown (rt_run ops))) = count_list (rn_log (rt_shutdown (rt_run ops))) NewContext"
proof -
  define r t where "r = rt_run ops" and "t = rt_shutdown r"
  have ok: "rt_ok r" unfolding r_def by (rule ok_run)
  have t: "rt_ok t" "engine_of t = (None, 0)" "rn_tracker t = None" "rn_dead t = rn_dead r @ map SandboxContext_dtor (rn_contexts r)"
    using ok_shutdown [OF ok] by (auto simp: t_def)
  have "rn_contexts t = []" using t(2) by (simp add: engine_of_def)
  moreover have "count_list (rn_log t) NewContext = length (rn_contexts t) + length (rn_dead t)"
    using t(1) unfolding rt_ok_def by blast
  ultimately have "length (rn_dead t) = count_list (rn_log t) NewContext" by simp
  moreover have "replay (None, 0) (rn_log t) = Some (None, 0)" using t(1,2) unfolding rt_ok_def by metis
  ultimately show ?thesis using ok t unfolding rt_ok_def r_def [symmetric] t_def [symmetric] by blast
qed

text \<open>The tracker belongs to the runtime: with two contexts, the second gets the rejections of the first.\<close>

lemma second_context_takes_rejections:
  "map pending_rejections (rn_contexts (rt_run [Initialize True Config_default, CreateContext True clock,
     CreateContext True clock, Rejected 0 p v False])) = [[], [(p, v)]]"
  by (simp add: rt_run_def SandboxRuntime_start_def rt_initialize_def Config_default_def rt_createContext_def rt_log_def
      rt_rejected_def promiseRejectionTracker_def JS_DupValue_def SandboxContext_init_def Let_def)

text \<open>The threshold of the collector is part of the configuration and reaches no one.\<close>

lemma gc_threshold_ignored:
  "rn_log (snd (rt_initialize ok (cfg\<lparr>gc_threshold := k\<rparr>) r)) = rn_log (snd (rt_initialize ok cfg r))"
  by (simp add: rt_initialize_def rt_log_def Let_def)

end
