(* ===== verification/Spec2Isabelle.thy ===== *)
theory Spec2Isabelle
  imports MemProps RealCases RealRoundtrip TimerSpec SocketTypes SocketOrder HostEnd FormerProps TimerBounds Primordials
    OpaqueStorage Bindings Runtime
begin

text \<open>
  A verification library for a sandboxed JavaScript host: a virtual file system with a memory and
  a disk backend (\<^verbatim>\<open>src/sandboxed-fs\<close>), and a runtime around QuickJS and asio with timers, promise
  rejections, an event loop and TCP sockets (\<^verbatim>\<open>src/src\<close>, \<^verbatim>\<open>src/include\<close>). File names below are
  relative to these two directories.

  \<^bold>\<open>The program.\<close> Scripts reach files through \<open>VirtualFS\<close>, a table of mounts. It normalises a path,
  finds the mount with the longest prefix, checks its permission and calls the backend. A backend
  implements \<open>VFSBackend\<close>: \<open>MemFSBackend\<close> is a tree of nodes in memory, \<open>RealFSBackend\<close> a directory
  of the host behind a gate that resolves links and refuses what leads outside. \<open>SandboxRuntime\<close>
  owns one QuickJS runtime and its \<open>SandboxContext\<close>s. A context keeps timers in a heap and a table
  with one asio timer armed for the earliest, collects unhandled rejections, and runs the loop of
  microtasks, rejections and handlers. A \<open>TcpSocket\<close> ties a JavaScript object to a transport: pins
  keep the object alive while operations are under way, an emitter holds the listeners, and the
  context keeps a registry for its shutdown. \<open>Value\<close>, \<open>Atom\<close>, \<open>CString\<close> and \<open>JsPromise\<close> are owning
  handles on what QuickJS counts.

  \<^bold>\<open>Theories and sources.\<close>
  \<^item> \<^verbatim>\<open>Prelude\<close>: bytes, results, association lists and the lemmas all share.
  \<^item> \<^verbatim>\<open>VfsTypes\<close> (\<^verbatim>\<open>vfs_types.hpp\<close>): permission mask, \<open>Stat\<close>. \<^verbatim>\<open>VfsBackend\<close> (\<^verbatim>\<open>vfs_backend.hpp\<close>): the
    method table over a world, and the laws of a backend as a locale. \<^verbatim>\<open>VfsPath\<close> and \<^verbatim>\<open>VirtualFS\<close>
    (\<^verbatim>\<open>vfs.hpp\<close>, \<^verbatim>\<open>vfs.cpp\<close>): normalisation, the mount table, resolution, all methods.
  \<^item> \<^verbatim>\<open>MemTree\<close>, \<^verbatim>\<open>MemFS\<close> (\<^verbatim>\<open>vfs_mem.hpp\<close>, \<^verbatim>\<open>vfs_mem.cpp\<close>): the tree and the sixteen methods. \<^verbatim>\<open>MemSpec\<close>
    is the abstract file system, a map from paths to entries; \<^verbatim>\<open>MemRefine\<close>, \<^verbatim>\<open>MemMkdir\<close>, \<^verbatim>\<open>MemRename\<close>
    show the refinement, \<^verbatim>\<open>MemInv\<close> the invariant, \<^verbatim>\<open>MemProps\<close> the properties.
  \<^item> \<^verbatim>\<open>HostFS\<close>: POSIX directories with symbolic links and the part of \<open>std::filesystem\<close> the backend
    uses. \<^verbatim>\<open>RealFS\<close> (\<^verbatim>\<open>vfs_real.hpp\<close>, \<^verbatim>\<open>vfs_real.cpp\<close>): the gate and the methods. \<^verbatim>\<open>HostLemmas\<close>,
    \<^verbatim>\<open>RealSafe\<close>, \<^verbatim>\<open>RealConfine\<close>: what the gate lets through. \<^verbatim>\<open>RealProps\<close>, \<^verbatim>\<open>RealRoundtrip\<close>: the
    properties. \<^verbatim>\<open>RealCases\<close>: concrete cases in which the disk backend does less than it means to, and
    what holds of both backends.
  \<^item> \<^verbatim>\<open>EventLoop\<close> (\<^verbatim>\<open>context.cpp\<close>, \<^verbatim>\<open>context_state.hpp\<close>, \<^verbatim>\<open>bindings/timers.cpp\<close>): timers, rejections,
    microtasks, the loop, the destructor. \<^verbatim>\<open>EventInv\<close> to \<^verbatim>\<open>EventFire\<close>: invariants over runs, by rule
    induction. \<^verbatim>\<open>EventProps\<close>, \<^verbatim>\<open>EventEnd\<close>: the properties. \<^verbatim>\<open>TimerSpec\<close>: the timer service, an
    abstract machine without heap, flags and asio, and the refinement. \<^verbatim>\<open>TimerBounds\<close>: the expiry
    in 64 bits.
  \<^item> \<^verbatim>\<open>EventEmitter\<close> (\<^verbatim>\<open>qjsb/event_emitter.hpp\<close>) and \<^verbatim>\<open>Socket\<close> (\<^verbatim>\<open>qjsb/pin_guard.hpp\<close>,
    \<^verbatim>\<open>transport/tcp.cpp\<close>, \<^verbatim>\<open>modules/socket.cpp\<close>): listeners, pins, transport, socket, bindings.
    \<^verbatim>\<open>SocketInv\<close>, \<^verbatim>\<open>SocketRefs\<close>: invariants over runs. \<^verbatim>\<open>SocketProps\<close>: the properties and the runs
    with faults. \<^verbatim>\<open>SocketTypes\<close>: the methods as JavaScript sees them. \<^verbatim>\<open>SocketOrder\<close>: the order of the
    listener calls. \<^verbatim>\<open>SocketShutdown\<close> (\<^verbatim>\<open>context.cpp\<close>): the registry, several sockets interleaved, and
    the destructor of the context for them; invariants of one socket are lifted to all by a locale.
  \<^item> \<^verbatim>\<open>Host\<close> (\<^verbatim>\<open>context.cpp\<close>): timers and sockets together, \<open>run\<close> over both and the whole destructor.
    \<^verbatim>\<open>HostProps\<close>: its invariants, from those of the parts. \<^verbatim>\<open>HostFuel\<close>: every turn ends. \<^verbatim>\<open>HostEnd\<close>: the
    properties, and runs in which timers and sockets get into each other's way.
  \<^item> \<^verbatim>\<open>FormerSocket\<close> (\<^verbatim>\<open>io_resource.hpp\<close>, \<^verbatim>\<open>bindings/socket.cpp\<close>), \<^verbatim>\<open>FormerProps\<close>: the socket before the
    socket module, which the build leaves out, modelled in the same way.
  \<^item> \<^verbatim>\<open>Handles\<close> (\<^verbatim>\<open>value.hpp\<close>, \<^verbatim>\<open>atom.hpp\<close>, \<^verbatim>\<open>cstring.hpp\<close>, \<^verbatim>\<open>promise.hpp\<close>, \<^verbatim>\<open>promise.cpp\<close>,
    \<^verbatim>\<open>common.hpp\<close>), \<^verbatim>\<open>HandleProps\<close>: the handles and programs over them. \<^verbatim>\<open>Primordials\<close>
    (\<^verbatim>\<open>primordials.cpp\<close>), \<^verbatim>\<open>OpaqueStorage\<close> (\<^verbatim>\<open>opaque.hpp\<close>), \<^verbatim>\<open>Runtime\<close> (\<^verbatim>\<open>runtime.cpp\<close>). \<^verbatim>\<open>Bindings\<close>, on the same
    engine: the error helpers of the context, \<open>print\<close> (\<^verbatim>\<open>bindings/print.cpp\<close>), and the registration of
    all bindings as globals.

  \<^bold>\<open>What is shown.\<close>
  \<^item> Router: normal forms are canonical and follow the segments; a resolution stays inside the mount
    with the longest prefix, fails only with EACCES, and exactly then; the table stays sorted and
    its order of construction does not matter; read-only mounts are read-only.
  \<^item> Memory: every reachable tree is well formed, and each method is the abstract operation on the
    map of its entries, errors included; what is written is read back; copying works across
    backends.
  \<^item> Disk: what the gate opens is under the root, reads return only bytes from there, changes on
    canonical paths stay there; permission conversions are inverse; what \<open>stat\<close> returns is that of an
    entry below the root.
  \<^item> Timers: heap and table agree in every run, a live timer is never forgotten, the handler calls
    what is due in order and rearms, one-shot timers fire once, cancelled ones never; the references
    balance; \<open>run\<close> returns fatal or when a handler has left no work; the 64-bit expiry agrees with the
    integer one in its range. Every run is one of the timer service, call by call.
  \<^item> Sockets: pins cover every operation under way, and no run has a fault in which JavaScript keeps the
    socket and its listeners, does not close it and connects to addresses, and in which sockets can be
    opened; deletion, registry, listeners and their references in all
    runs; for any number of sockets on one loop, the registry is exact and shutdown deletes every
    socket. The runs that do end in a fault are stated as such.
    Its methods are typed: calls with arguments of other types change nothing but what JavaScript does
    that their conversion runs. A socket that connects once reports the connection, then data, then the close.
  \<^item> The whole context: \<open>run\<close> has no fault, returns only when timers and sockets have no work left but what
    the last microtasks made, and its turns end; the destructor leaves no socket and no reference.
  \<^item> The former socket: references and deletion in all runs, no fault but that of a \<open>connect\<close> that throws
    as long as JavaScript keeps it and its listeners, and the fault when it does not.
  \<^item> Handles: any program over the wrappers holds exactly the references of its live objects, of what
    it released and of what the move assignment of a promise has overwritten.
    \<open>print\<close> writes what it should; setting up the globals keeps no reference and defines the six
    functions. Runtime: the engine is called in order and nothing outlives it.

  \<^bold>\<open>Code that is not here.\<close> QuickJS is a parameter: for the event loop and the sockets, what a function
  does when called, as a list of the bindings' operations; for the handles, what its functions
  answer, with its convention that a \<open>JSValue\<close> returned belongs to the caller, one passed is taken
  over and a \<open>JSValueConst\<close> is only looked at. asio is the pending wait, the operations in flight, the
  queue of handlers that are ready, and the \<open>io_context\<close> that is stopped once it has run out of work;
  which operation ends and how, and which handler is next, is chosen by the run. In
  \<^verbatim>\<open>Socket\<close> the listeners of a socket act on that socket; in \<^verbatim>\<open>Host\<close> they act on all of the context. The host
  file system is a tree with symbolic links: hard links, host permissions, other processes, NUL
  characters and failing allocation are left out. The clock is a sequence of readings, in
  nanoseconds for the loop and milliseconds for the memory backend, that the state consumes.

  \<^bold>\<open>Bounds and choices.\<close> Link resolution in \<^verbatim>\<open>HostFS\<close> follows at most 40 links, as Linux does. The loops
  over due timers, microtasks and \<open>run\<close> may not end (a function can schedule for ever) and take fuel;
  that enough fuel gives a result is proved with the property, as is the case in which none does.
  \<open>std::priority_queue\<close> does not say which of two equal expiries comes first; the model takes the
  older one. \<open>std::sort\<close> does not order equal keys; the property about construction assumes distinct
  prefixes. Ids and inode numbers are integers, pins too. Using a deleted object, deleting it twice, freeing a
  reference that nobody holds, a failed assertion and an escaping exception are values of type
  \<open>fault\<close>, so that a step that has one gives no state.

  The exceptions of \<open>make_address\<close> and of \<open>open\<close> are modelled, with the choice of when they are thrown as a
  parameter; failing allocation is not. A listener is called with the reference of its slot, so one that
  replaces itself is freed while it runs unless JavaScript refers to it in another way, which is a
  parameter too. JavaScript that a conversion runs (the \<open>toString\<close> of an event name, of a delay or of a
  rejection's reason) stands in the script before the call that converts.

  In \<^verbatim>\<open>EventLoop\<close> a wait expires when its handler runs, so it can be cancelled until then. asio may have
  queued the handler already when \<open>expires_at\<close> or \<open>cancel\<close> is called, and then it runs although a new wait
  is pending; \<open>timer_handler\<close> in \<^verbatim>\<open>EventProps\<close> holds of such a handler too. \<open>processExpiredTimers\<close> keeps an
  iterator of an \<open>unordered_map\<close> across a call that may insert into it. A rehash invalidates it by the
  standard, and erasing through it is undefined; the node-based tables of the known libraries erase the
  right entry, and so does the model. \<open>SandboxContext_dtor\<close> of \<^verbatim>\<open>EventLoop\<close> is the part of the destructor for
  timers and rejections; the resources, the last \<open>run\<close> of the \<open>io_context\<close> and the forced cleanup are in
  \<open>host_dtor\<close> of \<^verbatim>\<open>Host\<close>. \<open>contexts_.clear()\<close> in \<^verbatim>\<open>Runtime\<close> destroys the contexts in the order of their
  creation, as libstdc++ does; the standard leaves the order open.

  In \<^verbatim>\<open>HostFS\<close> streams open regular files only. Whether one can be opened for reading on a directory or a
  device, and sought to its end, depends on the platform and the file system, and is left out. The times of \<open>utimes\<close> are integers: in the
  64-bit ticks of the file clock very large ones overflow.

  \<^bold>\<open>Not modelled.\<close> The thread that \<open>join\<close> waits for (no code starts one), the type tests and
  comparisons of \<open>Value\<close> that hand on an answer of QuickJS, the patch of QuickJS, demos and tests are
  glue or third-party code.

  \<^bold>\<open>Plan.\<close> Every source file of the program has its model, and the parts are put together in \<^verbatim>\<open>Host\<close>. What
  could still be added is an abstract specification of the transport.
\<close>

end
